(* ===== verification/Prelude.thy ===== *)
theory Prelude
  imports Main "HOL-Library.Word"
begin

text \<open>
  Shared vocabulary of the development.

  A C++ \<open>std::string\<close> or \<open>std::string_view\<close> is an Isabelle \<^typ>\<open>string\<close>: a list of
  \<^typ>\<open>char\<close>, each of which is one byte.  The source reads a byte after the integral
  promotion of \<open>unsigned char\<close>; \<open>uchar\<close> is that reading at the width of \<open>unsigned\<close>.

  The theory collects the facts that several components use: the numeric reading of
  bytes, masks of bytes, and searching and splitting of lists.
\<close>

unbundle bit_operations_syntax

named_theorems byte_simps \<open>numeric readings of bytes\<close>
named_theorems codec_simps \<open>equations of the codec computations\<close>
named_theorems depth_intros \<open>operations that keep the nesting depth of a context\<close>

type_synonym u32 = "32 word"
type_synonym u64 = "64 word"

section \<open>Bytes\<close>

definition uchar :: "char \<Rightarrow> u32" where
  "uchar c = of_char c"

abbreviation byte :: "char \<Rightarrow> nat" where
  "byte c \<equiv> of_char c"

lemma unat_uchar [byte_simps]: "unat (uchar c) = byte c"
proof -
  have "unat (uchar c) = unat (of_nat (byte c) :: u32)"
    by (simp only: uchar_def of_nat_of_char)
  also have "\<dots> = byte c"
    using nat_of_char_less_256 [of c]
    by (simp add: unsigned_of_nat take_bit_eq_mod mod_less order.strict_trans del: nat_of_char_less_256)
  finally show ?thesis .
qed

lemma uchar_less [byte_simps]: "uchar c < w \<longleftrightarrow> byte c < unat w"
  by (simp add: word_less_nat_alt byte_simps)

lemma uchar_le [byte_simps]: "uchar c \<le> w \<longleftrightarrow> byte c \<le> unat w"
  by (simp add: word_le_nat_alt byte_simps)

lemma le_uchar [byte_simps]: "w \<le> uchar c \<longleftrightarrow> unat w \<le> byte c"
  by (simp add: word_le_nat_alt byte_simps)

lemma uchar_of_nat: "uchar c = of_nat (byte c)"
  by (simp only: uchar_def of_nat_of_char)

lemma unat_uchar_mask: "unat (uchar c AND mask k) = byte c mod 2 ^ k"
proof -
  have "uchar c AND mask k = take_bit k (uchar c)"
    by (simp add: take_bit_eq_mask)
  then have "unat (uchar c AND mask k) = take_bit k (unat (uchar c))"
    by (simp add: unsigned_take_bit_eq)
  then show ?thesis by (simp add: byte_simps take_bit_eq_mod)
qed

lemma char_of_less_inject: "n < 256 \<Longrightarrow> m < 256 \<Longrightarrow> (char_of n :: char) = char_of m \<longleftrightarrow> n = (m :: nat)"
  by (metis mod_less of_char_of)

lemma byte_eq_iff: "byte c = byte d \<longleftrightarrow> c = d"
  by (rule of_char_eq_iff)

lemma byte_char_of [byte_simps]: "byte (char_of n) = n mod 256"
  by simp

lemma char_eqI: "byte c = n \<Longrightarrow> c = char_of n"
  by auto

section \<open>Lists\<close>

lemma takeWhile_dropWhile_eq: "takeWhile P xs @ dropWhile P xs = xs"
  by simp

lemma length_takeWhile_less: "y \<in> set xs \<Longrightarrow> \<not> P y \<Longrightarrow> length (takeWhile P xs) < length xs"
  by (induction xs) auto

end
