(* ===== verification/Utf8.thy ===== *)
theory Utf8
  imports Prelude
begin

text \<open>
  UTF-8 validation (\<open>validUtf8\<close> in \<open>src/codec_context.cpp\<close>).  The source walks an index over
  the bytes; the model recurses on the bytes that are left, and keeps the accumulated code
  point \<open>value\<close> at the width of \<open>unsigned\<close>.

  The specification is independent of the scanner: a text is valid exactly when it is the
  concatenation of the UTF-8 encodings of Unicode scalar values.
\<close>

section \<open>The scanner\<close>

text \<open>The classification of the first byte: initial value, number of continuation bytes, minimum.\<close>

definition utf8_lead :: "u32 \<Rightarrow> (u32 \<times> nat \<times> u32) option" where
  "utf8_lead first =
     (if 0xc2 \<le> first \<and> first \<le> 0xdf then Some (first AND 0x1f, 1, 0x80)
      else if 0xe0 \<le> first \<and> first \<le> 0xef then Some (first AND 0x0f, 2, 0x800)
      else if 0xf0 \<le> first \<and> first \<le> 0xf4 then Some (first AND 0x07, 3, 0x10000)
      else None)"

text \<open>The loop \<open>while (count--)\<close>; the caller has checked that \<open>count\<close> bytes are left.\<close>

fun utf8_tail :: "nat \<Rightarrow> u32 \<Rightarrow> string \<Rightarrow> (u32 \<times> string) option" where
  "utf8_tail 0 value text = Some (value, text)"
| "utf8_tail (Suc count) value [] = None"
| "utf8_tail (Suc count) value (c # text) =
     (if uchar c AND 0xc0 \<noteq> 0x80 then None
      else utf8_tail count (push_bit 6 value OR (uchar c AND 0x3f)) text)"

lemma utf8_tail_length: "utf8_tail n v text = Some (w, rest) \<Longrightarrow> length rest + n = length text"
  by (induction n v "text" rule: utf8_tail.induct) (auto split: if_splits)

function validUtf8 :: "string \<Rightarrow> bool" where
  "validUtf8 [] = True"
| "validUtf8 (c # text) =
     (if uchar c < 0x80 then validUtf8 text
      else case utf8_lead (uchar c) of
        None \<Rightarrow> False
      | Some (value, count, minimum) \<Rightarrow>
          if length text < count then False
          else case utf8_tail count value text of
            None \<Rightarrow> False
          | Some (value', rest) \<Rightarrow>
              if value' < minimum \<or> 0x10ffff < value' \<or> (0xd800 \<le> value' \<and> value' \<le> 0xdfff)
              then False else validUtf8 rest)"
  by pat_completeness auto
termination
  by (relation "measure length") (auto dest!: utf8_tail_length)

section \<open>The specification\<close>

definition scalar_value :: "nat \<Rightarrow> bool" where
  "scalar_value p \<longleftrightarrow> p \<le> 0x10ffff \<and> \<not> (0xd800 \<le> p \<and> p \<le> 0xdfff)"

definition utf8_encode :: "nat \<Rightarrow> string" where
  "utf8_encode p =
     (if p < 0x80 then [char_of p]
      else if p < 0x800 then [char_of (0xc0 + p div 64), char_of (0x80 + p mod 64)]
      else if p < 0x10000 then
        [char_of (0xe0 + p div 4096), char_of (0x80 + p div 64 mod 64), char_of (0x80 + p mod 64)]
      else
        [char_of (0xf0 + p div 262144), char_of (0x80 + p div 4096 mod 64),
         char_of (0x80 + p div 64 mod 64), char_of (0x80 + p mod 64)])"

definition utf8_text :: "nat list \<Rightarrow> string" where
  "utf8_text ps = concat (map utf8_encode ps)"

section \<open>Numeric reading of the scanner\<close>

lemma mask_literals: "(0x3f :: u32) = mask 6" "(0x1f :: u32) = mask 5" "(0x0f :: u32) = mask 4"
  "(0x07 :: u32) = mask 3"
  by (simp_all add: mask_eq_exp_minus_1)

lemma continuation_byte: "uchar c AND 0xc0 = 0x80 \<longleftrightarrow> 128 \<le> byte c \<and> byte c < 192"
proof -
  have "\<forall>n \<in> set [0..<256]. (of_nat n :: u32) AND 0xc0 = 0x80 \<longleftrightarrow> 128 \<le> n \<and> n < 192"
    by code_simp
  then show ?thesis
    using nat_of_char_less_256 [of c] by (simp add: uchar_of_nat)
qed

lemma shift_or_value:
  assumes "unat v < 2 ^ 20"
  shows "unat (push_bit 6 v OR (uchar c AND 0x3f)) = 64 * unat v + byte c mod 64"
proof -
  let ?m = "uchar c AND mask 6"
  have disj: "push_bit 6 v AND ?m = 0"
    by (rule bit_word_eqI) (auto simp: bit_simps)
  have shift: "unat (push_bit 6 v) = 64 * unat v"
    using assms by (simp add: push_bit_eq_mult unat_word_ariths)
  have "push_bit 6 v OR ?m = push_bit 6 v + ?m"
    using disj by (rule disjunctive_add_eq_or [symmetric])
  moreover have "unat (push_bit 6 v + ?m) = (64 * unat v + byte c mod 64) mod 2 ^ 32"
    by (simp add: unat_word_ariths shift unat_uchar_mask)
  moreover have "64 * unat v + byte c mod 64 < 2 ^ 32"
    using assms by simp
  ultimately show ?thesis by (simp add: mask_literals)
qed

lemma unat_u32: "k < 4294967296 \<Longrightarrow> unat (word_of_nat k :: u32) = k"
  by (simp add: unsigned_of_nat take_bit_eq_mod)

lemma word_eq_of_unat: "unat w = k \<Longrightarrow> w = word_of_nat k"
  by auto

lemma utf8_tail_Cons:
  assumes "k < 2 ^ 20"
  shows "utf8_tail (Suc n) (word_of_nat k) (c # cs) =
     (if 128 \<le> byte c \<and> byte c < 192
      then utf8_tail n (word_of_nat (64 * k + byte c mod 64)) cs else None)"
proof -
  have k: "unat (word_of_nat k :: u32) = k"
    using assms by (intro unat_u32) simp
  have "push_bit 6 (word_of_nat k) OR (uchar c AND 0x3f) = word_of_nat (64 * k + byte c mod 64)"
    using shift_or_value [of "word_of_nat k" c] assms unfolding k by (blast intro: word_eq_of_unat)
  then show ?thesis
    using continuation_byte [of c] by simp
qed

lemma utf8_lead_cases:
  "utf8_lead (uchar c) =
     (if 0xc2 \<le> byte c \<and> byte c \<le> 0xdf then Some (word_of_nat (byte c mod 32), 1, 0x80)
      else if 0xe0 \<le> byte c \<and> byte c \<le> 0xef then Some (word_of_nat (byte c mod 16), 2, 0x800)
      else if 0xf0 \<le> byte c \<and> byte c \<le> 0xf4 then Some (word_of_nat (byte c mod 8), 3, 0x10000)
      else None)"
proof -
  have m: "uchar c AND mask k = word_of_nat (byte c mod 2 ^ k)" for k
    using unat_uchar_mask [of c k] by (rule word_eq_of_unat)
  show ?thesis
    by (simp add: utf8_lead_def byte_simps mask_literals m)
qed

text \<open>Characteristic equations of the scanner, one per length of a sequence.\<close>

abbreviation cont :: "char \<Rightarrow> bool" where
  "cont c \<equiv> 128 \<le> byte c \<and> byte c < 192"

lemma validUtf8_1: "byte c < 128 \<Longrightarrow> validUtf8 (c # cs) = validUtf8 cs"
  by (simp add: byte_simps)

lemma mod_bounds: "(n :: nat) mod 8 < 8" "n mod 16 < 16" "n mod 32 < 32" "n mod 64 < 64"
  by simp_all

lemma value3_bound: "a < 16 \<Longrightarrow> b < 64 \<Longrightarrow> c < 64 \<Longrightarrow> 64 * (64 * a + b) + c < (65536 :: nat)"
  by simp

lemma value4_bound:
  "a < 8 \<Longrightarrow> b < 64 \<Longrightarrow> c < 64 \<Longrightarrow> d < 64 \<Longrightarrow> 64 * (64 * (64 * a + b) + c) + d < (2097152 :: nat)"
  by simp

lemma utf8_tail_step:
  assumes "k < 2 ^ 20" "0 < n"
  shows "utf8_tail n (word_of_nat k) (c # cs) =
     (if cont c then utf8_tail (n - 1) (word_of_nat (64 * k + byte c mod 64)) cs else None)"
  using utf8_tail_Cons [OF assms(1), of "n - 1" c cs] assms(2) by simp

lemma validUtf8_2:
  fixes c d :: char
  assumes "0xc2 \<le> byte c" "byte c \<le> 0xdf"
  shows "validUtf8 (c # d # cs) \<longleftrightarrow> cont d \<and> validUtf8 cs"
proof -
  define v where "v = 64 * (byte c mod 32) + byte d mod 64"
  define r where "r = byte c - 192"
  have "byte c = r + 32 * 6" "2 \<le> r" "r < 32" using assms by (simp_all add: r_def)
  then have "byte c mod 32 = r" by (simp only: mod_mult_self2 mod_less)
  with \<open>2 \<le> r\<close> have "128 \<le> v" "v < 2048"
    using mod_bounds(3) [of "byte c"] mod_bounds(4) [of "byte d"] by (simp_all add: v_def)
  moreover from this have v: "unat (word_of_nat v :: u32) = v" by (intro unat_u32) simp
  moreover have t: "utf8_tail 1 (word_of_nat (byte c mod 32)) (d # cs) =
     (if cont d then Some (word_of_nat v, cs) else None)"
    using utf8_tail_Cons [of "byte c mod 32" 0 d cs] mod_bounds(3) [of "byte c"]
    by (simp add: v_def)
  ultimately show ?thesis
    using assms
    by (auto simp: byte_simps utf8_lead_cases word_less_nat_alt word_le_nat_alt)
qed

lemma validUtf8_3:
  fixes c d e :: char
  assumes "0xe0 \<le> byte c" "byte c \<le> 0xef"
  defines "v \<equiv> 64 * (64 * (byte c mod 16) + byte d mod 64) + byte e mod 64"
  shows "validUtf8 (c # d # e # cs) \<longleftrightarrow>
    cont d \<and> cont e \<and> 0x800 \<le> v \<and> \<not> (0xd800 \<le> v \<and> v \<le> 0xdfff) \<and> validUtf8 cs"
proof -
  have "v < 65536"
    unfolding v_def by (intro value3_bound mod_bounds)
  moreover from this have v: "unat (word_of_nat v :: u32) = v" by (intro unat_u32) simp
  moreover have t: "utf8_tail 2 (word_of_nat (byte c mod 16)) (d # e # cs) =
     (if cont d \<and> cont e then Some (word_of_nat v, cs) else None)"
  proof -
    define k1 where "k1 = byte c mod 16"
    define k2 where "k2 = 64 * k1 + byte d mod 64"
    have v2: "v = 64 * k2 + byte e mod 64" by (simp only: v_def k1_def k2_def)
    have "k1 < 16" "k2 < 1024"
      using mod_bounds(2) [of "byte c"] mod_bounds(4) [of "byte d"]
      by (simp_all add: k2_def k1_def)
    then show ?thesis
      using utf8_tail_step [of k1 2 d "e # cs"] utf8_tail_step [of k2 1 e cs]
      by (simp flip: v2 k1_def k2_def del: of_nat_add of_nat_mult)
  qed
  ultimately show ?thesis
    using assms(1,2)
    by (auto simp: byte_simps utf8_lead_cases word_less_nat_alt word_le_nat_alt)
qed

lemma validUtf8_4:
  fixes c d e f :: char
  assumes "0xf0 \<le> byte c" "byte c \<le> 0xf4"
  defines "v \<equiv> 64 * (64 * (64 * (byte c mod 8) + byte d mod 64) + byte e mod 64) + byte f mod 64"
  shows "validUtf8 (c # d # e # f # cs) \<longleftrightarrow>
    cont d \<and> cont e \<and> cont f \<and> 0x10000 \<le> v \<and> v \<le> 0x10ffff \<and> validUtf8 cs"
proof -
  have "v < 2097152"
    unfolding v_def by (intro value4_bound mod_bounds)
  moreover from this have v: "unat (word_of_nat v :: u32) = v" by (intro unat_u32) simp
  moreover have t: "utf8_tail 3 (word_of_nat (byte c mod 8)) (d # e # f # cs) =
     (if cont d \<and> cont e \<and> cont f then Some (word_of_nat v, cs) else None)"
  proof -
    define k1 where "k1 = byte c mod 8"
    define k2 where "k2 = 64 * k1 + byte d mod 64"
    define k3 where "k3 = 64 * k2 + byte e mod 64"
    have v3: "v = 64 * k3 + byte f mod 64" by (simp only: v_def k1_def k2_def k3_def)
    have "k1 < 8" "k2 < 1024" "k3 < 65536"
      using mod_bounds(1) [of "byte c"] mod_bounds(4) [of "byte d"] mod_bounds(4) [of "byte e"]
      by (simp_all add: k3_def k2_def k1_def)
    then show ?thesis
      using utf8_tail_step [of k1 3 d "e # f # cs"] utf8_tail_step [of k2 2 e "f # cs"]
        utf8_tail_step [of k3 1 f cs]
      by (simp flip: v3 k1_def k2_def k3_def del: of_nat_add of_nat_mult)
  qed
  ultimately show ?thesis
    using assms(1,2)
    by (auto simp: byte_simps utf8_lead_cases word_less_nat_alt word_le_nat_alt)
qed

section \<open>The scanner accepts exactly the encoded texts\<close>

lemma mod_offset:
  fixes k m n :: nat
  shows "k mod m = 0 \<Longrightarrow> n < m \<Longrightarrow> (k + n) mod m = n"
  by (metis add_0 mod_add_left_eq mod_less)

lemma offset_mod:
  fixes k m n :: nat
  assumes "k mod m = 0" "k \<le> n" "n < k + m"
  shows "k + n mod m = n"
  using mod_offset [OF assms(1), of "n - k"] assms(2,3) by simp

lemma byte_parts:
  "128 \<le> n \<and> n < 192 \<Longrightarrow> 128 + n mod 64 = (n :: nat)"
  "0xc2 \<le> n \<Longrightarrow> n \<le> 0xdf \<Longrightarrow> 192 + n mod 32 = n"
  "0xe0 \<le> n \<Longrightarrow> n \<le> 0xef \<Longrightarrow> 224 + n mod 16 = n"
  "0xf0 \<le> n \<Longrightarrow> n \<le> 0xf4 \<Longrightarrow> 240 + n mod 8 = n"
  by (rule offset_mod; simp)+

lemma radix64:
  fixes a b :: nat
  assumes "b < 64"
  shows "(64 * a + b) div 64 = a" "(64 * a + b) mod 64 = b"
  using assms by simp_all

lemma div_4096: "(n :: nat) div 4096 = n div 64 div 64" "n div 262144 = n div 64 div 64 div 64"
  by (simp_all add: div_mult2_eq [symmetric])

lemma encode_ascii: "byte c < 128 \<Longrightarrow> utf8_encode (byte c) = [c]"
  by (simp add: utf8_encode_def)

lemma encode_2:
  assumes "0xc2 \<le> byte c" "byte c \<le> 0xdf" "cont d"
  defines "v \<equiv> 64 * (byte c mod 32) + byte d mod 64"
  shows "utf8_encode v = [c, d] \<and> scalar_value v"
proof -
  define r where "r = byte c mod 32"
  have r: "192 + r = byte c" using byte_parts(2) [OF assms(1,2)] by (simp add: r_def)
  have d: "128 + byte d mod 64 = byte d" by (rule byte_parts(1) [OF assms(3)])
  have v: "v div 64 = r" "v mod 64 = byte d mod 64"
    unfolding v_def r_def by (rule radix64, rule mod_bounds)+
  have "128 \<le> v" "v < 2048"
    using r assms(1,2) mod_bounds(4) [of "byte d"] by (simp_all add: v_def flip: r_def)
  then show ?thesis by (simp add: utf8_encode_def scalar_value_def v r d)
qed

lemma encode_3:
  assumes "0xe0 \<le> byte c" "byte c \<le> 0xef" "cont d" "cont e"
  defines "v \<equiv> 64 * (64 * (byte c mod 16) + byte d mod 64) + byte e mod 64"
  assumes "0x800 \<le> v"
  shows "utf8_encode v = [c, d, e]"
proof -
  have v: "v div 64 div 64 = byte c mod 16" "v div 64 mod 64 = byte d mod 64" "v mod 64 = byte e mod 64"
    unfolding v_def by (simp_all only: radix64 mod_bounds)
  have "v < 65536" unfolding v_def by (intro value3_bound mod_bounds)
  with assms(6) show ?thesis
    by (simp add: utf8_encode_def div_4096 v byte_parts(1) [OF assms(3)] byte_parts(1) [OF assms(4)]
        byte_parts(3) [OF assms(1,2)])
qed

lemma encode_4:
  assumes "0xf0 \<le> byte c" "byte c \<le> 0xf4" "cont d" "cont e" "cont f"
  defines "v \<equiv> 64 * (64 * (64 * (byte c mod 8) + byte d mod 64) + byte e mod 64) + byte f mod 64"
  assumes "0x10000 \<le> v"
  shows "utf8_encode v = [c, d, e, f]"
proof -
  have v: "v div 64 div 64 div 64 = byte c mod 8" "v div 64 div 64 mod 64 = byte d mod 64"
    "v div 64 mod 64 = byte e mod 64" "v mod 64 = byte f mod 64"
    unfolding v_def by (simp_all only: radix64 mod_bounds)
  from assms(7) show ?thesis
    by (simp add: utf8_encode_def div_4096 v byte_parts(1) [OF assms(3)] byte_parts(1) [OF assms(4)]
        byte_parts(1) [OF assms(5)] byte_parts(4) [OF assms(1,2)])
qed

lemma utf8_encode_ascii_or_lead:
  "scalar_value p \<Longrightarrow> p < 0x80 \<Longrightarrow> validUtf8 (utf8_encode p @ cs) = validUtf8 cs"
  by (simp add: utf8_encode_def validUtf8_1 del: validUtf8.simps)

lemma small_sums:
  fixes k n :: nat
  shows "n < 64 \<Longrightarrow> (128 + n) mod 64 = n" "n < 32 \<Longrightarrow> (192 + n) mod 32 = n"
    "n < 16 \<Longrightarrow> (224 + n) mod 16 = n" "n < 8 \<Longrightarrow> (240 + n) mod 8 = n"
  by (rule mod_offset; simp)+

lemma byte_small: "n < 256 \<Longrightarrow> byte (char_of n) = n"
  by simp

lemma radix64_join: "64 * (p div 64) + p mod 64 = (p :: nat)"
  by simp

lemma validUtf8_encode:
  assumes "scalar_value p"
  shows "validUtf8 (utf8_encode p @ cs) = validUtf8 cs"
proof -
  have m: "byte (char_of (128 + q mod 64)) = 128 + q mod 64" for q
    by (rule byte_small) simp
  consider "p < 0x80" | "0x80 \<le> p" "p < 0x800" | "0x800 \<le> p" "p < 0x10000" | "0x10000 \<le> p" by linarith
  then show ?thesis
  proof cases
    case 1
    with assms show ?thesis by (rule utf8_encode_ascii_or_lead)
  next
    case 2
    have b: "byte (char_of (192 + p div 64)) = 192 + p div 64" using 2 by (intro byte_small) simp
    have "validUtf8 (char_of (192 + p div 64) # char_of (128 + p mod 64) # cs) = validUtf8 cs"
      using 2 by (subst validUtf8_2) (simp_all add: b m del: validUtf8.simps of_char_of)
    with 2 show ?thesis by (simp add: utf8_encode_def del: validUtf8.simps)
  next
    case 3
    have b: "byte (char_of (224 + p div 64 div 64)) = 224 + p div 64 div 64" "p div 64 div 64 < 16"
      using 3 by (auto intro!: byte_small simp: div_mult2_eq [symmetric])
    have "validUtf8 (char_of (224 + p div 64 div 64) # char_of (128 + p div 64 mod 64) # char_of (128 + p mod 64) # cs)
        = validUtf8 cs"
      using 3 assms b
      by (subst validUtf8_3) (simp_all add: m small_sums scalar_value_def radix64_join del: validUtf8.simps of_char_of)
    with 3 show ?thesis by (simp add: utf8_encode_def div_4096 del: validUtf8.simps)
  next
    case 4
    have p: "p \<le> 0x10ffff" using assms by (simp add: scalar_value_def)
    have b: "byte (char_of (240 + p div 64 div 64 div 64)) = 240 + p div 64 div 64 div 64"
        "p div 64 div 64 div 64 < 5"
      using p by (auto intro!: byte_small simp: div_mult2_eq [symmetric])
    have "validUtf8 (char_of (240 + p div 64 div 64 div 64) # char_of (128 + p div 64 div 64 mod 64) #
        char_of (128 + p div 64 mod 64) # char_of (128 + p mod 64) # cs) = validUtf8 cs"
      using 4 p b
      by (subst validUtf8_4) (simp_all add: m small_sums radix64_join del: validUtf8.simps of_char_of)
    with 4 show ?thesis by (simp add: utf8_encode_def div_4096 del: validUtf8.simps)
  qed
qed

lemma validUtf8_too_short:
  assumes "utf8_lead (uchar c) = Some (v, n, m)" "length cs < n" "128 \<le> byte c"
  shows "\<not> validUtf8 (c # cs)"
  using assms by (simp add: byte_simps)

lemma validUtf8_Cons:
  assumes "validUtf8 (c # cs)"
  shows "\<exists>p rest. scalar_value p \<and> c # cs = utf8_encode p @ rest \<and> validUtf8 rest"
proof -
  consider "byte c < 128" | "0xc2 \<le> byte c" "byte c \<le> 0xdf" | "0xe0 \<le> byte c" "byte c \<le> 0xef"
    | "0xf0 \<le> byte c" "byte c \<le> 0xf4" | "128 \<le> byte c" "utf8_lead (uchar c) = None"
    by (fastforce simp: utf8_lead_cases)
  then show ?thesis
  proof cases
    case 1
    then have "scalar_value (byte c)" "c # cs = utf8_encode (byte c) @ cs" "validUtf8 cs"
      using assms by (simp_all add: scalar_value_def encode_ascii validUtf8_1 del: validUtf8.simps)
    then show ?thesis by blast
  next
    case 2
    then have "\<not> length cs < 1"
      using assms validUtf8_too_short [of c _ 1] by (fastforce simp: utf8_lead_cases)
    then obtain d rest where cs: "cs = d # rest" by (cases cs) auto
    with assms 2 have "cont d" "validUtf8 rest" by (simp_all add: validUtf8_2 del: validUtf8.simps)
    with encode_2 [OF 2] cs show ?thesis by (metis append_Cons append_Nil)
  next
    case 3
    then have "\<not> length cs < 2"
      using assms validUtf8_too_short [of c _ 2] by (fastforce simp: utf8_lead_cases)
    then obtain d e rest where cs: "cs = d # e # rest"
      by (cases cs; cases "tl cs") auto
    define v where "v = 64 * (64 * (byte c mod 16) + byte d mod 64) + byte e mod 64"
    have "v < 65536" unfolding v_def by (intro value3_bound mod_bounds)
    with assms 3 have "cont d" "cont e" "0x800 \<le> v" "scalar_value v" "validUtf8 rest"
      by (simp_all add: cs v_def validUtf8_3 scalar_value_def del: validUtf8.simps)
    with encode_3 [OF 3, of d e] cs show ?thesis unfolding v_def by fastforce
  next
    case 4
    then have "\<not> length cs < 3"
      using assms validUtf8_too_short [of c _ 3] by (fastforce simp: utf8_lead_cases)
    then obtain d e f rest where cs: "cs = d # e # f # rest"
      by (cases cs; cases "tl cs"; cases "tl (tl cs)") auto
    define v where
      "v = 64 * (64 * (64 * (byte c mod 8) + byte d mod 64) + byte e mod 64) + byte f mod 64"
    from assms 4 have "cont d" "cont e" "cont f" "0x10000 \<le> v" "scalar_value v" "validUtf8 rest"
      by (simp_all add: cs v_def validUtf8_4 scalar_value_def del: validUtf8.simps)
    with encode_4 [OF 4, of d e f] cs show ?thesis unfolding v_def by fastforce
  next
    case 5
    with assms show ?thesis by (simp add: byte_simps)
  qed
qed

lemma utf8_encode_nonempty: "utf8_encode p \<noteq> []"
  by (simp add: utf8_encode_def)

text \<open>
  C21: \<open>validUtf8\<close> accepts a byte string exactly when it is a concatenation of UTF-8
  encodings of Unicode scalar values: no overlong form, no surrogate, nothing above U+10FFFF,
  no truncated sequence, and nothing well formed is rejected.
\<close>

theorem validUtf8_iff_encoded:
  "validUtf8 s \<longleftrightarrow> (\<exists>ps. list_all scalar_value ps \<and> s = utf8_text ps)"
proof
  assume "validUtf8 s"
  then show "\<exists>ps. list_all scalar_value ps \<and> s = utf8_text ps"
  proof (induction s rule: length_induct)
    case (1 s)
    show ?case
    proof (cases s)
      case Nil
      then show ?thesis by (intro exI [of _ "[]"]) (simp add: utf8_text_def)
    next
      case (Cons c cs)
      with "1.prems" obtain p rest where p: "scalar_value p" "s = utf8_encode p @ rest" "validUtf8 rest"
        using validUtf8_Cons by blast
      then have "length rest < length s" using utf8_encode_nonempty [of p] by simp
      with "1.IH" p(3) obtain ps where "list_all scalar_value ps" "rest = utf8_text ps"
        by blast
      with p have "list_all scalar_value (p # ps)" "s = utf8_text (p # ps)"
        by (simp_all add: utf8_text_def)
      then show ?thesis by blast
    qed
  qed
next
  have "list_all scalar_value ps \<Longrightarrow> validUtf8 (utf8_text ps)" for ps
    by (induction ps) (simp_all add: utf8_text_def validUtf8_encode)
  then show "\<exists>ps. list_all scalar_value ps \<and> s = utf8_text ps \<Longrightarrow> validUtf8 s" by blast
qed

end
