(* ===== verification/Json.thy ===== *)
theory Json
  imports Prelude
begin

text \<open>
  The JSON values the server exchanges and the floating-point numbers they carry.

  \<open>json\<close> has one constructor for each kind of \<open>boost::json::value\<close>: the 64-bit integers
  keep their width (read signed for \<open>JInt64\<close>, unsigned for \<open>JUint64\<close>), and an object is the
  list of its members in insertion order, looked up by key.

  \<open>fp\<close> is an IEEE binary value: a NaN, an infinity with its sign, or the finite number
  $(-1)^s \cdot m \cdot 2^e$.  A finite value is kept in the unique form with an odd significand
  (or zero with exponent zero), so that equality of values is equality of terms, up to the
  sign of zero.  \<open>fp_round\<close> is rounding to nearest, ties to even, into a format given by its
  precision and its least exponent; \<open>double\<close> and \<open>float\<close> are the formats (53, -1074) and
  (24, -149).
\<close>

section \<open>Floating point\<close>

datatype fp = NaN | Inf bool | Fin bool nat int

fun bitlen :: "nat \<Rightarrow> nat" where
  "bitlen n = (if n = 0 then 0 else Suc (bitlen (n div 2)))"

declare bitlen.simps [simp del]

function fp_norm :: "bool \<Rightarrow> nat \<Rightarrow> int \<Rightarrow> fp" where
  "fp_norm s m e =
     (if m = 0 then Fin s 0 0 else if even m then fp_norm s (m div 2) (e + 1) else Fin s m e)"
  by pat_completeness auto
termination
  by (relation "measure (\<lambda>(s, m, e). m)") auto

declare fp_norm.simps [simp del]

text \<open>A format: precision in bits, least exponent of the last place, and the largest finite value.\<close>

record fp_format =
  prec :: nat
  emin :: int
  emax :: int

definition binary64 :: fp_format where
  "binary64 = \<lparr>prec = 53, emin = -1074, emax = 971\<rparr>"

definition binary32 :: fp_format where
  "binary32 = \<lparr>prec = 24, emin = -149, emax = 104\<rparr>"

definition fp_max :: "fp_format \<Rightarrow> fp" where
  "fp_max f = Fin False (2 ^ prec f - 1) (emax f)"

text \<open>The values of a format, in normal form.\<close>

fun fp_in :: "fp_format \<Rightarrow> fp \<Rightarrow> bool" where
  "fp_in f (Fin s m e) =
     (if m = 0 then e = 0
      else odd m \<and> emin f \<le> e \<and> bitlen m \<le> prec f \<and> int (bitlen m) + e \<le> int (prec f) + emax f)"
| "fp_in f x = True"

text \<open>Scaling of two finite values to a common exponent, and the order of finite values.\<close>

definition scaled :: "bool \<Rightarrow> nat \<Rightarrow> nat \<Rightarrow> int" where
  "scaled s m k = (if s then - 1 else 1) * (int m * 2 ^ k)"

fun fp_less :: "fp \<Rightarrow> fp \<Rightarrow> bool" where
  "fp_less (Fin s m e) (Fin t n d) =
     (scaled s m (nat (e - min e d)) < scaled t n (nat (d - min e d)))"
| "fp_less (Fin s m e) (Inf t) = (\<not> t)"
| "fp_less (Inf s) (Fin t n d) = s"
| "fp_less (Inf s) (Inf t) = (s \<and> \<not> t)"
| "fp_less NaN y = False"
| "fp_less x NaN = False"

fun isnan :: "fp \<Rightarrow> bool" where
  "isnan NaN = True" | "isnan _ = False"

fun isinf :: "fp \<Rightarrow> bool" where
  "isinf (Inf _) = True" | "isinf _ = False"

fun isfinite :: "fp \<Rightarrow> bool" where
  "isfinite (Fin _ _ _) = True" | "isfinite _ = False"

fun signbit :: "fp \<Rightarrow> bool" where
  "signbit (Fin s _ _) = s" | "signbit (Inf s) = s" | "signbit NaN = False"

fun fp_abs :: "fp \<Rightarrow> fp" where
  "fp_abs (Fin s m e) = Fin False m e" | "fp_abs (Inf s) = Inf False" | "fp_abs NaN = NaN"

text \<open>
  \<open>std::trunc\<close> of a finite value, as the integer it is; \<open>is_integral\<close> is the source's test
  \<open>std::trunc(value) == value\<close>.
\<close>

fun fp_trunc :: "fp \<Rightarrow> int" where
  "fp_trunc (Fin s m e) =
     (if s then - 1 else 1) * (if 0 \<le> e then int m * 2 ^ nat e else int (m div 2 ^ nat (- e)))"
| "fp_trunc _ = 0"

fun is_integral :: "fp \<Rightarrow> bool" where
  "is_integral (Fin s m e) = (0 \<le> e \<or> m mod 2 ^ nat (- e) = 0)"
| "is_integral _ = False"

text \<open>Rounding to nearest, ties to even; a magnitude beyond the format becomes an infinity.\<close>

definition round_shift :: "nat \<Rightarrow> nat \<Rightarrow> nat" where
  "round_shift m k =
     (if k = 0 then m
      else let q = m div 2 ^ k; r = m mod 2 ^ k; h = 2 ^ (k - 1) in
        if h < r \<or> (r = h \<and> odd q) then q + 1 else q)"

fun fp_round :: "fp_format \<Rightarrow> fp \<Rightarrow> fp" where
  "fp_round f (Fin s m e) =
     (let k = nat (max (int (bitlen m) - int (prec f)) (emin f - e));
          m' = round_shift m k; e' = e + int k in
      if m' \<noteq> 0 \<and> int (prec f) + emax f < int (bitlen m') + e' then Inf s else fp_norm s m' e')"
| "fp_round f x = x"

definition fp_of_int :: "fp_format \<Rightarrow> int \<Rightarrow> fp" where
  "fp_of_int f i = fp_round f (Fin (i < 0) (nat \<bar>i\<bar>) 0)"

section \<open>JSON values\<close>

datatype json =
    JNull
  | JBool bool
  | JInt64 u64
  | JUint64 u64
  | JDouble fp
  | JString string
  | JArray "json list"
  | JObject "(string \<times> json) list"

abbreviation member :: "(string \<times> json) list \<Rightarrow> string \<Rightarrow> json option" where
  "member ms k \<equiv> map_of ms k"

text \<open>Nesting depth: a scalar has depth 0, a container one more than its deepest element.\<close>

fun json_depth :: "json \<Rightarrow> nat" where
  "json_depth (JArray xs) = Suc (fold max (map json_depth xs) 0)"
| "json_depth (JObject ms) = Suc (fold max (map (\<lambda>(k, v). json_depth v) ms) 0)"
| "json_depth v = 0"

fun json_weight :: "json \<Rightarrow> nat" where
  "json_weight (JArray xs) = Suc (sum_list (map json_weight xs))"
| "json_weight (JObject ms) = Suc (sum_list (map (\<lambda>(k, v). json_weight v) ms))"
| "json_weight v = 1"

lemma json_weight_pos [simp]: "0 < json_weight v"
  by (cases v) auto

section \<open>Facts about the formats\<close>

lemma bitlen_0 [simp]: "bitlen 0 = 0"
  by (simp add: bitlen.simps)

lemma bitlen_pos: "0 < n \<Longrightarrow> bitlen n = Suc (bitlen (n div 2))"
  by (simp add: bitlen.simps [of n])

lemma bitlen_le_iff: "bitlen n \<le> k \<longleftrightarrow> n < 2 ^ k"
proof (induction n arbitrary: k rule: bitlen.induct)
  case (1 n)
  show ?case
  proof (cases "n = 0")
    case False
    then show ?thesis
      using "1.IH" by (cases k) (auto simp: bitlen_pos less_mult_imp_div_less mult.commute div_less_iff_less_mult)
  qed simp
qed

lemma bitlen_eq_0_iff [simp]: "bitlen n = 0 \<longleftrightarrow> n = 0"
  using bitlen_le_iff [of n 0] by simp

lemma le_bitlen_iff: "0 < n \<Longrightarrow> k < bitlen n \<longleftrightarrow> 2 ^ k \<le> n"
  using bitlen_le_iff [of n k] by linarith

lemma fp_norm_odd: "odd m \<Longrightarrow> fp_norm s m e = Fin s m e"
  by (subst fp_norm.simps) auto

lemma fp_norm_zero [simp]: "fp_norm s 0 e = Fin s 0 0"
  by (subst fp_norm.simps) simp

lemma isfinite_norm [simp]: "isfinite (fp_norm s m e)"
  by (induction s m e rule: fp_norm.induct) (subst fp_norm.simps, simp)

text \<open>A value of a format is left alone by rounding into the format.\<close>

lemma fp_round_exact:
  assumes "fp_in f x"
  shows "fp_round f x = x"
proof (cases x)
  case (Fin s m e)
  show ?thesis
  proof (cases "m = 0")
    case True
    with assms Fin show ?thesis by (simp add: round_shift_def Let_def)
  next
    case False
    with assms Fin have m: "odd m" "emin f \<le> e" "bitlen m \<le> prec f"
      "int (bitlen m) + e \<le> int (prec f) + emax f"
      by simp_all
    then have "nat (max (int (bitlen m) - int (prec f)) (emin f - e)) = 0" by simp
    with m Fin show ?thesis by (simp add: round_shift_def fp_norm_odd)
  qed
qed simp_all

end
