(* ===== verification/Codec_Context.thy ===== *)
theory Codec_Context
  imports Utf8 Json
begin

text \<open>
  The conversion context of \<open>codec_context.hpp\<close> and \<open>codec_context.cpp\<close>: limits, the nesting
  counter and the byte budget, and the computations that thread them.

  A codec returns \<open>bool\<close> (or a null pointer) and writes its \<open>CodecError *\<close> through
  \<open>codecFailure\<close>.  Here it returns a \<open>res\<close>: \<open>Ok x\<close>, or \<open>Fail err\<close> where \<open>err\<close> is the error that
  was written, if the failing branch writes one.  A context is passed and returned, on
  failures too, because the source mutates it by reference.
\<close>

section \<open>Errors and limits\<close>

datatype codec_error_code = NoError | InvalidJson | DuplicateKey | InvalidUtf8 | TypeMismatch
  | DepthLimit | DocumentLimit | AllocationLimit | Unavailable | InvalidDataSource | InternalError

record codec_error =
  code :: codec_error_code
  location :: string

datatype 'a res = Ok 'a | Fail "codec_error option"

text \<open>\<open>codecFailure\<close>: the location is cut at 256 bytes.\<close>

definition codecFailureAt :: "codec_error_code \<Rightarrow> string \<Rightarrow> 'a res" where
  "codecFailureAt c loc = Fail (Some \<lparr>code = c, location = take 256 loc\<rparr>)"

definition codecFailure :: "codec_error_code \<Rightarrow> 'a res" where
  "codecFailure c = codecFailureAt c []"

text \<open>The code a caller reads from its \<open>CodecError\<close>, initialised to \<open>none\<close>.\<close>

definition failure_code :: "codec_error option \<Rightarrow> codec_error_code" where
  "failure_code e = (case e of None \<Rightarrow> NoError | Some err \<Rightarrow> code err)"

record json_limits =
  maxDocumentBytes :: nat
  maxDepth :: nat
  maxAllocationBytes :: nat

text \<open>\<open>storage\<close> is the identity of the context's allocation resource.\<close>

record codec_context =
  limits :: json_limits
  storage :: nat
  depth :: nat
  remaining :: nat

text \<open>The default limits, and a context that has not been used.\<close>

definition default_limits :: json_limits where
  "default_limits = \<lparr>maxDocumentBytes = 1024 * 1024, maxDepth = 64, maxAllocationBytes = 8 * 1024 * 1024\<rparr>"

definition default_context :: codec_context where
  "default_context = \<lparr>limits = default_limits, storage = 0, depth = 0, remaining = 1024 * 1024\<rparr>"

text \<open>The constructor throws when a limit is zero.\<close>

definition make_context :: "nat \<Rightarrow> json_limits \<Rightarrow> codec_context option" where
  "make_context store l =
     (if maxDocumentBytes l = 0 \<or> maxDepth l = 0 \<or> maxAllocationBytes l = 0 then None
      else Some \<lparr>limits = l, storage = store, depth = 0, remaining = maxDocumentBytes l\<rparr>)"

section \<open>Context operations\<close>

type_synonym 'a codec = "codec_context \<Rightarrow> 'a res \<times> codec_context"

definition enter :: "unit codec" where
  "enter c =
     (if depth c = maxDepth (limits c) then (codecFailure DepthLimit, c)
      else (Ok (), c\<lparr>depth := Suc (depth c)\<rparr>))"

definition leave :: "codec_context \<Rightarrow> codec_context" where
  "leave c = (if depth c \<noteq> 0 then c\<lparr>depth := depth c - 1\<rparr> else c)"

definition account :: "nat \<Rightarrow> unit codec" where
  "account bytes c =
     (if remaining c < bytes then (codecFailure DocumentLimit, c)
      else (Ok (), c\<lparr>remaining := remaining c - bytes\<rparr>))"

text \<open>Sequencing: a failure is the result of the whole computation.\<close>

definition return :: "'a \<Rightarrow> 'a codec" where
  "return x c = (Ok x, c)"

definition failing :: "'a res \<Rightarrow> 'a codec" where
  "failing r c = (r, c)"

definition bind_codec :: "'a codec \<Rightarrow> ('a \<Rightarrow> 'b codec) \<Rightarrow> 'b codec" where
  "bind_codec m f c = (case m c of (Ok x, c') \<Rightarrow> f x c' | (Fail e, c') \<Rightarrow> (Fail e, c'))"

text \<open>A loop over a list whose body may fail, collecting the results.\<close>

fun map_codec :: "('a \<Rightarrow> 'b codec) \<Rightarrow> 'a list \<Rightarrow> 'b list codec" where
  "map_codec f [] = return []"
| "map_codec f (x # xs) =
     bind_codec (f x) (\<lambda>y. bind_codec (map_codec f xs) (\<lambda>ys. return (y # ys)))"

text \<open>
  \<open>CodecScope\<close>: the constructor enters, the destructor leaves if the entry succeeded, on every
  way out of the block.
\<close>

definition scoped :: "'a codec \<Rightarrow> 'a codec" where
  "scoped m c =
     (case enter c of
        (Ok _, c1) \<Rightarrow> (case m c1 of (r, c2) \<Rightarrow> (r, leave c2))
      | (Fail e, c1) \<Rightarrow> (Fail e, c1))"

section \<open>What every codec keeps of the context\<close>

definition context_ok :: "codec_context \<Rightarrow> bool" where
  "context_ok c \<longleftrightarrow> 0 < maxDepth (limits c) \<and> depth c \<le> maxDepth (limits c)
     \<and> remaining c \<le> maxDocumentBytes (limits c)"

text \<open>
  A well-behaved codec ends at the nesting depth it started at, whatever its outcome, never
  gains budget and never changes the limits or the resource.
\<close>

definition kept :: "codec_context \<Rightarrow> codec_context \<Rightarrow> bool" where
  "kept c c' \<longleftrightarrow> depth c' = depth c \<and> limits c' = limits c \<and> storage c' = storage c
     \<and> remaining c' \<le> remaining c"

definition balanced :: "'a codec \<Rightarrow> bool" where
  "balanced m \<longleftrightarrow> (\<forall>c. kept c (snd (m c)))"

lemma kept_refl [simp, intro]: "kept c c"
  by (simp add: kept_def)

lemma kept_trans [trans]: "kept a b \<Longrightarrow> kept b c \<Longrightarrow> kept a c"
  by (simp add: kept_def)

lemma balancedI: "(\<And>c r c'. m c = (r, c') \<Longrightarrow> kept c c') \<Longrightarrow> balanced m"
  by (simp add: balanced_def) (metis prod.collapse)

lemma balancedD: "balanced m \<Longrightarrow> m c = (r, c') \<Longrightarrow> kept c c'"
  by (simp add: balanced_def) (metis snd_conv)

lemma balanced_return [depth_intros, simp]: "balanced (return x)"
  by (simp add: balanced_def return_def)

lemma balanced_failing [depth_intros, simp]: "balanced (failing r)"
  by (simp add: balanced_def failing_def)

lemma balanced_account [depth_intros, simp]: "balanced (account n)"
  by (simp add: balanced_def account_def kept_def)

lemma balanced_bind [depth_intros]:
  assumes "balanced m" "\<And>x. balanced (f x)"
  shows "balanced (bind_codec m f)"
proof (rule balancedI)
  fix c r c'
  assume "bind_codec m f c = (r, c')"
  then show "kept c c'"
    using assms by (auto simp: bind_codec_def dest: balancedD intro: kept_trans
        split: prod.splits res.splits)
qed

lemma balanced_map_codec [depth_intros]:
  assumes "\<And>x. x \<in> set xs \<Longrightarrow> balanced (f x)"
  shows "balanced (map_codec f xs)"
  using assms by (induction xs) (auto intro!: depth_intros)

lemma balanced_scoped [depth_intros]:
  assumes "balanced m"
  shows "balanced (scoped m)"
proof (rule balancedI)
  fix c r c'
  assume "scoped m c = (r, c')"
  then show "kept c c'"
    using assms by (auto simp: scoped_def enter_def leave_def codecFailure_def codecFailureAt_def
        kept_def dest!: balancedD split: prod.splits res.splits if_splits)
qed

lemma balanced_context_ok: "balanced m \<Longrightarrow> context_ok c \<Longrightarrow> m c = (r, c') \<Longrightarrow> context_ok c'"
  by (auto simp: context_ok_def kept_def dest!: balancedD)

lemma balanced_if [depth_intros]: "balanced m \<Longrightarrow> balanced n \<Longrightarrow> balanced (if b then m else n)"
  by simp

lemma return_eq [codec_simps]: "return x c = (r, c') \<longleftrightarrow> r = Ok x \<and> c' = c"
  by (auto simp: return_def)

lemma failing_eq [codec_simps]: "failing x c = (r, c') \<longleftrightarrow> r = x \<and> c' = c"
  by (auto simp: failing_def)

lemma codecFailure_not_Ok [simp, codec_simps]:
  "codecFailure e \<noteq> Ok x" "Ok x \<noteq> codecFailure e" "codecFailureAt e l \<noteq> Ok x"
  by (simp_all add: codecFailure_def codecFailureAt_def)

lemma account_Ok [codec_simps]:
  "account n c = (Ok u, c') \<longleftrightarrow> n \<le> remaining c \<and> c' = c\<lparr>remaining := remaining c - n\<rparr>"
  by (auto simp: account_def)

lemma bind_codec_Ok [codec_simps]:
  "bind_codec m f c = (Ok y, c') \<longleftrightarrow> (\<exists>x c1. m c = (Ok x, c1) \<and> f x c1 = (Ok y, c'))"
  by (auto simp: bind_codec_def split: prod.splits res.splits)

lemma enter_Ok [codec_simps]:
  "enter c = (Ok u, c') \<longleftrightarrow> depth c \<noteq> maxDepth (limits c) \<and> c' = c\<lparr>depth := Suc (depth c)\<rparr>"
  by (auto simp: enter_def)

lemma scoped_Ok [codec_simps]:
  "scoped m c = (Ok x, c') \<longleftrightarrow>
     depth c \<noteq> maxDepth (limits c) \<and> (\<exists>c2. m (c\<lparr>depth := Suc (depth c)\<rparr>) = (Ok x, c2) \<and> c' = leave c2)"
  by (auto simp: scoped_def enter_def codecFailure_def codecFailureAt_def split: prod.splits res.splits)

end
