(* ===== verification/Json_Text.thy ===== *)
theory Json_Text
  imports Codec_Context
begin

text \<open>
  Reading and writing JSON documents (\<open>parseJson\<close>, \<open>serializeJson\<close>, \<open>validateOutput\<close> and
  \<open>DuplicateHandler\<close> in \<open>src/codec_context.cpp\<close>).

  Boost.JSON's tokenizer, document parser and serializer are parameters (\<open>json_lib\<close>); the code
  around them is modelled: the duplicate-key handler that consumes the tokenizer's events, the
  stack-based validation of an output document, the bound on its text, and the rule that a
  result is replaced only on success.
\<close>

section \<open>Validation of an output document\<close>

text \<open>
  A frame is a container and the index of its next element, as in the source; \<open>parents\<close> is the
  stack, its top first.
\<close>

datatype frame = ArrayFrame "json list" nat | ObjectFrame "(string \<times> json) list" nat

datatype resume = Finished | BadKey | Resume json "frame list"

text \<open>The inner loop: the next unvisited element, dropping exhausted parents.\<close>

fun next_value :: "frame list \<Rightarrow> resume" where
  "next_value [] = Finished"
| "next_value (ArrayFrame xs n # ps) =
     (if n < length xs then Resume (xs ! n) (ArrayFrame xs (Suc n) # ps) else next_value ps)"
| "next_value (ObjectFrame ms n # ps) =
     (if n < length ms
      then if \<not> validUtf8 (fst (ms ! n)) then BadKey
           else Resume (snd (ms ! n)) (ObjectFrame ms (Suc n) # ps)
      else next_value ps)"

text \<open>The tests on the current value.\<close>

fun visit :: "nat \<Rightarrow> frame list \<Rightarrow> json \<Rightarrow> codec_error_code + frame list" where
  "visit lim ps (JString t) = (if \<not> validUtf8 t then Inl InvalidUtf8 else Inr ps)"
| "visit lim ps (JDouble x) = (if \<not> isfinite x then Inl TypeMismatch else Inr ps)"
| "visit lim ps (JArray xs) = (if length ps = lim then Inl DepthLimit else Inr (ArrayFrame xs 0 # ps))"
| "visit lim ps (JObject ms) = (if length ps = lim then Inl DepthLimit else Inr (ObjectFrame ms 0 # ps))"
| "visit lim ps v = Inr ps"

fun frame_weight :: "frame \<Rightarrow> nat" where
  "frame_weight (ArrayFrame xs n) = sum_list (map json_weight (drop n xs))"
| "frame_weight (ObjectFrame ms n) = sum_list (map (\<lambda>(k, v). json_weight v) (drop n ms))"

abbreviation stack_weight :: "frame list \<Rightarrow> nat" where
  "stack_weight ps \<equiv> sum_list (map frame_weight ps)"

lemma visit_weight: "visit lim ps v = Inr ps' \<Longrightarrow> Suc (stack_weight ps') = json_weight v + stack_weight ps"
  by (cases v) (auto split: if_splits)

lemma next_value_weight:
  "next_value ps = Resume v ps' \<Longrightarrow> json_weight v + stack_weight ps' = stack_weight ps"
proof (induction ps rule: next_value.induct)
  case (2 xs n ps)
  then show ?case by (auto split: if_splits simp: Cons_nth_drop_Suc [symmetric])
next
  case (3 ms n ps)
  then show ?case by (auto split: if_splits simp: Cons_nth_drop_Suc [symmetric] case_prod_unfold)
qed simp

function validate_from :: "nat \<Rightarrow> frame list \<Rightarrow> json \<Rightarrow> codec_error_code option" where
  "validate_from lim ps v =
     (case visit lim ps v of
        Inl e \<Rightarrow> Some e
      | Inr ps1 \<Rightarrow>
          (case next_value ps1 of
             Finished \<Rightarrow> None
           | BadKey \<Rightarrow> Some InvalidUtf8
           | Resume v' ps2 \<Rightarrow> validate_from lim ps2 v'))"
  by pat_completeness auto
termination
  by (relation "measure (\<lambda>(lim, ps, v). json_weight v + stack_weight ps)")
    (auto dest!: visit_weight next_value_weight)

declare validate_from.simps [simp del]

definition validateOutput :: "json \<Rightarrow> codec_context \<Rightarrow> unit res" where
  "validateOutput root c =
     (case validate_from (maxDepth (limits c)) [] root of
        None \<Rightarrow> Ok ()
      | Some e \<Rightarrow> codecFailure e)"

text \<open>
  The specification, by recursion on the document: the first defect in document order, where
  \<open>d\<close> is the nesting still allowed.
\<close>

fun defect :: "nat \<Rightarrow> json \<Rightarrow> codec_error_code option"
  and defect_items :: "nat \<Rightarrow> json list \<Rightarrow> codec_error_code option"
  and defect_members :: "nat \<Rightarrow> (string \<times> json) list \<Rightarrow> codec_error_code option" where
  "defect d (JString t) = (if validUtf8 t then None else Some InvalidUtf8)"
| "defect d (JDouble x) = (if isfinite x then None else Some TypeMismatch)"
| "defect 0 (JArray xs) = Some DepthLimit"
| "defect (Suc d) (JArray xs) = defect_items d xs"
| "defect 0 (JObject ms) = Some DepthLimit"
| "defect (Suc d) (JObject ms) = defect_members d ms"
| "defect d v = None"
| "defect_items d [] = None"
| "defect_items d (x # xs) = (case defect d x of Some e \<Rightarrow> Some e | None \<Rightarrow> defect_items d xs)"
| "defect_members d [] = None"
| "defect_members d ((k, x) # ms) =
     (if \<not> validUtf8 k then Some InvalidUtf8
      else case defect d x of Some e \<Rightarrow> Some e | None \<Rightarrow> defect_members d ms)"

section \<open>The loop implements the recursion\<close>

definition continue_with :: "nat \<Rightarrow> frame list \<Rightarrow> codec_error_code option" where
  "continue_with lim ps =
     (case next_value ps of
        Finished \<Rightarrow> None
      | BadKey \<Rightarrow> Some InvalidUtf8
      | Resume v ps' \<Rightarrow> validate_from lim ps' v)"

definition orelse_none :: "'a option \<Rightarrow> 'a option \<Rightarrow> 'a option" where
  "orelse_none x y = (case x of Some e \<Rightarrow> Some e | None \<Rightarrow> y)"

lemma orelse_none_simps [simp]: "orelse_none (Some e) y = Some e" "orelse_none None y = y"
  by (simp_all add: orelse_none_def)

lemma validate_from_visit:
  "validate_from lim ps v = (case visit lim ps v of Inl e \<Rightarrow> Some e | Inr ps1 \<Rightarrow> continue_with lim ps1)"
  by (subst validate_from.simps) (simp add: continue_with_def split: sum.splits)

lemma continue_array:
  assumes "\<And>x n ps. x \<in> set xs \<Longrightarrow> length ps \<le> lim \<Longrightarrow>
     validate_from lim ps x = orelse_none (defect (lim - length ps) x) (continue_with lim ps)"
    and "length ps < lim"
  shows "continue_with lim (ArrayFrame xs n # ps) =
     orelse_none (defect_items (lim - Suc (length ps)) (drop n xs)) (continue_with lim ps)"
proof (induction "length xs - n" arbitrary: n)
  case 0
  then show ?case by (simp add: continue_with_def)
next
  case (Suc k)
  then have n: "n < length xs" by simp
  then have "continue_with lim (ArrayFrame xs n # ps) = validate_from lim (ArrayFrame xs (Suc n) # ps) (xs ! n)"
    by (simp add: continue_with_def)
  also have "\<dots> = orelse_none (defect (lim - Suc (length ps)) (xs ! n))
       (continue_with lim (ArrayFrame xs (Suc n) # ps))"
    using assms(2) n by (subst assms(1)) simp_all
  also have "continue_with lim (ArrayFrame xs (Suc n) # ps) =
       orelse_none (defect_items (lim - Suc (length ps)) (drop (Suc n) xs)) (continue_with lim ps)"
    using Suc by simp
  finally show ?case
    using n by (simp add: Cons_nth_drop_Suc [symmetric] split: option.splits)
qed

lemma continue_object:
  assumes "\<And>x n ps. x \<in> snd ` set ms \<Longrightarrow> length ps \<le> lim \<Longrightarrow>
     validate_from lim ps x = orelse_none (defect (lim - length ps) x) (continue_with lim ps)"
    and "length ps < lim"
  shows "continue_with lim (ObjectFrame ms n # ps) =
     orelse_none (defect_members (lim - Suc (length ps)) (drop n ms)) (continue_with lim ps)"
proof (induction "length ms - n" arbitrary: n)
  case 0
  then show ?case by (simp add: continue_with_def)
next
  case (Suc k)
  then have n: "n < length ms" by simp
  obtain key x where kx: "ms ! n = (key, x)" by fastforce
  with n have x: "x \<in> snd ` set ms" by (metis image_eqI nth_mem snd_conv)
  have IH: "continue_with lim (ObjectFrame ms (Suc n) # ps) =
       orelse_none (defect_members (lim - Suc (length ps)) (drop (Suc n) ms)) (continue_with lim ps)"
    using Suc by simp
  have step: "continue_with lim (ObjectFrame ms n # ps) =
      (if \<not> validUtf8 key then Some InvalidUtf8 else validate_from lim (ObjectFrame ms (Suc n) # ps) x)"
    using n kx by (simp add: continue_with_def)
  have "validate_from lim (ObjectFrame ms (Suc n) # ps) x = orelse_none (defect (lim - Suc (length ps)) x)
       (continue_with lim (ObjectFrame ms (Suc n) # ps))"
    using assms(2) x by (subst assms(1)) simp_all
  with step IH show ?case
    using n kx by (simp add: Cons_nth_drop_Suc [symmetric] split: option.splits)
qed

lemma validate_from_defect:
  "length ps \<le> lim \<Longrightarrow>
     validate_from lim ps v = orelse_none (defect (lim - length ps) v) (continue_with lim ps)"
proof (induction v arbitrary: ps)
  case (JArray xs)
  show ?case
  proof (cases "length ps = lim")
    case False
    with JArray.prems obtain d where "lim - length ps = Suc d" "d = lim - Suc (length ps)"
      by (metis Suc_diff_le diff_Suc_Suc le_neq_implies_less Suc_leI)
    with False JArray.prems continue_array [OF JArray.IH, where ps = ps and n = 0] show ?thesis
      by (simp add: validate_from_visit)
  qed (simp add: validate_from_visit)
next
  case (JObject ms)
  show ?case
  proof (cases "length ps = lim")
    case False
    with JObject.prems obtain d where "lim - length ps = Suc d" "d = lim - Suc (length ps)"
      by (metis Suc_diff_le diff_Suc_Suc le_neq_implies_less Suc_leI)
    moreover have "validate_from lim ps x = orelse_none (defect (lim - length ps) x) (continue_with lim ps)"
      if "x \<in> snd ` set ms" "length ps \<le> lim" for x ps
      using that JObject.IH by (metis imageE snds.intros)
    ultimately show ?thesis
      using False JObject.prems continue_object [of ms lim ps 0] by (simp add: validate_from_visit)
  qed (simp add: validate_from_visit)
qed (simp_all add: validate_from_visit)

lemma validateOutput_defect:
  "validateOutput v c =
     (case defect (maxDepth (limits c)) v of None \<Rightarrow> Ok () | Some e \<Rightarrow> codecFailure e)"
  by (simp add: validateOutput_def validate_from_defect continue_with_def orelse_none_def split: option.splits)

text \<open>
  C19: the stack-based validation of a response document returns exactly the first defect in
  document order (bad UTF-8 in a string or key, a non-finite number, nesting beyond the
  limit), and accepts a document without defect.
\<close>

theorem validateOutput_first_defect:
  "validateOutput v c =
     (case defect (maxDepth (limits c)) v of None \<Rightarrow> Ok () | Some e \<Rightarrow> codecFailure e)"
  by (rule validateOutput_defect)

section \<open>Duplicate keys\<close>

text \<open>
  The events of the tokenizer.  Those of scalars and comments leave the handler alone; a key
  may arrive in several parts, the last one through \<open>on_key\<close>.
\<close>

datatype leaf_event = StringPart string | StringEnd string | NumberPart string | IntegerEvent u64
  | UnsignedEvent u64 | DoubleEvent fp | BoolEvent bool | NullEvent | CommentPart string | Comment string

datatype sax_event = DocumentBegin | DocumentEnd | ObjectBegin | ArrayBegin | ObjectEnd nat
  | ArrayEnd nat | KeyPart string | Key string | Leaf leaf_event

record key_frame =
  keys :: "string set"
  key :: string

record duplicate_handler =
  frames :: "key_frame list"
  duplicate :: bool

text \<open>
  One callback.  \<open>frames.back()\<close> and \<open>frames.pop_back()\<close> on an empty vector are undefined in
  C++; they are \<open>None\<close> here.
\<close>

definition on_key_part :: "string \<Rightarrow> duplicate_handler \<Rightarrow> duplicate_handler option" where
  "on_key_part part h =
     (case frames h of
        [] \<Rightarrow> None
      | f # fs \<Rightarrow> Some (h\<lparr>frames := f\<lparr>key := key f @ part\<rparr> # fs\<rparr>))"

definition on_key :: "string \<Rightarrow> duplicate_handler \<Rightarrow> duplicate_handler option" where
  "on_key part h =
     (case on_key_part part h of
        None \<Rightarrow> None
      | Some h1 \<Rightarrow>
          (case frames h1 of
             [] \<Rightarrow> None
           | f # fs \<Rightarrow>
               Some \<lparr>frames = \<lparr>keys = insert (key f) (keys f), key = []\<rparr> # fs,
                     duplicate = (duplicate h1 \<or> key f \<in> keys f)\<rparr>))"

definition pop_frame :: "duplicate_handler \<Rightarrow> duplicate_handler option" where
  "pop_frame h = (case frames h of [] \<Rightarrow> None | f # fs \<Rightarrow> Some (h\<lparr>frames := fs\<rparr>))"

fun on_event :: "sax_event \<Rightarrow> duplicate_handler \<Rightarrow> duplicate_handler option" where
  "on_event ObjectBegin h = Some (h\<lparr>frames := \<lparr>keys = {}, key = []\<rparr> # frames h\<rparr>)"
| "on_event ArrayBegin h = Some (h\<lparr>frames := \<lparr>keys = {}, key = []\<rparr> # frames h\<rparr>)"
| "on_event (ObjectEnd n) h = pop_frame h"
| "on_event (ArrayEnd n) h = pop_frame h"
| "on_event (KeyPart part) h = on_key_part part h"
| "on_event (Key part) h = on_key part h"
| "on_event DocumentBegin h = Some h"
| "on_event DocumentEnd h = Some h"
| "on_event (Leaf e) h = Some h"

fun run_events :: "sax_event list \<Rightarrow> duplicate_handler \<Rightarrow> duplicate_handler option" where
  "run_events [] h = Some h"
| "run_events (e # es) h = (case on_event e h of None \<Rightarrow> None | Some h' \<Rightarrow> run_events es h')"

definition new_handler :: duplicate_handler where
  "new_handler = \<lparr>frames = [], duplicate = False\<rparr>"

text \<open>
  The documents as the tokenizer sees them: members in order, with repeated keys, each key
  cut into parts anyhow.
\<close>

datatype doc = Scalar "leaf_event list" | ArrayDoc "doc list" | ObjectDoc "((string list \<times> string) \<times> doc) list"

definition decoded_key :: "string list \<times> string \<Rightarrow> string" where
  "decoded_key k = concat (fst k) @ snd k"

definition key_events :: "string list \<times> string \<Rightarrow> sax_event list" where
  "key_events k = map KeyPart (fst k) @ [Key (snd k)]"

fun doc_events :: "doc \<Rightarrow> sax_event list" where
  "doc_events (Scalar es) = map Leaf es"
| "doc_events (ArrayDoc ds) = ArrayBegin # concat (map doc_events ds) @ [ArrayEnd (length ds)]"
| "doc_events (ObjectDoc ms) =
     ObjectBegin # concat (map (\<lambda>(k, d). key_events k @ doc_events d) ms) @ [ObjectEnd (length ms)]"

fun repeats_key :: "doc \<Rightarrow> bool" where
  "repeats_key (Scalar es) = False"
| "repeats_key (ArrayDoc ds) = list_ex repeats_key ds"
| "repeats_key (ObjectDoc ms) =
     (\<not> distinct (map (\<lambda>(k, d). decoded_key k) ms) \<or> list_ex (\<lambda>(k, d). repeats_key d) ms)"

lemma run_events_append:
  "run_events (es @ fs) h = (case run_events es h of None \<Rightarrow> None | Some h' \<Rightarrow> run_events fs h')"
  by (induction es arbitrary: h) (auto split: option.splits)

lemma run_leaves [simp]: "run_events (map Leaf es) h = Some h"
  by (induction es) simp_all

lemma run_key_parts:
  "run_events (map KeyPart parts) \<lparr>frames = \<lparr>keys = K, key = k\<rparr> # fs, duplicate = b\<rparr> =
     Some \<lparr>frames = \<lparr>keys = K, key = k @ concat parts\<rparr> # fs, duplicate = b\<rparr>"
  by (induction parts arbitrary: k) (simp_all add: on_key_part_def)

lemma run_key_events:
  "run_events (key_events k) \<lparr>frames = \<lparr>keys = K, key = []\<rparr> # fs, duplicate = b\<rparr> =
     Some \<lparr>frames = \<lparr>keys = insert (decoded_key k) K, key = []\<rparr> # fs,
           duplicate = (b \<or> decoded_key k \<in> K)\<rparr>"
  by (simp add: key_events_def run_events_append run_key_parts on_key_def on_key_part_def decoded_key_def)

lemma run_items:
  assumes "\<And>d h. d \<in> set ds \<Longrightarrow>
     run_events (doc_events d) h = Some (h\<lparr>duplicate := duplicate h \<or> repeats_key d\<rparr>)"
  shows "run_events (concat (map doc_events ds)) h =
     Some (h\<lparr>duplicate := duplicate h \<or> list_ex repeats_key ds\<rparr>)"
  using assms by (induction ds arbitrary: h) (simp_all add: run_events_append)

lemma run_members:
  assumes "\<And>d h. d \<in> snd ` set ms \<Longrightarrow>
     run_events (doc_events d) h = Some (h\<lparr>duplicate := duplicate h \<or> repeats_key d\<rparr>)"
  shows "run_events (concat (map (\<lambda>(k, d). key_events k @ doc_events d) ms))
      \<lparr>frames = \<lparr>keys = K, key = []\<rparr> # fs, duplicate = b\<rparr> =
     Some \<lparr>frames = \<lparr>keys = K \<union> (\<lambda>(k, d). decoded_key k) ` set ms, key = []\<rparr> # fs,
           duplicate = (b \<or> K \<inter> (\<lambda>(k, d). decoded_key k) ` set ms \<noteq> {}
             \<or> \<not> distinct (map (\<lambda>(k, d). decoded_key k) ms) \<or> list_ex (\<lambda>(k, d). repeats_key d) ms)\<rparr>"
  using assms
proof (induction ms arbitrary: K b)
  case (Cons m ms)
  obtain k d where m: "m = (k, d)" by fastforce
  let ?S = "(\<lambda>(k, d). decoded_key k) ` set ms" and ?x = "decoded_key k"
  have keys: "insert ?x K \<union> ?S = K \<union> insert ?x ?S" by blast
  have dup: "(((b \<or> ?x \<in> K) \<or> repeats_key d) \<or> insert ?x K \<inter> ?S \<noteq> {} \<or> p \<or> q) =
      (b \<or> K \<inter> insert ?x ?S \<noteq> {} \<or> \<not> (?x \<notin> ?S \<and> \<not> p) \<or> repeats_key d \<or> q)" for p q
    by blast
  have head: "run_events (doc_events d) h = Some (h\<lparr>duplicate := duplicate h \<or> repeats_key d\<rparr>)" for h
    using Cons.prems by (simp add: m)
  have tail: "run_events (concat (map (\<lambda>(k, d). key_events k @ doc_events d) ms))
      \<lparr>frames = \<lparr>keys = K', key = []\<rparr> # fs, duplicate = b'\<rparr> =
     Some \<lparr>frames = \<lparr>keys = K' \<union> ?S, key = []\<rparr> # fs,
           duplicate = (b' \<or> K' \<inter> ?S \<noteq> {}
             \<or> \<not> distinct (map (\<lambda>(k, d). decoded_key k) ms) \<or> list_ex (\<lambda>(k, d). repeats_key d) ms)\<rparr>" for K' b'
    using Cons.prems by (intro Cons.IH) simp
  show ?case
    by (simp only: m list.map concat.simps prod.case run_events_append run_key_events head tail option.case
        duplicate_handler.simps keys dup list.set image_insert distinct.simps set_map list_ex_Cons_iff not_not)
qed simp

lemma run_doc:
  "run_events (doc_events d) h = Some (h\<lparr>duplicate := duplicate h \<or> repeats_key d\<rparr>)"
proof (induction d arbitrary: h)
  case (Scalar es)
  then show ?case by simp
next
  case (ArrayDoc ds)
  have "run_events (concat (map doc_events ds)) h' =
      Some (h'\<lparr>duplicate := duplicate h' \<or> list_ex repeats_key ds\<rparr>)" for h'
    using ArrayDoc.IH by (rule run_items)
  then show ?case by (simp add: run_events_append pop_frame_def)
next
  case (ObjectDoc ms)
  have "run_events (doc_events d) h' = Some (h'\<lparr>duplicate := duplicate h' \<or> repeats_key d\<rparr>)"
    if d: "d \<in> snd ` set ms" for d h'
  proof -
    from d obtain k where "(k, d) \<in> set ms" by auto
    then show ?thesis by (rule ObjectDoc.IH) simp
  qed
  note run_members [OF this, where K = "{}" and fs = "frames h" and b = "duplicate h"]
  then show ?case by (cases h) (simp add: run_events_append pop_frame_def)
qed

text \<open>
  C18: fed with the events of any document, the handler never touches an empty frame stack,
  ends with no open frame, and its flag says exactly whether some object of the document
  repeats a decoded key, however the keys were cut into parts; equal keys of different
  objects do not count.
\<close>

theorem duplicate_handler_exact:
  "run_events (DocumentBegin # doc_events d @ [DocumentEnd]) new_handler =
     Some \<lparr>frames = [], duplicate = repeats_key d\<rparr>"
  by (simp add: run_events_append run_doc new_handler_def)

section \<open>Reading a document\<close>

datatype parse_error = TooDeep | ExponentOverflow | OtherError

text \<open>
  What the source takes from Boost.JSON: the tokenizer's events, error and count of consumed
  bytes; the document parser; the serializer's output parts.  Each run allocates from the
  context's budgeted resource; \<open>None\<close> is a run ended by \<open>BudgetExceeded\<close>.
\<close>

record json_lib =
  tokenize :: "codec_context \<Rightarrow> string \<Rightarrow> (sax_event list \<times> parse_error option \<times> nat) option"
  parse_document :: "codec_context \<Rightarrow> string \<Rightarrow> (parse_error + json) option"
  walk_fits :: "codec_context \<Rightarrow> json \<Rightarrow> bool"
  serialize_parts :: "codec_context \<Rightarrow> json \<Rightarrow> string list option"

definition parseError :: "parse_error \<Rightarrow> codec_error_code" where
  "parseError e =
     (if e = TooDeep then DepthLimit
      else if e = ExponentOverflow then TypeMismatch
      else InvalidJson)"

text \<open>
  \<open>value\<close> is the caller's result: absent for a null pointer, otherwise the resource it lives on
  and its content.  The outcome is undefined (\<open>None\<close>) only if the tokenizer's events drive the
  handler to an empty stack.
\<close>

definition parseJson :: "json_lib \<Rightarrow> string \<Rightarrow> codec_context \<Rightarrow> (nat \<times> json) option \<Rightarrow>
    (unit res \<times> (nat \<times> json) option) option" where
  "parseJson lib text c value =
     (case value of
        None \<Rightarrow> Some (codecFailure InternalError, value)
      | Some (store, old) \<Rightarrow>
          if maxDocumentBytes (limits c) < length text then Some (codecFailure DocumentLimit, value)
          else case tokenize lib c text of
            None \<Rightarrow> Some (codecFailure AllocationLimit, value)
          | Some (events, parsed, consumed) \<Rightarrow>
              (case run_events events new_handler of
                 None \<Rightarrow> None
               | Some h \<Rightarrow> Some
                  (case parsed of
                     Some e \<Rightarrow> (codecFailure (parseError e), value)
                   | None \<Rightarrow>
                       if consumed \<noteq> length text then (codecFailure InvalidJson, value)
                       else if duplicate h then (codecFailure DuplicateKey, value)
                       else case parse_document lib c text of
                         None \<Rightarrow> (codecFailure AllocationLimit, value)
                       | Some (Inl e) \<Rightarrow> (codecFailure (parseError e), value)
                       | Some (Inr staged) \<Rightarrow>
                           if store \<noteq> storage c then (codecFailure InvalidDataSource, value)
                           else (Ok (), Some (store, staged)))))"

text \<open>
  On a document the tokenizer accepts whole, \<open>parseJson\<close> fails with \<open>duplicate_key\<close> exactly
  when some object repeats a decoded key; otherwise the result is the parsed document.  On
  every failure the caller's value is what it was.
\<close>

theorem parseJson_duplicate_key:
  assumes "length text \<le> maxDocumentBytes (limits c)"
    and "tokenize lib c text = Some (DocumentBegin # doc_events d @ [DocumentEnd], None, length text)"
    and "parse_document lib c text = Some (Inr v)"
  shows "parseJson lib text c (Some (storage c, old)) =
     Some (if repeats_key d then (codecFailure DuplicateKey, Some (storage c, old))
           else (Ok (), Some (storage c, v)))"
  using assms duplicate_handler_exact [of d] by (simp add: parseJson_def)

definition sample_doc :: doc where
  "sample_doc = ObjectDoc [(([], ''a''), ObjectDoc [(([], ''a''), Scalar [NullEvent])]),
                           (([''a''], ''b''), Scalar [NullEvent])]"

definition sample_lib :: json_lib where
  "sample_lib = \<lparr>tokenize = (\<lambda>c t. Some (DocumentBegin # doc_events sample_doc @ [DocumentEnd], None, length t)),
     parse_document = (\<lambda>c t. Some (Inr (JObject [(''a'', JObject [(''a'', JNull)]), (''ab'', JNull)]))),
     walk_fits = (\<lambda>c v. True), serialize_parts = (\<lambda>c v. Some [''{'', ''}''])\<rparr>"

definition sample_context :: codec_context where
  "sample_context = \<lparr>limits = \<lparr>maxDocumentBytes = 1048576, maxDepth = 64, maxAllocationBytes = 8388608\<rparr>,
     storage = 1, depth = 0, remaining = 1048576\<rparr>"

lemma parseJson_duplicate_key_witness:
  "parseJson sample_lib ''{x}'' sample_context (Some (1, JNull)) =
     Some (Ok (), Some (1, JObject [(''a'', JObject [(''a'', JNull)]), (''ab'', JNull)]))"
  using parseJson_duplicate_key [of "''{x}''" sample_context sample_lib sample_doc
      "JObject [(''a'', JObject [(''a'', JNull)]), (''ab'', JNull)]" JNull]
  by (simp add: sample_lib_def sample_context_def sample_doc_def decoded_key_def)

section \<open>Writing a document\<close>

text \<open>The loop over the serializer's parts, with the bound checked before each append.\<close>

fun append_parts :: "nat \<Rightarrow> string \<Rightarrow> string list \<Rightarrow> string option" where
  "append_parts lim staged [] = Some staged"
| "append_parts lim staged (part # parts) =
     (if lim - length staged < length part then None else append_parts lim (staged @ part) parts)"

definition serializeJson :: "json_lib \<Rightarrow> json \<Rightarrow> codec_context \<Rightarrow> string option \<Rightarrow> unit res \<times> string option" where
  "serializeJson lib v c text =
     (case text of
        None \<Rightarrow> (codecFailure InternalError, text)
      | Some old \<Rightarrow>
          if \<not> walk_fits lib c v then (codecFailure AllocationLimit, text)
          else case validateOutput v c of
            Fail e \<Rightarrow> (Fail e, text)
          | Ok _ \<Rightarrow>
              (case serialize_parts lib c v of
                 None \<Rightarrow> (codecFailure AllocationLimit, text)
               | Some parts \<Rightarrow>
                   (case append_parts (maxDocumentBytes (limits c)) [] parts of
                      None \<Rightarrow> (codecFailure DocumentLimit, text)
                    | Some staged \<Rightarrow> (Ok (), Some staged))))"

lemma append_parts_eq:
  "length staged \<le> lim \<Longrightarrow> append_parts lim staged parts =
     (if length (staged @ concat parts) \<le> lim then Some (staged @ concat parts) else None)"
  by (induction lim staged parts rule: append_parts.induct) auto

text \<open>
  \<open>serializeJson\<close> never emits a truncated document: it succeeds exactly when the workspace
  fits the allocation budget, the document has no defect and its whole text fits the document
  limit, and then returns that whole text; otherwise it reports the reason (allocation, first
  defect, document limit, in this order) and leaves the caller's text alone.
\<close>

theorem serializeJson_whole_or_unchanged:
  "serializeJson lib v c (Some old) =
     (if \<not> walk_fits lib c v then (codecFailure AllocationLimit, Some old)
      else case defect (maxDepth (limits c)) v of
        Some e \<Rightarrow> (codecFailure e, Some old)
      | None \<Rightarrow>
          (case serialize_parts lib c v of
             None \<Rightarrow> (codecFailure AllocationLimit, Some old)
           | Some parts \<Rightarrow>
               if length (concat parts) \<le> maxDocumentBytes (limits c) then (Ok (), Some (concat parts))
               else (codecFailure DocumentLimit, Some old)))"
  by (simp add: serializeJson_def validateOutput_def validate_from_defect continue_with_def orelse_none_def
      append_parts_eq codecFailure_def codecFailureAt_def split: option.splits)

end
