(* ===== verification/Budget.thy ===== *)
theory Budget
  imports Prelude "HOL-Library.Multiset"
begin

text \<open>
  The allocation budget of a conversion (\<open>BudgetResource\<close> in \<open>src/codec_context.cpp\<close>), with its
  atomic counter at the width of \<open>std::size_t\<close>.

  \<open>do_allocate\<close> loads the counter, checks the request against what is left, and publishes the
  reservation with a weak compare-and-exchange, retrying on failure; a failing system
  allocation gives the reservation back.  \<open>do_deallocate\<close> frees the block and then subtracts.
  Threads interleave between these atomic accesses, so the model is a step relation over
  per-thread program counters.
\<close>

section \<open>State and steps\<close>

text \<open>
  \<open>Loaded n u\<close>: allocating \<open>n\<close> bytes, having read \<open>u\<close>.  \<open>Reserved n\<close>: the exchange succeeded,
  the system allocation is running.  \<open>Freed n\<close>: the block is freed, the counter not yet lowered.
  \<open>Exceeded\<close>: \<open>BudgetExceeded\<close> was thrown.
\<close>

datatype alloc_pc = Idle | Loaded u64 u64 | Reserved u64 | Freed u64 | Exceeded

record budget =
  limit :: u64
  used :: u64
  threads :: "alloc_pc list"
  blocks :: "u64 multiset"

definition new_budget :: "u64 \<Rightarrow> nat \<Rightarrow> budget" where
  "new_budget l n = \<lparr>limit = l, used = 0, threads = replicate n Idle, blocks = {#}\<rparr>"

definition set_pc :: "nat \<Rightarrow> alloc_pc \<Rightarrow> budget \<Rightarrow> budget" where
  "set_pc i p s = s\<lparr>threads := (threads s)[i := p]\<rparr>"

text \<open>The atomic actions, as functions on the state; \<open>bytes > limit_ - used\<close> wraps as in C++.\<close>

definition load_used :: "nat \<Rightarrow> u64 \<Rightarrow> budget \<Rightarrow> budget" where
  "load_used i n s = set_pc i (Loaded n (used s)) s"

definition over_budget :: "budget \<Rightarrow> u64 \<Rightarrow> u64 \<Rightarrow> bool" where
  "over_budget s n u \<longleftrightarrow> limit s - u < n"

definition exchange :: "nat \<Rightarrow> u64 \<Rightarrow> u64 \<Rightarrow> bool \<Rightarrow> budget \<Rightarrow> budget" where
  "exchange i n u spurious s =
     (if used s = u \<and> \<not> spurious then set_pc i (Reserved n) (s\<lparr>used := u + n\<rparr>)
      else set_pc i (Loaded n (used s)) s)"

definition system_allocate :: "nat \<Rightarrow> u64 \<Rightarrow> bool \<Rightarrow> budget \<Rightarrow> budget" where
  "system_allocate i n succeeds s =
     (if succeeds then set_pc i Idle (s\<lparr>blocks := add_mset n (blocks s)\<rparr>)
      else set_pc i Idle (s\<lparr>used := used s - n\<rparr>))"

definition system_free :: "nat \<Rightarrow> u64 \<Rightarrow> budget \<Rightarrow> budget" where
  "system_free i n s = set_pc i (Freed n) (s\<lparr>blocks := blocks s - {#n#}\<rparr>)"

definition give_back :: "nat \<Rightarrow> u64 \<Rightarrow> budget \<Rightarrow> budget" where
  "give_back i n s = set_pc i Idle (s\<lparr>used := used s - n\<rparr>)"

inductive budget_step :: "budget \<Rightarrow> budget \<Rightarrow> bool" where
  load: "i < length (threads s) \<Longrightarrow> threads s ! i = Idle \<Longrightarrow> budget_step s (load_used i n s)"
| exceed: "i < length (threads s) \<Longrightarrow> threads s ! i = Loaded n u \<Longrightarrow> over_budget s n u \<Longrightarrow>
     budget_step s (set_pc i Exceeded s)"
| exchange: "i < length (threads s) \<Longrightarrow> threads s ! i = Loaded n u \<Longrightarrow> \<not> over_budget s n u \<Longrightarrow>
     budget_step s (exchange i n u spurious s)"
| allocate: "i < length (threads s) \<Longrightarrow> threads s ! i = Reserved n \<Longrightarrow>
     budget_step s (system_allocate i n succeeds s)"
| caught: "i < length (threads s) \<Longrightarrow> threads s ! i = Exceeded \<Longrightarrow> budget_step s (set_pc i Idle s)"
| free: "i < length (threads s) \<Longrightarrow> threads s ! i = Idle \<Longrightarrow> n \<in># blocks s \<Longrightarrow>
     budget_step s (system_free i n s)"
| lower: "i < length (threads s) \<Longrightarrow> threads s ! i = Freed n \<Longrightarrow> budget_step s (give_back i n s)"

inductive budget_reachable :: "u64 \<Rightarrow> nat \<Rightarrow> budget \<Rightarrow> bool" for l k where
  start: "budget_reachable l k (new_budget l k)"
| step: "budget_reachable l k s \<Longrightarrow> budget_step s t \<Longrightarrow> budget_reachable l k t"

section \<open>The invariant\<close>

text \<open>Bytes a thread has charged to the counter for which no block exists.\<close>

fun in_flight :: "alloc_pc \<Rightarrow> nat" where
  "in_flight (Reserved n) = unat n"
| "in_flight (Freed n) = unat n"
| "in_flight _ = 0"

definition live_bytes :: "budget \<Rightarrow> nat" where
  "live_bytes s = (\<Sum>n \<in># blocks s. unat n)"

definition charged :: "budget \<Rightarrow> nat" where
  "charged s = live_bytes s + sum_list (map in_flight (threads s))"

fun loaded_ok :: "u64 \<Rightarrow> alloc_pc \<Rightarrow> bool" where
  "loaded_ok l (Loaded n u) = (u \<le> l)"
| "loaded_ok l _ = True"

definition budget_inv :: "budget \<Rightarrow> bool" where
  "budget_inv s \<longleftrightarrow> used s \<le> limit s \<and> unat (used s) = charged s
     \<and> list_all (loaded_ok (limit s)) (threads s)"

lemma sum_list_update_pc:
  "i < length xs \<Longrightarrow> sum_list (map f (xs[i := x])) + f (xs ! i) = sum_list (map f xs) + (f x :: nat)"
  by (induction xs arbitrary: i) (auto split: nat.splits)

lemma charged_set_pc:
  "i < length (threads s) \<Longrightarrow>
     charged (set_pc i p s) + in_flight (threads s ! i) = charged s + in_flight p"
  using sum_list_update_pc [of i "threads s" in_flight p]
  by (simp add: charged_def set_pc_def live_bytes_def)

lemma charged_frame [simp]:
  "charged (s\<lparr>used := u\<rparr>) = charged s"
  "charged (s\<lparr>blocks := add_mset n (blocks s)\<rparr>) = charged s + unat n"
  by (simp_all add: charged_def live_bytes_def)

lemma charged_remove:
  "n \<in># blocks s \<Longrightarrow> charged (s\<lparr>blocks := blocks s - {#n#}\<rparr>) + unat n = charged s"
  by (auto simp: charged_def live_bytes_def dest!: multi_member_split)

lemma set_pc_frame [simp]:
  "limit (set_pc i p s) = limit s" "used (set_pc i p s) = used s"
  "threads (set_pc i p s) = (threads s)[i := p]" "blocks (set_pc i p s) = blocks s"
  by (simp_all add: set_pc_def)

lemma list_all_update: "list_all P xs \<Longrightarrow> P x \<Longrightarrow> list_all P (xs[i := x])"
  using set_update_subset_insert [of xs i x] by (auto simp: list_all_iff)

text \<open>
  With the counter within the limit, a request that passes the check fits, and adding it
  does not wrap.
\<close>

lemma within_budget:
  assumes "\<not> over_budget s n u" "u \<le> limit s"
  shows "u + n \<le> limit s" "unat (u + n) = unat u + unat n"
proof -
  have "unat n \<le> unat (limit s) - unat u"
    using assms by (simp add: over_budget_def not_less word_le_nat_alt unat_sub)
  with assms(2) have le: "unat u + unat n \<le> unat (limit s)" by (simp add: word_le_nat_alt)
  then have lt: "unat u + unat n < 2 ^ 64" using unsigned_less [of "limit s", where 'a = nat] by simp
  then show "unat (u + n) = unat u + unat n" by (simp add: unat_word_ariths)
  with le show "u + n \<le> limit s" by (simp add: word_le_nat_alt)
qed

lemma lower_used:
  assumes "unat n \<le> unat u" "u \<le> l"
  shows "u - n \<le> (l :: u64)" "unat (u - n) = unat u - unat n"
proof -
  from assms(1) have "n \<le> u" by (simp add: word_le_nat_alt)
  then show *: "unat (u - n) = unat u - unat n" by (rule unat_sub)
  show "u - n \<le> l" using assms(2) * by (simp add: word_le_nat_alt)
qed

lemma in_flight_le_charged: "i < length (threads s) \<Longrightarrow> in_flight (threads s ! i) \<le> charged s"
  by (auto simp: charged_def intro!: trans_le_add2 member_le_sum_list)

lemma budget_step_limit: "budget_step s t \<Longrightarrow> limit t = limit s"
  by (induction rule: budget_step.induct)
    (simp_all add: load_used_def exchange_def system_allocate_def system_free_def give_back_def)

lemma budget_inv_step:
  assumes "budget_step s t" "budget_inv s"
  shows "budget_inv t"
  using assms
proof (induction rule: budget_step.induct)
  case (load i s n)
  then show ?case
    using charged_set_pc [of i s "Loaded n (used s)"]
    by (simp add: budget_inv_def load_used_def list_all_update)
next
  case (exceed i s n u)
  then show ?case
    using charged_set_pc [of i s Exceeded] by (simp add: budget_inv_def list_all_update)
next
  case (exchange i s n u spurious)
  then have u: "u \<le> limit s" by (auto simp: budget_inv_def list_all_length dest: spec [of _ i])
  note fits = within_budget [OF exchange.hyps(3) u]
  show ?case
  proof (cases "used s = u \<and> \<not> spurious")
    case True
    then show ?thesis
      using exchange fits charged_set_pc [of i "s\<lparr>used := u + n\<rparr>" "Reserved n"]
      by (simp add: budget_inv_def exchange_def list_all_update)
  next
    case False
    then have "exchange i n u spurious s = set_pc i (Loaded n (used s)) s"
      by (auto simp: exchange_def)
    then show ?thesis
      using exchange charged_set_pc [of i s "Loaded n (used s)"]
      by (simp add: budget_inv_def list_all_update)
  qed
next
  case (allocate i s n succeeds)
  then have n: "unat n \<le> unat (used s)"
    using in_flight_le_charged [of i s] by (simp add: budget_inv_def)
  with allocate show ?case
    using charged_set_pc [of i "s\<lparr>used := used s - n\<rparr>" Idle] lower_used [OF n, of "limit s"]
      charged_set_pc [of i "s\<lparr>blocks := add_mset n (blocks s)\<rparr>" Idle]
    by (cases succeeds) (simp_all add: budget_inv_def system_allocate_def list_all_update)
next
  case (caught i s)
  then show ?case
    using charged_set_pc [of i s Idle] by (simp add: budget_inv_def list_all_update)
next
  case (free i s n)
  then show ?case
    using charged_set_pc [of i "s\<lparr>blocks := blocks s - {#n#}\<rparr>" "Freed n"] charged_remove [of n s]
    by (simp add: budget_inv_def system_free_def list_all_update)
next
  case (lower i s n)
  then have n: "unat n \<le> unat (used s)"
    using in_flight_le_charged [of i s] by (simp add: budget_inv_def)
  with lower show ?case
    using charged_set_pc [of i "s\<lparr>used := used s - n\<rparr>" Idle] lower_used [OF n, of "limit s"]
    by (simp add: budget_inv_def give_back_def list_all_update)
qed

lemma budget_inv_new: "budget_inv (new_budget l k)"
  by (induction k) (simp_all add: budget_inv_def new_budget_def charged_def live_bytes_def)

lemma budget_reachable_inv: "budget_reachable l k s \<Longrightarrow> budget_inv s \<and> limit s = l"
proof (induction rule: budget_reachable.induct)
  case start
  show ?case using budget_inv_new [of l k] by (simp add: new_budget_def)
next
  case (step s t)
  then show ?case using budget_inv_step budget_step_limit by blast
qed

text \<open>
  C22: under every interleaving of allocating and freeing threads, and with spurious failures
  of the weak exchange, the live blocks together never exceed the limit, and the counter is
  exactly the live bytes plus what threads have in flight: it never wraps and never leaks.
\<close>

theorem budget_never_exceeded:
  assumes "budget_reachable l k s"
  shows "live_bytes s \<le> unat l \<and> unat (used s) = live_bytes s + sum_list (map in_flight (threads s))"
proof -
  from assms have "budget_inv s" "limit s = l" using budget_reachable_inv by blast+
  then have "unat (used s) = charged s" "unat (used s) \<le> unat l"
    by (simp_all add: budget_inv_def word_le_nat_alt)
  then show ?thesis by (simp add: charged_def)
qed

text \<open>Two threads race for 100 bytes: 60 are granted to one of them.\<close>

definition race :: budget where
  "race = system_allocate 0 60 True (exchange 0 60 0 False (load_used 1 60 (load_used 0 60 (new_budget 100 2))))"

lemma race_reachable: "budget_reachable 100 2 race"
  unfolding race_def
  by (rule budget_reachable.step [OF budget_reachable.step [OF budget_reachable.step
        [OF budget_reachable.step [OF budget_reachable.start]]]];
      rule load exchange allocate)
    (simp_all add: new_budget_def load_used_def exchange_def set_pc_def over_budget_def)

lemma budget_never_exceeded_witness:
  "live_bytes race = 60 \<and> live_bytes race \<le> unat (100 :: u64) \<and>
   unat (used race) = live_bytes race + sum_list (map in_flight (threads race))"
  using budget_never_exceeded [OF race_reachable]
  by (simp add: race_def live_bytes_def system_allocate_def exchange_def load_used_def set_pc_def new_budget_def)

end
