(* ===== verification/Numeric_Codec.thy ===== *)
theory Numeric_Codec
  imports Codec_Context
begin

text \<open>
  \<open>JsonConversion\<close> for integers, \<open>bool\<close>, floating-point numbers and enums
  (\<open>typed_codec.hpp\<close>), with the parts of \<open><charconv>\<close> they use.

  The template parameter \<open>T\<close> is an \<open>int_type\<close> (width and signedness) or an \<open>fp_format\<close>; a
  value of an integer type is an \<^typ>\<open>int\<close> in the range of the type, and \<open>static_cast\<close> writes
  the reduction modulo \<open>2 ^ bits\<close> out.
\<close>

section \<open>Integer types and decimal text\<close>

record int_type =
  bits :: nat
  signed :: bool

definition imin :: "int_type \<Rightarrow> int" where
  "imin t = (if signed t then - (2 ^ (bits t - 1)) else 0)"

definition imax :: "int_type \<Rightarrow> int" where
  "imax t = (if signed t then 2 ^ (bits t - 1) - 1 else 2 ^ bits t - 1)"

definition in_range :: "int_type \<Rightarrow> int \<Rightarrow> bool" where
  "in_range t i \<longleftrightarrow> imin t \<le> i \<and> i \<le> imax t"

definition cast_int :: "int_type \<Rightarrow> int \<Rightarrow> int" where
  "cast_int t i =
     (if signed t then (i + 2 ^ (bits t - 1)) mod 2 ^ bits t - 2 ^ (bits t - 1) else i mod 2 ^ bits t)"

text \<open>The types the program uses: 8, 16, 32 or 64 bits.\<close>

definition cpp_int_type :: "int_type \<Rightarrow> bool" where
  "cpp_int_type t \<longleftrightarrow> bits t \<in> {8, 16, 32, 64}"

definition digit :: "nat \<Rightarrow> char" where
  "digit n = char_of (48 + n)"

definition is_digit :: "char \<Rightarrow> bool" where
  "is_digit c \<longleftrightarrow> 48 \<le> byte c \<and> byte c \<le> 57"

fun nat_chars :: "nat \<Rightarrow> string" where
  "nat_chars n = (if n < 10 then [digit n] else nat_chars (n div 10) @ [digit (n mod 10)])"

declare nat_chars.simps [simp del]

definition to_chars :: "int \<Rightarrow> string" where
  "to_chars i = (if i < 0 then CHR ''-'' # nat_chars (nat (- i)) else nat_chars (nat i))"

definition digits_value :: "string \<Rightarrow> nat" where
  "digits_value ds = foldl (\<lambda>n d. 10 * n + (byte d - 48)) 0 ds"

text \<open>
  \<open>std::from_chars\<close>: the longest prefix of digits, with a minus sign for signed types only;
  the value and the unconsumed text, or no value (\<open>invalid_argument\<close>, \<open>result_out_of_range\<close>).
\<close>

definition from_chars :: "int_type \<Rightarrow> string \<Rightarrow> (int \<times> string) option" where
  "from_chars t s =
     (let negative = (signed t \<and> s \<noteq> [] \<and> hd s = CHR ''-'');
          body = (if negative then tl s else s);
          ds = takeWhile is_digit body;
          v = (if negative then - int (digits_value ds) else int (digits_value ds)) in
      if ds = [] \<or> \<not> in_range t v then None else Some (v, dropWhile is_digit body))"

lemma byte_digit: "n < 10 \<Longrightarrow> byte (digit n) = 48 + n"
  by (simp add: digit_def)

lemma is_digit_digit [simp]: "n < 10 \<Longrightarrow> is_digit (digit n)"
  by (simp add: is_digit_def byte_digit)

lemma nat_chars_digits: "list_all is_digit (nat_chars n)"
proof (induction n rule: nat_chars.induct)
  case (1 n)
  then show ?case by (subst nat_chars.simps) simp
qed

lemma nat_chars_nonempty [simp]: "nat_chars n \<noteq> []"
  by (subst nat_chars.simps) simp

lemma digits_value_nat_chars [simp]: "digits_value (nat_chars n) = n"
proof (induction n rule: nat_chars.induct)
  case (1 n)
  show ?case
  proof (cases "n < 10")
    case True
    then show ?thesis by (subst nat_chars.simps) (simp add: digits_value_def byte_digit)
  next
    case False
    with 1 have "digits_value (nat_chars (n div 10)) = n div 10" by simp
    with False show ?thesis
      by (subst nat_chars.simps) (simp add: digits_value_def byte_digit)
  qed
qed

lemma takeWhile_digits [simp]:
  "takeWhile is_digit (nat_chars n) = nat_chars n" "dropWhile is_digit (nat_chars n) = []"
  using nat_chars_digits [of n] by (simp_all add: takeWhile_eq_all_conv list_all_iff)

lemma hd_nat_chars: "hd (nat_chars n) \<noteq> CHR ''-''"
proof -
  have "is_digit (hd (nat_chars n))"
    using nat_chars_digits [of n] by (simp add: list_all_iff)
  then show ?thesis by (auto simp: is_digit_def)
qed

lemma from_chars_to_chars:
  assumes "in_range t i"
  shows "from_chars t (to_chars i) = Some (i, [])"
proof (cases "i < 0")
  case True
  with assms have "signed t" by (auto simp: in_range_def imin_def split: if_splits)
  with True assms show ?thesis by (simp add: from_chars_def to_chars_def Let_def)
next
  case False
  with assms show ?thesis by (simp add: from_chars_def to_chars_def Let_def hd_nat_chars)
qed

lemma from_chars_range: "from_chars t s = Some (i, rest) \<Longrightarrow> in_range t i"
  by (auto simp: from_chars_def Let_def split: if_splits)

section \<open>Casts\<close>

lemma two_power_split: "0 < b \<Longrightarrow> (2 :: int) ^ b = 2 * 2 ^ (b - 1)"
  by (cases b) simp_all

text \<open>A cast of a value that the type can hold is the identity.\<close>

lemma cast_int_id:
  assumes "cpp_int_type t" "in_range t i"
  shows "cast_int t i = i"
proof -
  have "0 < bits t" using assms(1) by (auto simp: cpp_int_type_def)
  then have split: "(2 :: int) ^ bits t = 2 * 2 ^ (bits t - 1)" by (rule two_power_split)
  show ?thesis
  proof (cases "signed t")
    case True
    with assms(2) have "0 \<le> i + 2 ^ (bits t - 1)" "i + 2 ^ (bits t - 1) < 2 ^ bits t"
      by (simp_all add: in_range_def imin_def imax_def split)
    with True show ?thesis by (simp add: cast_int_def)
  next
    case False
    with assms(2) show ?thesis by (simp add: cast_int_def in_range_def imin_def imax_def)
  qed
qed

section \<open>Integers\<close>

definition int_encode :: "int_type \<Rightarrow> int \<Rightarrow> json codec" where
  "int_encode t v =
     bind_codec (account (length (to_chars v) + (if bits t = 64 then 2 else 0)))
       (\<lambda>_. return (if bits t = 64 then JString (to_chars v)
                    else if signed t then JInt64 (word_of_int v) else JUint64 (word_of_int v)))"

text \<open>The double branch of \<open>decode\<close>: finite, integral, and between the bounds cast to double.\<close>

definition double_in_range :: "int_type \<Rightarrow> fp \<Rightarrow> bool" where
  "double_in_range t x \<longleftrightarrow> isfinite x \<and> is_integral x
     \<and> \<not> fp_less x (fp_of_int binary64 (imin t)) \<and> \<not> fp_less (fp_of_int binary64 (imax t)) x"

definition int_decode :: "int_type \<Rightarrow> json \<Rightarrow> int codec" where
  "int_decode t j = failing
     (if bits t = 64 then
        (case j of
           JString s \<Rightarrow>
             (case from_chars t s of
                Some (staged, []) \<Rightarrow>
                  if to_chars staged \<noteq> s then codecFailure TypeMismatch else Ok staged
              | _ \<Rightarrow> codecFailure TypeMismatch)
         | _ \<Rightarrow> codecFailure TypeMismatch)
      else
        (case j of
           JInt64 w \<Rightarrow>
             (if signed t then
                if sint w < imin t \<or> imax t < sint w then codecFailure TypeMismatch
                else Ok (cast_int t (sint w))
              else if sint w < 0 \<or> imax t < uint w then codecFailure TypeMismatch
              else Ok (cast_int t (sint w)))
         | JUint64 w \<Rightarrow>
             (if imax t < uint w then codecFailure TypeMismatch else Ok (cast_int t (uint w)))
         | JDouble x \<Rightarrow>
             (if \<not> double_in_range t x then codecFailure TypeMismatch
              else Ok (cast_int t (fp_trunc x)))
         | _ \<Rightarrow> codecFailure TypeMismatch))"

text \<open>The integer a JSON number stands for, if it is one.\<close>

fun json_integer :: "json \<Rightarrow> int option" where
  "json_integer (JInt64 w) = Some (sint w)"
| "json_integer (JUint64 w) = Some (uint w)"
| "json_integer (JDouble x) = (if isfinite x \<and> is_integral x then Some (fp_trunc x) else None)"
| "json_integer v = None"

lemma balanced_int_encode [depth_intros, simp]: "balanced (int_encode t v)"
  unfolding int_encode_def by (intro depth_intros)

lemma balanced_int_decode [depth_intros, simp]: "balanced (int_decode t j)"
  unfolding int_decode_def by (intro depth_intros)

section \<open>Comparisons with integers are exact\<close>

lemma scaled_shift: "k \<le> k0 \<Longrightarrow> k0 \<le> e \<Longrightarrow>
    scaled s m (nat (e - k)) = scaled s m (nat (e - k0)) * 2 ^ nat (k0 - k)"
  by (simp add: scaled_def power_add [symmetric] nat_add_distrib [symmetric])

lemma fp_less_scale:
  assumes "k \<le> e" "k \<le> d"
  shows "fp_less (Fin s m e) (Fin t n d) \<longleftrightarrow> scaled s m (nat (e - k)) < scaled t n (nat (d - k))"
proof -
  let ?k0 = "min e d"
  have "scaled s m (nat (e - k)) = scaled s m (nat (e - ?k0)) * 2 ^ nat (?k0 - k)"
    "scaled t n (nat (d - k)) = scaled t n (nat (d - ?k0)) * 2 ^ nat (?k0 - k)"
    using assms by (intro scaled_shift; simp)+
  then show ?thesis by simp
qed

text \<open>Two representations of the same number compare alike.\<close>

definition same_value :: "fp \<Rightarrow> fp \<Rightarrow> bool" where
  "same_value x y \<longleftrightarrow> (\<forall>z. fp_less x z = fp_less y z \<and> fp_less z x = fp_less z y)"

lemma same_value_trans: "same_value x y \<Longrightarrow> same_value y z \<Longrightarrow> same_value x z"
  by (simp add: same_value_def)

lemma same_value_finI:
  assumes "\<And>k. k \<le> e \<Longrightarrow> k \<le> d \<Longrightarrow> scaled s m (nat (e - k)) = scaled s n (nat (d - k))"
  shows "same_value (Fin s m e) (Fin s n d)"
  unfolding same_value_def
proof
  fix z
  show "fp_less (Fin s m e) z = fp_less (Fin s n d) z \<and> fp_less z (Fin s m e) = fp_less z (Fin s n d)"
  proof (cases z)
    case (Fin t j i)
    let ?k = "min (min e d) i"
    show ?thesis
      using assms [of ?k] by (simp add: Fin fp_less_scale [of ?k] del: fp_less.simps)
  qed simp_all
qed

lemma same_value_norm: "same_value (fp_norm s m e) (Fin s m e)"
proof (induction s m e rule: fp_norm.induct)
  case (1 s m e)
  show ?case
  proof (cases "m = 0 \<or> odd m")
    case True
    then show ?thesis
      by (subst fp_norm.simps) (auto intro!: same_value_finI simp: scaled_def)
  next
    case False
    then have "same_value (Fin s (m div 2) (e + 1)) (Fin s m e)"
      by (intro same_value_finI) (auto elim!: evenE simp: scaled_def nat_add_distrib Suc_nat_eq_nat_zadd1 [symmetric] diff_add_eq [symmetric])
    with False "1.IH" show ?thesis
      by (subst fp_norm.simps) (auto intro: same_value_trans)
  qed
qed

lemma fp_of_int_exact:
  assumes "\<bar>i\<bar> < 2 ^ 53"
  shows "fp_of_int binary64 i = fp_norm (i < 0) (nat \<bar>i\<bar>) 0"
proof -
  have "nat \<bar>i\<bar> < 2 ^ 53" using assms by (simp add: nat_less_iff)
  then have "bitlen (nat \<bar>i\<bar>) \<le> 53" by (simp add: bitlen_le_iff)
  then show ?thesis by (simp add: fp_of_int_def binary64_def round_shift_def)
qed

lemma scaled_int: "scaled (i < 0) (nat \<bar>i\<bar>) k = i * 2 ^ k"
  by (simp add: scaled_def)

lemma scaled_trunc:
  assumes "is_integral (Fin s m e)"
  shows "scaled s m (nat (e - min e 0)) = fp_trunc (Fin s m e) * 2 ^ nat (- min e 0)"
proof (cases "0 \<le> e")
  case False
  with assms obtain q where "m = q * 2 ^ nat (- e)" by (auto elim!: dvdE simp: mult.commute mod_eq_0_iff_dvd)
  with False show ?thesis by (simp add: scaled_def)
qed (simp add: scaled_def)

lemma fp_less_int:
  assumes "is_integral x" "\<bar>i\<bar> < 2 ^ 53"
  shows "fp_less x (fp_of_int binary64 i) \<longleftrightarrow> fp_trunc x < i"
    and "fp_less (fp_of_int binary64 i) x \<longleftrightarrow> i < fp_trunc x"
proof -
  obtain s m e where x: "x = Fin s m e" using assms(1) by (cases x) auto
  have sv: "same_value (fp_of_int binary64 i) (Fin (i < 0) (nat \<bar>i\<bar>) 0)"
    by (simp add: fp_of_int_exact [OF assms(2)] same_value_norm)
  have i: "scaled (i < 0) (nat \<bar>i\<bar>) (nat (0 - min e 0)) = i * 2 ^ nat (- min e 0)"
    by (simp add: scaled_int)
  note t = scaled_trunc [OF assms(1) [unfolded x]]
  show "fp_less x (fp_of_int binary64 i) \<longleftrightarrow> fp_trunc x < i"
    using sv t i by (simp add: same_value_def x fp_less_scale [of "min e 0"] del: fp_less.simps fp_trunc.simps)
  show "fp_less (fp_of_int binary64 i) x \<longleftrightarrow> i < fp_trunc x"
    using sv t i by (simp add: same_value_def x fp_less_scale [of "min e 0"] del: fp_less.simps fp_trunc.simps)
qed

lemma double_in_range_exact:
  assumes "bits t \<in> {8, 16, 32}"
  shows "double_in_range t x \<longleftrightarrow> isfinite x \<and> is_integral x \<and> in_range t (fp_trunc x)"
proof (cases "is_integral x")
  case True
  have "\<bar>imin t\<bar> < 2 ^ 53" "\<bar>imax t\<bar> < 2 ^ 53"
    using assms by (auto simp: imin_def imax_def)
  with True show ?thesis
    by (simp add: double_in_range_def fp_less_int in_range_def not_less)
qed (simp add: double_in_range_def)

lemma int_decode_64_string:
  "bits t = 64 \<Longrightarrow> int_decode t (JString s) c =
     (case from_chars t s of
        Some (v, []) \<Rightarrow> if to_chars v = s then (Ok v, c) else (codecFailure TypeMismatch, c)
      | _ \<Rightarrow> (codecFailure TypeMismatch, c))"
  by (simp add: int_decode_def failing_def split: option.split list.split)

text \<open>
  A 64-bit integer is accepted exactly in its canonical decimal spelling: \<open>decode\<close>
  succeeds on the strings \<open>to_chars\<close> prints for values of the type and on nothing else (no
  sign other than a needed minus, no leading zero, no surrounding space, no JSON number),
  and returns that value.
\<close>

theorem int_decode_64_exact:
  assumes "bits t = 64"
  shows "int_decode t j c = (Ok v, c') \<longleftrightarrow> c' = c \<and> in_range t v \<and> j = JString (to_chars v)"
proof (cases "\<exists>s. j = JString s")
  case True
  then obtain s where j: "j = JString s" by blast
  show ?thesis
  proof
    assume "int_decode t j c = (Ok v, c')"
    then have "from_chars t s = Some (v, [])" "to_chars v = s" "c' = c"
      by (auto simp: j int_decode_64_string [OF assms] split: option.splits list.splits if_splits)
    then show "c' = c \<and> in_range t v \<and> j = JString (to_chars v)"
      using from_chars_range by (simp add: j)
  next
    assume "c' = c \<and> in_range t v \<and> j = JString (to_chars v)"
    then show "int_decode t j c = (Ok v, c')"
      by (simp add: int_decode_64_string [OF assms] from_chars_to_chars)
  qed
next
  case False
  then show ?thesis
    using assms by (cases j) (simp_all add: int_decode_def codec_simps)
qed

lemma int_decode_64_exact_witness:
  "int_decode \<lparr>bits = 64, signed = True\<rparr> (JString ''-42'') default_context = (Ok (-42), default_context)"
proof -
  have "to_chars (- 42) = ''-42''" by code_simp
  then show ?thesis
    using int_decode_64_exact [of "\<lparr>bits = 64, signed = True\<rparr>" "JString ''-42''" default_context "- 42" default_context]
    by (simp add: in_range_def imin_def imax_def)
qed

lemma sint_uint_nonneg: "0 \<le> sint (w :: u64) \<Longrightarrow> uint w = sint w"
  using sint_less [of w] by (simp add: uint_sint take_bit_int_eq_self)

text \<open>
  C17: a narrower integer is accepted exactly when the JSON number, in whichever of the three
  numeric kinds it arrives (signed, unsigned or an integral double), is an integer the type
  can hold; the result is that integer, so no cast ever wraps or truncates.
\<close>

theorem int_decode_narrow_exact:
  assumes "bits t \<in> {8, 16, 32}"
  shows "int_decode t j c = (Ok v, c') \<longleftrightarrow> c' = c \<and> json_integer j = Some v \<and> in_range t v"
proof -
  have ct: "cpp_int_type t" and t64: "bits t \<noteq> 64" using assms by (auto simp: cpp_int_type_def)
  note cast = cast_int_id [OF ct]
  show ?thesis
  proof (cases j)
    case (JInt64 w)
    have "0 \<le> sint w \<Longrightarrow> uint w = sint w" by (rule sint_uint_nonneg)
    then show ?thesis
      using cast [of "sint w"]
      by (auto simp: JInt64 int_decode_def t64 codec_simps in_range_def imin_def)
  next
    case (JUint64 w)
    have "imin t \<le> 0" by (simp add: imin_def)
    then have "imin t \<le> uint w" using uint_nonnegative order_trans by blast
    then show ?thesis
      using cast [of "uint w"] by (auto simp: JUint64 int_decode_def t64 codec_simps in_range_def)
  next
    case (JDouble x)
    then show ?thesis
      using cast [of "fp_trunc x"]
      by (auto simp: int_decode_def t64 codec_simps double_in_range_exact [OF assms])
  qed (simp_all add: int_decode_def t64 codec_simps)
qed

lemma int_decode_narrow_exact_witness:
  "int_decode \<lparr>bits = 8, signed = False\<rparr> (JDouble (Fin False 255 0)) default_context = (Ok 255, default_context)"
  using int_decode_narrow_exact [of "\<lparr>bits = 8, signed = False\<rparr>" "JDouble (Fin False 255 0)" default_context 255 default_context]
  by (simp add: in_range_def imin_def imax_def)

section \<open>Booleans, enums and floating point\<close>

definition bool_encode :: "bool \<Rightarrow> json codec" where
  "bool_encode b = bind_codec (account (if b then 4 else 5)) (\<lambda>_. return (JBool b))"

definition bool_decode :: "json \<Rightarrow> bool codec" where
  "bool_decode j = failing (case j of JBool b \<Rightarrow> Ok b | _ \<Rightarrow> codecFailure TypeMismatch)"

text \<open>
  An enum value is the integer of its underlying type \<open>u\<close>; \<open>wire\<close> is the integer type it is
  sent as.
\<close>

definition enum_encode :: "int_type \<Rightarrow> int \<Rightarrow> json codec" where
  "enum_encode wire v = int_encode wire (cast_int wire v)"

definition enum_decode :: "int_type \<Rightarrow> int_type \<Rightarrow> json \<Rightarrow> int codec" where
  "enum_decode u wire j = bind_codec (int_decode wire j) (\<lambda>staged. return (cast_int u staged))"

definition fp_encode :: "fp \<Rightarrow> json codec" where
  "fp_encode x = bind_codec (account 1) (\<lambda>_. return
     (if isnan x then JString ''NaN''
      else if isinf x then JString (if signbit x then ''-Infinity'' else ''Infinity'')
      else JDouble x))"

definition fp_finish :: "fp_format \<Rightarrow> fp \<Rightarrow> fp res" where
  "fp_finish f staged =
     (if \<not> isfinite staged \<or> fp_less (fp_max f) (fp_abs staged) then codecFailure TypeMismatch
      else Ok (fp_round f staged))"

definition fp_decode :: "fp_format \<Rightarrow> json \<Rightarrow> fp codec" where
  "fp_decode f j = failing
     (case j of
        JString s \<Rightarrow>
          (if s = ''NaN'' then Ok NaN
           else if s = ''Infinity'' then Ok (Inf False)
           else if s = ''-Infinity'' then Ok (Inf True)
           else codecFailure TypeMismatch)
      | JDouble x \<Rightarrow> fp_finish f x
      | JInt64 w \<Rightarrow> fp_finish f (fp_of_int binary64 (sint w))
      | JUint64 w \<Rightarrow> fp_finish f (fp_of_int binary64 (uint w))
      | _ \<Rightarrow> codecFailure TypeMismatch)"

lemma balanced_numeric [depth_intros, simp]:
  "balanced (bool_encode b)" "balanced (bool_decode j)" "balanced (fp_encode x)"
  "balanced (fp_decode f j)" "balanced (enum_encode w v)" "balanced (enum_decode u w j)"
  unfolding bool_encode_def bool_decode_def fp_encode_def fp_decode_def enum_encode_def enum_decode_def
  by (intro depth_intros)+

section \<open>Narrowing to a format\<close>

definition sound_format :: "fp_format \<Rightarrow> bool" where
  "sound_format f \<longleftrightarrow> 0 < prec f \<and> emin f < emax f"

lemma sound_formats [simp]: "sound_format binary64" "sound_format binary32"
  by (simp_all add: sound_format_def binary64_def binary32_def)

lemma fp_norm_form:
  "0 < m \<Longrightarrow> \<exists>n d. fp_norm s m e = Fin s n d \<and> odd n \<and> e \<le> d \<and> m = n * 2 ^ nat (d - e)"
proof (induction s m e rule: fp_norm.induct)
  case (1 s m e)
  show ?case
  proof (cases "odd m")
    case True
    then show ?thesis by (auto simp: fp_norm_odd)
  next
    case False
    with "1.prems" have "0 < m div 2" by auto
    with False "1.IH" "1.prems" obtain n d where n: "fp_norm s (m div 2) (e + 1) = Fin s n d" "odd n"
      "e + 1 \<le> d" "m div 2 = n * 2 ^ nat (d - (e + 1))" by auto
    have "nat (d - e) = Suc (nat (d - (e + 1)))" using n(3) by simp
    with n False have "m = n * 2 ^ nat (d - e)" by (auto elim!: evenE)
    with n False "1.prems" show ?thesis by (subst fp_norm.simps) auto
  qed
qed

lemma bitlen_shift: "0 < n \<Longrightarrow> bitlen (n * 2 ^ k) = bitlen n + k"
proof (induction k)
  case (Suc k)
  then have "bitlen (n * 2 ^ Suc k) = Suc (bitlen (n * 2 ^ k))"
    by (subst bitlen_pos) simp_all
  with Suc show ?case by simp
qed simp

lemma fp_norm_in:
  assumes "m \<le> 2 ^ prec f" "emin f \<le> e" "int (bitlen m) + e \<le> int (prec f) + emax f" "0 < prec f"
  shows "fp_in f (fp_norm s m e)"
proof (cases "m = 0")
  case False
  then obtain n d where n: "fp_norm s m e = Fin s n d" "odd n" "e \<le> d" "m = n * 2 ^ nat (d - e)"
    using fp_norm_form [of m s e] by auto
  then have pos: "0 < n" by (auto intro: odd_pos)
  have len: "bitlen m = bitlen n + nat (d - e)" using n(4) pos by (simp add: bitlen_shift)
  have "bitlen n \<le> prec f"
  proof (cases "m = 2 ^ prec f")
    case True
    then have "n dvd 2 ^ prec f" using n(4) by (metis dvd_triv_left)
    moreover have "coprime n (2 ^ prec f)" using n(2) by simp
    ultimately have "n = 1" by (metis coprime_absorb_left nat_dvd_1_iff_1)
    then show ?thesis using assms(4) by (simp add: bitlen.simps)
  next
    case False
    with assms(1) have "bitlen m \<le> prec f" by (simp add: bitlen_le_iff)
    with len show ?thesis by simp
  qed
  with n pos len assms show ?thesis by auto
qed simp

lemma bitlen_mono: "m \<le> n \<Longrightarrow> bitlen m \<le> bitlen n"
  by (metis bitlen_le_iff order.refl order.strict_trans1)

lemma within_max:
  assumes "\<not> fp_less (fp_max f) (Fin False m e)"
  shows "0 < m \<Longrightarrow> int (bitlen m) + e \<le> int (prec f) + emax f"
    and "e \<le> emax f \<Longrightarrow> m \<le> (2 ^ prec f - 1) * 2 ^ nat (emax f - e)"
proof -
  let ?k = "min e (emax f)"
  have "int (m * 2 ^ nat (e - ?k)) \<le> int ((2 ^ prec f - 1) * 2 ^ nat (emax f - ?k))"
    using assms by (simp add: fp_max_def scaled_def not_less min.commute of_nat_diff)
  then have le: "m * 2 ^ nat (e - ?k) \<le> (2 ^ prec f - 1) * 2 ^ nat (emax f - ?k)"
    by (simp only: of_nat_le_iff)
  have "bitlen ((2 ^ prec f - 1) * 2 ^ nat (emax f - ?k)) \<le> prec f + nat (emax f - ?k)"
    by (simp add: bitlen_le_iff power_add)
  with bitlen_mono [OF le] have "bitlen (m * 2 ^ nat (e - ?k)) \<le> prec f + nat (emax f - ?k)" by simp
  then show "0 < m \<Longrightarrow> int (bitlen m) + e \<le> int (prec f) + emax f"
    by (simp add: bitlen_shift)
  show "e \<le> emax f \<Longrightarrow> m \<le> (2 ^ prec f - 1) * 2 ^ nat (emax f - e)"
    using le by (simp add: min_def split: if_splits)
qed

lemma round_shift_le:
  assumes "bitlen m \<le> p + k"
  shows "round_shift m k \<le> 2 ^ p"
proof -
  have "m < 2 ^ (p + k)" using assms by (simp add: bitlen_le_iff)
  then have "m div 2 ^ k < 2 ^ p" by (simp add: div_less_iff_less_mult power_add)
  then show ?thesis by (auto simp: round_shift_def Let_def)
qed

text \<open>No rounding up past the largest significand at the top exponent.\<close>

lemma round_shift_top:
  assumes "m \<le> (2 ^ p - 1) * 2 ^ k" "0 < p"
  shows "round_shift m k \<le> 2 ^ p - 1"
proof -
  have q: "m div 2 ^ k \<le> 2 ^ p - 1"
    using div_le_mono [OF assms(1), of "2 ^ k"] by simp
  show ?thesis
  proof (cases "m div 2 ^ k = 2 ^ p - 1")
    case True
    have "m = m div 2 ^ k * 2 ^ k + m mod 2 ^ k" by (rule div_mult_mod_eq [symmetric])
    with assms(1) True have "m mod 2 ^ k = 0" by (metis add_le_same_cancel1 le_zero_eq)
    with True show ?thesis by (auto simp: round_shift_def Let_def)
  next
    case False
    with q have "Suc (m div 2 ^ k) \<le> 2 ^ p - 1" by simp
    then show ?thesis by (auto simp: round_shift_def Let_def)
  qed
qed

lemma fp_round_within:
  assumes f: "sound_format f" and le: "\<not> fp_less (fp_max f) (Fin False m e)"
  shows "isfinite (fp_round f (Fin s m e)) \<and> fp_in f (fp_round f (Fin s m e))"
proof (cases "m = 0")
  case True
  then show ?thesis by (simp add: round_shift_def Let_def)
next
  case False
  define k where "k = nat (max (int (bitlen m) - int (prec f)) (emin f - e))"
  define m' where "m' = round_shift m k"
  define e' where "e' = e + int k"
  have a: "int (bitlen m) + e \<le> int (prec f) + emax f" using within_max(1) [OF le] False by simp
  have k: "int (bitlen m) \<le> int (prec f) + int k" "emin f \<le> e'"
    unfolding k_def e'_def by arith+
  then have "bitlen m \<le> prec f + k" by linarith
  then have m': "m' \<le> 2 ^ prec f" unfolding m'_def by (rule round_shift_le)
  have e': "k = 0 \<or> e' = e + int (bitlen m) - int (prec f) \<or> e' = emin f"
    unfolding e'_def k_def by (auto simp: max_def)
  have fits: "int (bitlen m') + e' \<le> int (prec f) + emax f"
  proof (cases "k = 0")
    case True
    with a show ?thesis by (simp add: m'_def e'_def round_shift_def)
  next
    case False
    with e' a f have top: "e' \<le> emax f" by (auto simp: sound_format_def)
    show ?thesis
    proof (cases "e' = emax f")
      case True
      then have "nat (emax f - e) = k" "e \<le> emax f" by (simp_all add: e'_def)
      with within_max(2) [OF le] have "m \<le> (2 ^ prec f - 1) * 2 ^ k" by simp
      then have "m' \<le> 2 ^ prec f - 1"
        unfolding m'_def using f by (intro round_shift_top) (simp_all add: sound_format_def)
      then have "m' < 2 ^ prec f" by (metis le_imp_less_Suc Suc_pred' zero_less_numeral zero_less_power)
      with True show ?thesis by (simp add: bitlen_le_iff [symmetric])
    next
      case False
      have "m' < 2 ^ Suc (prec f)" using m' by (rule le_less_trans) simp
      then have "bitlen m' \<le> Suc (prec f)" by (simp only: bitlen_le_iff)
      with False top show ?thesis by linarith
    qed
  qed
  then have "fp_round f (Fin s m e) = fp_norm s m' e'"
    by (simp add: Let_def not_less flip: k_def m'_def e'_def)
  moreover have "fp_in f (fp_norm s m' e')"
    using m' k(2) fits f by (intro fp_norm_in) (simp_all add: sound_format_def)
  ultimately show ?thesis by simp
qed

text \<open>
  Decoding a \<open>float\<close> or a \<open>double\<close> never produces an infinity or a NaN from a JSON number:
  those values come only from their three agreed strings, and every accepted number yields a
  finite value of the format (the bound check leaves the narrowing cast no room to overflow).
\<close>

theorem fp_decode_never_overflows:
  assumes "f = binary32 \<or> f = binary64" and "fp_decode f j c = (Ok x, c')"
  shows "fp_in f x \<and> c' = c \<and>
     (isfinite x \<longleftrightarrow> j \<notin> {JString ''NaN'', JString ''Infinity'', JString ''-Infinity''})"
proof -
  have f: "sound_format f" using assms(1) by auto
  have finish: "isfinite y \<and> fp_in f y" if "fp_finish f staged = Ok y" for staged y
  proof -
    from that have "isfinite staged" "\<not> fp_less (fp_max f) (fp_abs staged)" "y = fp_round f staged"
      by (auto simp: fp_finish_def split: if_splits)
    then show ?thesis using fp_round_within [OF f] by (cases staged) (auto simp del: fp_round.simps)
  qed
  show ?thesis
    using assms(2) finish
    by (cases j) (auto simp: fp_decode_def failing_def split: if_splits)
qed

lemma fp_decode_never_overflows_witness:
  "fp_decode binary32 (JDouble (Fin False 16777217 0)) default_context = (Ok (Fin False 1 24), default_context) \<and>
   fp_in binary32 (Fin False 1 24) \<and> isfinite (Fin False 1 24)"
proof -
  have "fp_decode binary32 (JDouble (Fin False 16777217 0)) default_context = (Ok (Fin False 1 24), default_context)"
    by (simp add: fp_decode_def failing_def fp_finish_def binary32_def fp_max_def scaled_def bitlen.simps
        round_shift_def Let_def fp_norm.simps)
  with fp_decode_never_overflows [OF _ this] show ?thesis by simp
qed

end
