(* ===== verification/Typed_Codec.thy ===== *)
theory Typed_Codec
  imports Numeric_Codec
begin

text \<open>
  The conversions of \<open>typed_codec.hpp\<close> for strings and containers, their composition at an
  arbitrary C++ type, and \<open>TypedTypeCodec\<close>, which applies a conversion to RTT data sources.

  \<open>conversion\<close> is the contract of \<open>JsonConversion<T>\<close> that the container conversions rely on:
  what it keeps of the context, and that what it encodes it also decodes.
\<close>

section \<open>Strings\<close>

definition char_size :: "char \<Rightarrow> nat" where
  "char_size ch = (if ch = CHR 0x22 \<or> ch = CHR 0x5C then 2 else if byte ch < 0x20 then 6 else 1)"

fun account_chars :: "string \<Rightarrow> unit codec" where
  "account_chars [] = return ()"
| "account_chars (ch # s) = bind_codec (account (char_size ch)) (\<lambda>_. account_chars s)"

definition accountJsonString :: "string \<Rightarrow> unit codec" where
  "accountJsonString s =
     (if \<not> validUtf8 s then failing (codecFailure InvalidUtf8)
      else bind_codec (account 2) (\<lambda>_. account_chars s))"

definition string_encode :: "string \<Rightarrow> json codec" where
  "string_encode s = bind_codec (accountJsonString s) (\<lambda>_. return (JString s))"

definition string_decode :: "json \<Rightarrow> string codec" where
  "string_decode j =
     (case j of
        JString s \<Rightarrow> bind_codec (accountJsonString s) (\<lambda>_. return s)
      | _ \<Rightarrow> failing (codecFailure TypeMismatch))"

section \<open>Containers\<close>

definition vector_encode :: "('v \<Rightarrow> json codec) \<Rightarrow> 'v list \<Rightarrow> json codec" where
  "vector_encode enc vs = scoped
     (bind_codec (account 2) (\<lambda>_.
      bind_codec (account (if vs = [] then 0 else length vs - 1)) (\<lambda>_ c.
        if maxDocumentBytes (limits c) < length vs then (codecFailure DocumentLimit, c)
        else bind_codec (map_codec enc vs) (\<lambda>js. return (JArray js)) c)))"

definition vector_decode :: "(json \<Rightarrow> 'v codec) \<Rightarrow> json \<Rightarrow> 'v list codec" where
  "vector_decode dec j = scoped
     (case j of
        JArray js \<Rightarrow> bind_codec (account (length js)) (\<lambda>_. map_codec dec js)
      | _ \<Rightarrow> failing (codecFailure TypeMismatch))"

definition array_encode :: "('v \<Rightarrow> json codec) \<Rightarrow> nat \<Rightarrow> 'v list \<Rightarrow> json codec" where
  "array_encode enc n vs = scoped
     (bind_codec (account (if n \<noteq> 0 then n + 1 else 2)) (\<lambda>_.
      bind_codec (map_codec enc vs) (\<lambda>js. return (JArray js))))"

definition array_decode :: "(json \<Rightarrow> 'v codec) \<Rightarrow> nat \<Rightarrow> json \<Rightarrow> 'v list codec" where
  "array_decode dec n j = scoped
     (case j of
        JArray js \<Rightarrow>
          if length js \<noteq> n then failing (codecFailure TypeMismatch)
          else bind_codec (account n) (\<lambda>_. map_codec dec js)
      | _ \<Rightarrow> failing (codecFailure TypeMismatch))"

section \<open>The contract of a conversion\<close>

text \<open>\<open>d\<close> has at least the nesting headroom and the byte budget of \<open>c\<close>.\<close>

definition roomy :: "codec_context \<Rightarrow> codec_context \<Rightarrow> bool" where
  "roomy c d \<longleftrightarrow> depth c \<le> maxDepth (limits c) \<and> depth d \<le> maxDepth (limits d)
     \<and> maxDepth (limits c) - depth c \<le> maxDepth (limits d) - depth d
     \<and> remaining c \<le> remaining d"

locale conversion =
  fixes encode :: "'v \<Rightarrow> json codec"
    and decode :: "json \<Rightarrow> 'v codec"
    and valid :: "'v \<Rightarrow> bool"
  assumes encode_balanced: "balanced (encode v)"
    and decode_balanced: "balanced (decode j)"
    and decode_valid: "decode j c = (Ok v, c') \<Longrightarrow> valid v"
    and roundtrip: "valid v \<Longrightarrow> encode v c = (Ok j, c1) \<Longrightarrow> roomy c d \<Longrightarrow>
      \<exists>d1. decode j d = (Ok v, d1) \<and> roomy c1 d1"

lemma roomy_account:
  assumes "roomy c d" "n \<le> m" "m \<le> remaining c"
  shows "n \<le> remaining d" "roomy (c\<lparr>remaining := remaining c - m\<rparr>) (d\<lparr>remaining := remaining d - n\<rparr>)"
  using assms by (auto simp: roomy_def)

lemma roomy_enter:
  assumes "roomy c d" "depth c \<noteq> maxDepth (limits c)"
  shows "depth d \<noteq> maxDepth (limits d)"
    "roomy (c\<lparr>depth := Suc (depth c)\<rparr>) (d\<lparr>depth := Suc (depth d)\<rparr>)"
  using assms by (auto simp: roomy_def)

lemma roomy_leave:
  assumes "roomy c d" "0 < depth c" "0 < depth d"
  shows "roomy (leave c) (leave d)"
  using assms by (auto simp: roomy_def leave_def)

lemma balanced_string [depth_intros, simp]:
  "balanced (accountJsonString s)" "balanced (string_encode s)" "balanced (string_decode j)"
proof -
  have chars: "balanced (account_chars s)" for s
    by (induction s) (auto intro!: depth_intros)
  then show a: "balanced (accountJsonString s)" for s
    unfolding accountJsonString_def by (auto intro!: depth_intros)
  show "balanced (string_encode s)"
    unfolding string_encode_def by (intro depth_intros a)
  show "balanced (string_decode j)"
    unfolding string_decode_def by (auto intro!: depth_intros a split: json.split)
qed

lemma balanced_containers [depth_intros]:
  assumes "\<And>v. balanced (enc v)" "\<And>j. balanced (dec j)"
  shows "balanced (vector_encode enc vs)" "balanced (vector_decode dec j)"
    "balanced (array_encode enc n vs)" "balanced (array_decode dec n j)"
proof -
  have enc: "balanced (bind_codec (map_codec enc vs) (\<lambda>js. return (JArray js)))"
    by (intro depth_intros assms)
  then have "balanced (\<lambda>c. if maxDocumentBytes (limits c) < length vs then (codecFailure DocumentLimit, c)
        else bind_codec (map_codec enc vs) (\<lambda>js. return (JArray js)) c)"
    by (intro balancedI) (auto dest: balancedD split: if_splits)
  then show "balanced (vector_encode enc vs)"
    unfolding vector_encode_def by (intro depth_intros)
  show "balanced (array_encode enc n vs)"
    unfolding array_encode_def by (intro depth_intros assms)
  show "balanced (vector_decode dec j)" "balanced (array_decode dec n j)"
    unfolding vector_decode_def array_decode_def
    by (auto intro!: depth_intros assms split: json.split)
qed

context conversion
begin

lemma map_roundtrip:
  "list_all valid vs \<Longrightarrow> map_codec encode vs c = (Ok js, c1) \<Longrightarrow> roomy c d \<Longrightarrow>
     \<exists>d1. map_codec decode js d = (Ok vs, d1) \<and> roomy c1 d1"
proof (induction vs arbitrary: c js d)
  case Nil
  then show ?case by (auto simp: codec_simps)
next
  case (Cons v vs)
  then obtain j js' c' where j: "encode v c = (Ok j, c')" "map_codec encode vs c' = (Ok js', c1)"
    "js = j # js'" by (auto simp: codec_simps)
  with Cons.prems roundtrip obtain d' where d': "decode j d = (Ok v, d')" "roomy c' d'" by fastforce
  with Cons j obtain d1 where "map_codec decode js' d' = (Ok vs, d1)" "roomy c1 d1" by fastforce
  with d' j(3) show ?case by (auto simp: bind_codec_Ok return_def)
qed

lemma map_decode_valid: "map_codec decode js c = (Ok vs, c') \<Longrightarrow> list_all valid vs \<and> length vs = length js"
proof (induction js arbitrary: c vs)
  case (Cons j js)
  then show ?case by (auto simp: codec_simps dest: decode_valid)
qed (simp add: codec_simps)

lemma map_encode_length: "map_codec encode vs c = (Ok js, c') \<Longrightarrow> length js = length vs"
  by (induction vs arbitrary: c js) (auto simp: codec_simps)

lemma scoped_map_roundtrip:
  assumes "list_all valid vs" and "roomy c d" and "depth c \<noteq> maxDepth (limits c)"
    and "n \<le> m" "m \<le> remaining c"
    and "map_codec encode vs (c\<lparr>depth := Suc (depth c), remaining := remaining c - m\<rparr>) = (Ok js, c2)"
  shows "\<exists>d1. scoped (bind_codec (account n) (\<lambda>_. map_codec decode js)) d = (Ok vs, d1) \<and> roomy (leave c2) d1"
proof -
  note enter = roomy_enter [OF assms(2,3)]
  have m: "m \<le> remaining (c\<lparr>depth := Suc (depth c)\<rparr>)" using assms(5) by simp
  note acc = roomy_account [OF enter(2) assms(4) m]
  from map_roundtrip [OF assms(1) _ acc(2)] assms(6) obtain d2 where d2:
    "map_codec decode js (d\<lparr>depth := Suc (depth d), remaining := remaining d - n\<rparr>) = (Ok vs, d2)" "roomy c2 d2"
    by auto
  have "0 < depth c2"
    using balancedD [OF balanced_map_codec assms(6)] encode_balanced by (simp add: kept_def)
  moreover have "0 < depth d2"
    using balancedD [OF balanced_map_codec d2(1)] decode_balanced by (simp add: kept_def)
  ultimately have "roomy (leave c2) (leave d2)" using d2(2) by (intro roomy_leave)
  moreover have "scoped (bind_codec (account n) (\<lambda>_. map_codec decode js)) d = (Ok vs, leave d2)"
    using enter(1) acc(1) d2(1) by (auto simp: codec_simps)
  ultimately show ?thesis by blast
qed

lemma vector_conversion: "conversion (vector_encode encode) (vector_decode decode) (list_all valid)"
proof
  fix v j c c'
  show "balanced (vector_encode encode v)" "balanced (vector_decode decode j)"
    by (intro balanced_containers [where enc = encode and dec = decode] encode_balanced decode_balanced)+
  show "vector_decode decode j c = (Ok v, c') \<Longrightarrow> list_all valid v"
    by (auto simp: vector_decode_def codec_simps dest: map_decode_valid split: json.splits)
next
  fix vs c j c1 d
  assume ok: "list_all valid vs" and enc: "vector_encode encode vs c = (Ok j, c1)" and room: "roomy c d"
  define m where "m = (if vs = [] then 2 else length vs + 1)"
  from enc obtain js c2 where js: "j = JArray js" "c1 = leave c2" "depth c \<noteq> maxDepth (limits c)"
    "m \<le> remaining c"
    "map_codec encode vs (c\<lparr>depth := Suc (depth c), remaining := remaining c - m\<rparr>) = (Ok js, c2)"
    by (cases vs) (auto simp: vector_encode_def codec_simps m_def split: if_splits)
  have "length js \<le> m" using map_encode_length [OF js(5)] by (simp add: m_def)
  from scoped_map_roundtrip [OF ok room js(3) this js(4,5)] js(1,2)
  show "\<exists>d1. vector_decode decode j d = (Ok vs, d1) \<and> roomy c1 d1"
    by (simp add: vector_decode_def)
qed

lemma array_conversion:
  "conversion (array_encode encode n) (array_decode decode n) (\<lambda>vs. length vs = n \<and> list_all valid vs)"
proof
  fix v j c c'
  show "balanced (array_encode encode n v)" "balanced (array_decode decode n j)"
    by (intro balanced_containers [where enc = encode and dec = decode] encode_balanced decode_balanced)+
  show "array_decode decode n j c = (Ok v, c') \<Longrightarrow> length v = n \<and> list_all valid v"
    by (auto simp: array_decode_def codec_simps dest: map_decode_valid split: json.splits if_splits)
next
  fix vs c j c1 d
  assume ok: "length vs = n \<and> list_all valid vs" and enc: "array_encode encode n vs c = (Ok j, c1)"
    and room: "roomy c d"
  define m where "m = (if n \<noteq> 0 then n + 1 else 2)"
  from enc obtain js c2 where js: "j = JArray js" "c1 = leave c2" "depth c \<noteq> maxDepth (limits c)"
    "m \<le> remaining c"
    "map_codec encode vs (c\<lparr>depth := Suc (depth c), remaining := remaining c - m\<rparr>) = (Ok js, c2)"
    unfolding array_encode_def m_def [symmetric] by (auto simp: codec_simps)
  have len: "length js = n" using map_encode_length [OF js(5)] ok by simp
  have "n \<le> m" by (simp add: m_def)
  from scoped_map_roundtrip [OF _ room js(3) this js(4,5)] ok js(1,2) len
  show "\<exists>d1. array_decode decode n j d = (Ok vs, d1) \<and> roomy c1 d1"
    by (simp add: array_decode_def)
qed

end

section \<open>The primitive conversions satisfy the contract\<close>

lemma account_chars_Ok:
  "account_chars s c = (Ok u, c') \<longleftrightarrow>
     sum_list (map char_size s) \<le> remaining c \<and> c' = c\<lparr>remaining := remaining c - sum_list (map char_size s)\<rparr>"
  by (induction s arbitrary: c) (auto simp: codec_simps)

text \<open>
  \<open>accountJsonString\<close> accepts exactly the valid UTF-8 strings whose JSON text, counted
  with its two quotes, two bytes for a quote or backslash and six for a control character,
  fits the remaining budget, and then charges exactly that many bytes.
\<close>

theorem accountJsonString_exact:
  "accountJsonString s c = (Ok u, c') \<longleftrightarrow>
     validUtf8 s \<and> 2 + sum_list (map char_size s) \<le> remaining c
     \<and> c' = c\<lparr>remaining := remaining c - (2 + sum_list (map char_size s))\<rparr>"
  by (auto simp: accountJsonString_def codec_simps account_chars_Ok)

lemma string_encode_Ok:
  "string_encode s c = (Ok j, c') \<longleftrightarrow> j = JString s \<and> validUtf8 s \<and>
     2 + sum_list (map char_size s) \<le> remaining c
     \<and> c' = c\<lparr>remaining := remaining c - (2 + sum_list (map char_size s))\<rparr>"
  by (auto simp: string_encode_def accountJsonString_def codec_simps account_chars_Ok)

lemma string_decode_Ok:
  "string_decode j c = (Ok s, c') \<longleftrightarrow> j = JString s \<and> validUtf8 s \<and>
     2 + sum_list (map char_size s) \<le> remaining c
     \<and> c' = c\<lparr>remaining := remaining c - (2 + sum_list (map char_size s))\<rparr>"
  by (auto simp: string_decode_def accountJsonString_def codec_simps account_chars_Ok split: json.splits)

lemma string_conversion: "conversion string_encode string_decode validUtf8"
proof
  fix s c j c1 d
  assume "string_encode s c = (Ok j, c1)" and room: "roomy c d"
  then have j: "j = JString s" "validUtf8 s" "2 + sum_list (map char_size s) \<le> remaining c"
    "c1 = c\<lparr>remaining := remaining c - (2 + sum_list (map char_size s))\<rparr>"
    by (auto simp: string_encode_Ok)
  with roomy_account [OF room order.refl j(3)] show "\<exists>d1. string_decode j d = (Ok s, d1) \<and> roomy c1 d1"
    by (auto simp: string_decode_Ok)
qed (auto simp: string_decode_Ok)

lemma int_conversion:
  assumes t: "cpp_int_type t"
  shows "conversion (int_encode t) (int_decode t) (in_range t)"
proof
  fix v j c c'
  show "balanced (int_encode t v)" "balanced (int_decode t j)" by simp_all
  show "in_range t v" if "int_decode t j c = (Ok v, c')"
  proof (cases "bits t = 64")
    case True
    with that show ?thesis by (simp add: int_decode_64_exact)
  next
    case False
    with t that show ?thesis by (simp add: int_decode_narrow_exact cpp_int_type_def)
  qed
next
  fix v c j c1 d
  assume v: "in_range t v" and "int_encode t v c = (Ok j, c1)" and room: "roomy c d"
  then obtain m where m: "m \<le> remaining c" "c1 = c\<lparr>remaining := remaining c - m\<rparr>"
    and j: "j = (if bits t = 64 then JString (to_chars v)
      else if signed t then JInt64 (word_of_int v) else JUint64 (word_of_int v))"
    by (auto simp: int_encode_def codec_simps)
  have "int_decode t j d = (Ok v, d)"
  proof (cases "bits t = 64")
    case False
    with t have t': "bits t \<in> {8, 16, 32}" by (simp add: cpp_int_type_def)
    then have "signed t \<Longrightarrow> sint (word_of_int v :: u64) = v" "\<not> signed t \<Longrightarrow> uint (word_of_int v :: u64) = v"
      using v by (auto simp: in_range_def imin_def imax_def unsigned_of_int take_bit_int_eq_self
          signed_of_int signed_take_bit_int_eq_self split: if_splits)
    with v j False t' show ?thesis by (auto simp: int_decode_narrow_exact [OF t'])
  qed (use v j in \<open>simp add: int_decode_64_exact\<close>)
  moreover have "roomy c1 d" using room m by (auto simp: roomy_def)
  ultimately show "\<exists>d1. int_decode t j d = (Ok v, d1) \<and> roomy c1 d1" by blast
qed

lemma bool_conversion: "conversion bool_encode bool_decode (\<lambda>b. True)"
proof
  fix v c j c1 d
  assume "bool_encode v c = (Ok j, c1)" "roomy c d"
  then have "bool_decode j d = (Ok v, d) \<and> roomy c1 d"
    by (auto simp: bool_encode_def bool_decode_def codec_simps roomy_def split: if_splits)
  then show "\<exists>d1. bool_decode j d = (Ok v, d1) \<and> roomy c1 d1" by blast
qed simp_all

lemma enum_conversion:
  assumes t: "cpp_int_type t"
  shows "conversion (enum_encode t) (enum_decode t t) (in_range t)"
proof -
  note ints = int_conversion [OF t]
  have dec: "enum_decode t t j = int_decode t j" for j
  proof
    fix c
    show "enum_decode t t j c = int_decode t j c"
      using conversion.decode_valid [OF ints, of j c] cast_int_id [OF t]
      by (auto simp: enum_decode_def bind_codec_def return_def split: prod.splits res.splits)
  qed
  have enc: "enum_encode t v = int_encode t v" if "in_range t v" for v
    using cast_int_id [OF t that] by (simp add: enum_encode_def)
  show ?thesis
    by unfold_locales
      (auto simp: dec enc dest: conversion.decode_valid [OF ints] conversion.roundtrip [OF ints])
qed

text \<open>A finite value of a format is within the bound that \<open>decode\<close> checks.\<close>

lemma fp_in_within:
  assumes "fp_in f (Fin s m e)" "sound_format f"
  shows "\<not> fp_less (fp_max f) (Fin False m e)"
proof (cases "m = 0")
  case True
  then show ?thesis by (simp add: fp_max_def scaled_def not_less)
next
  case False
  let ?k = "min e (emax f)"
  have m: "bitlen m \<le> prec f" "int (bitlen m) + e \<le> int (prec f) + emax f"
    using assms False by auto
  have "m * 2 ^ nat (e - ?k) \<le> (2 ^ prec f - 1) * 2 ^ nat (emax f - ?k)"
  proof (cases "e \<le> emax f")
    case True
    have "m < 2 ^ prec f" using m(1) by (simp add: bitlen_le_iff)
    then have "m * 1 \<le> (2 ^ prec f - 1) * 2 ^ nat (emax f - e)"
      by (intro mult_le_mono) auto
    with True show ?thesis by (simp add: min_def)
  next
    case gt: False
    then have "bitlen (m * 2 ^ nat (e - emax f)) \<le> prec f"
      using m(2) False by (simp add: bitlen_shift)
    then have "m * 2 ^ nat (e - emax f) < 2 ^ prec f" by (simp only: bitlen_le_iff)
    with gt show ?thesis by (simp add: min_def)
  qed
  then have "int (m * 2 ^ nat (e - ?k)) \<le> int ((2 ^ prec f - 1) * 2 ^ nat (emax f - ?k))"
    by (simp only: of_nat_le_iff)
  then show ?thesis
    by (simp add: fp_max_def scaled_def not_less min.commute of_nat_diff)
qed

lemma fp_conversion:
  assumes "f = binary32 \<or> f = binary64"
  shows "conversion fp_encode (fp_decode f) (fp_in f)"
proof
  fix v j c c'
  show "balanced (fp_encode v)" "balanced (fp_decode f j)" by simp_all
  have f: "sound_format f" using assms by auto
  show "fp_in f v" if "fp_decode f j c = (Ok v, c')"
  proof -
    have fin: "fp_in f y" if "fp_finish f staged = Ok y" for staged y
    proof -
      from that have "isfinite staged" "\<not> fp_less (fp_max f) (fp_abs staged)" "y = fp_round f staged"
        by (auto simp: fp_finish_def split: if_splits)
      then show ?thesis using fp_round_within [OF f] by (cases staged) (auto simp del: fp_round.simps)
    qed
    then show ?thesis
      using that by (cases j) (auto simp: fp_decode_def failing_def split: if_splits)
  qed
next
  fix v c j c1 d
  have f: "sound_format f" using assms by auto
  assume v: "fp_in f v" and "fp_encode v c = (Ok j, c1)" and "roomy c d"
  then have room: "roomy c1 d" and j: "j = (if isnan v then JString ''NaN''
      else if isinf v then JString (if signbit v then ''-Infinity'' else ''Infinity'') else JDouble v)"
    by (auto simp: fp_encode_def codec_simps roomy_def)
  have "fp_decode f j d = (Ok v, d)"
  proof (cases v)
    case (Fin s m e)
    then show ?thesis
      using j fp_in_within [OF v [unfolded Fin] f] fp_round_exact [OF v]
      by (simp add: fp_decode_def fp_finish_def failing_def del: fp_round.simps)
  qed (use j in \<open>simp_all add: fp_decode_def failing_def\<close>)
  with room show "\<exists>d1. fp_decode f j d = (Ok v, d1) \<and> roomy c1 d1" by blast
qed

interpretation bools: conversion bool_encode bool_decode "\<lambda>b. True"
  by (rule bool_conversion)

interpretation strings: conversion string_encode string_decode validUtf8
  by (rule string_conversion)

interpretation float32: conversion fp_encode "fp_decode binary32" "fp_in binary32"
  by (rule fp_conversion) simp

interpretation float64: conversion fp_encode "fp_decode binary64" "fp_in binary64"
  by (rule fp_conversion) simp

section \<open>Conversions at every type\<close>

text \<open>
  The types a conversion can be instantiated at, the values of those types, and the selection
  of a conversion by type, which is the resolution of the template \<open>JsonConversion<T>\<close>.  The
  operations are only applied to values of their type; \<open>ill_typed\<close> stands for the
  instantiations that do not compile.
\<close>

datatype cpp_type = BoolType | IntType int_type | EnumType int_type | FloatType fp_format
  | StringType | VectorType cpp_type | ArrayType nat cpp_type

datatype cpp_value = VBool bool | VInt int | VFloat fp | VString string | VSeq "cpp_value list"

definition ill_typed :: "'a codec" where
  "ill_typed = failing (Fail None)"

definition wrapped :: "('v \<Rightarrow> cpp_value) \<Rightarrow> (json \<Rightarrow> 'v codec) \<Rightarrow> json \<Rightarrow> cpp_value codec" where
  "wrapped k dec j = bind_codec (dec j) (\<lambda>v. return (k v))"

fun encode_value :: "cpp_type \<Rightarrow> cpp_value \<Rightarrow> json codec" where
  "encode_value BoolType v = (case v of VBool b \<Rightarrow> bool_encode b | _ \<Rightarrow> ill_typed)"
| "encode_value (IntType t) v = (case v of VInt i \<Rightarrow> int_encode t i | _ \<Rightarrow> ill_typed)"
| "encode_value (EnumType t) v = (case v of VInt i \<Rightarrow> enum_encode t i | _ \<Rightarrow> ill_typed)"
| "encode_value (FloatType f) v = (case v of VFloat x \<Rightarrow> fp_encode x | _ \<Rightarrow> ill_typed)"
| "encode_value StringType v = (case v of VString s \<Rightarrow> string_encode s | _ \<Rightarrow> ill_typed)"
| "encode_value (VectorType t) v =
     (case v of VSeq vs \<Rightarrow> vector_encode (encode_value t) vs | _ \<Rightarrow> ill_typed)"
| "encode_value (ArrayType n t) v =
     (case v of VSeq vs \<Rightarrow> array_encode (encode_value t) n vs | _ \<Rightarrow> ill_typed)"

fun decode_value :: "cpp_type \<Rightarrow> json \<Rightarrow> cpp_value codec" where
  "decode_value BoolType = wrapped VBool bool_decode"
| "decode_value (IntType t) = wrapped VInt (int_decode t)"
| "decode_value (EnumType t) = wrapped VInt (enum_decode t t)"
| "decode_value (FloatType f) = wrapped VFloat (fp_decode f)"
| "decode_value StringType = wrapped VString string_decode"
| "decode_value (VectorType t) = wrapped VSeq (vector_decode (decode_value t))"
| "decode_value (ArrayType n t) = wrapped VSeq (array_decode (decode_value t) n)"

fun has_type :: "cpp_type \<Rightarrow> cpp_value \<Rightarrow> bool" where
  "has_type BoolType v = (case v of VBool b \<Rightarrow> True | _ \<Rightarrow> False)"
| "has_type (IntType t) v = (case v of VInt i \<Rightarrow> in_range t i | _ \<Rightarrow> False)"
| "has_type (EnumType t) v = (case v of VInt i \<Rightarrow> in_range t i | _ \<Rightarrow> False)"
| "has_type (FloatType f) v = (case v of VFloat x \<Rightarrow> fp_in f x | _ \<Rightarrow> False)"
| "has_type StringType v = (case v of VString s \<Rightarrow> validUtf8 s | _ \<Rightarrow> False)"
| "has_type (VectorType t) v = (case v of VSeq vs \<Rightarrow> list_all (has_type t) vs | _ \<Rightarrow> False)"
| "has_type (ArrayType n t) v =
     (case v of VSeq vs \<Rightarrow> length vs = n \<and> list_all (has_type t) vs | _ \<Rightarrow> False)"

fun cpp_type_ok :: "cpp_type \<Rightarrow> bool" where
  "cpp_type_ok (IntType t) = cpp_int_type t"
| "cpp_type_ok (EnumType t) = cpp_int_type t"
| "cpp_type_ok (FloatType f) = (f = binary32 \<or> f = binary64)"
| "cpp_type_ok (VectorType t) = cpp_type_ok t"
| "cpp_type_ok (ArrayType n t) = cpp_type_ok t"
| "cpp_type_ok _ = True"

lemma balanced_ill_typed [simp]: "balanced ill_typed"
  by (simp add: ill_typed_def)

lemma conversion_wrap:
  assumes conv: "conversion enc dec ok"
    and enc': "\<And>v. enc' (k v) = enc v" "\<And>w. balanced (enc' w)"
    and ok': "\<And>w. ok' w \<longleftrightarrow> (\<exists>v. w = k v \<and> ok v)"
  shows "conversion enc' (wrapped k dec) ok'"
proof
  fix w j c c'
  show "balanced (enc' w)" by (rule enc'(2))
  show "balanced (wrapped k dec j)"
    unfolding wrapped_def by (intro depth_intros conversion.decode_balanced [OF conv])
  show "wrapped k dec j c = (Ok w, c') \<Longrightarrow> ok' w"
    by (auto simp: wrapped_def codec_simps ok' dest: conversion.decode_valid [OF conv])
next
  fix w c j c1 d
  assume "ok' w" "enc' w c = (Ok j, c1)" "roomy c d"
  then obtain v where v: "w = k v" "ok v" "enc v c = (Ok j, c1)" by (auto simp: ok' enc'(1))
  then show "\<exists>d1. wrapped k dec j d = (Ok w, d1) \<and> roomy c1 d1"
    using conversion.roundtrip [OF conv v(2,3) \<open>roomy c d\<close>] by (auto simp: wrapped_def codec_simps)
qed

lemma conversion_value: "cpp_type_ok t \<Longrightarrow> conversion (encode_value t) (decode_value t) (has_type t)"
proof (induction t)
  case BoolType
  show ?case
    by (simp only: decode_value.simps, rule conversion_wrap [OF bool_conversion]) (auto split: cpp_value.splits)
next
  case (IntType t)
  then have ok: "cpp_int_type t" by simp
  show ?case
    by (simp only: decode_value.simps, rule conversion_wrap [OF int_conversion [OF ok]]) (auto split: cpp_value.splits)
next
  case (EnumType t)
  then have ok: "cpp_int_type t" by simp
  show ?case
    by (simp only: decode_value.simps, rule conversion_wrap [OF enum_conversion [OF ok]]) (auto split: cpp_value.splits)
next
  case (FloatType f)
  then have ok: "f = binary32 \<or> f = binary64" by simp
  show ?case
    by (simp only: decode_value.simps, rule conversion_wrap [OF fp_conversion [OF ok]]) (auto split: cpp_value.splits)
next
  case StringType
  show ?case
    by (simp only: decode_value.simps, rule conversion_wrap [OF string_conversion]) (auto split: cpp_value.splits)
next
  case (VectorType t)
  then have "conversion (encode_value t) (decode_value t) (has_type t)" by simp
  note elements = conversion.vector_conversion [OF this]
  show ?case
    using conversion.encode_balanced [OF elements]
    by (simp only: decode_value.simps, intro conversion_wrap [OF elements]) (auto split: cpp_value.splits)
next
  case (ArrayType n t)
  then have "conversion (encode_value t) (decode_value t) (has_type t)" by simp
  note elements = conversion.array_conversion [OF this, of n]
  show ?case
    using conversion.encode_balanced [OF elements]
    by (simp only: decode_value.simps, intro conversion_wrap [OF elements]) (auto split: cpp_value.splits)
qed

text \<open>
  C20: whatever the conversion of a type emits for a value of the type, the same conversion
  reads back as that value, in any context with at least the room the encoder had: values
  survive a GET followed by a PUT, at every nesting of vectors and arrays.
\<close>

theorem conversion_roundtrip:
  assumes "cpp_type_ok t" and "has_type t v" and "encode_value t v c = (Ok j, c1)" and "roomy c d"
  shows "\<exists>d1. decode_value t j d = (Ok v, d1)"
  using conversion.roundtrip [OF conversion_value [OF assms(1)] assms(2-4)] by blast

definition roomy_context :: codec_context where
  "roomy_context = \<lparr>limits = \<lparr>maxDocumentBytes = 100, maxDepth = 2, maxAllocationBytes = 800\<rparr>,
     storage = 1, depth = 0, remaining = 100\<rparr>"

lemma conversion_roundtrip_witness:
  "\<exists>d1. decode_value (VectorType (VectorType (FloatType binary64)))
      (JArray [JArray [JDouble (Fin True 3 (- 1)), JString ''NaN''], JArray []]) roomy_context =
    (Ok (VSeq [VSeq [VFloat (Fin True 3 (- 1)), VFloat NaN], VSeq []]), d1)"
proof (rule conversion_roundtrip)
  show "encode_value (VectorType (VectorType (FloatType binary64)))
      (VSeq [VSeq [VFloat (Fin True 3 (- 1)), VFloat NaN], VSeq []]) roomy_context =
    (Ok (JArray [JArray [JDouble (Fin True 3 (- 1)), JString ''NaN''], JArray []]),
     roomy_context\<lparr>remaining := 90\<rparr>)"
    by (simp add: roomy_context_def vector_encode_def scoped_def enter_def leave_def account_def
        bind_codec_def return_def fp_encode_def)
qed (simp_all add: roomy_def roomy_context_def binary64_def bitlen.simps)

text \<open>
  Whatever a client sends, a conversion ends at the nesting depth it started at, with no
  more budget than before, on success and on every error; and what it accepts is a value of
  the type.
\<close>

theorem decode_value_safe:
  assumes "cpp_type_ok t" and "decode_value t j c = (r, c')"
  shows "kept c c' \<and> (case r of Ok v \<Rightarrow> has_type t v | Fail e \<Rightarrow> True)"
  using assms conversion.decode_valid [OF conversion_value] balancedD
    conversion.decode_balanced [OF conversion_value] by (fastforce split: res.splits)

lemma decode_value_safe_witness:
  "decode_value (VectorType BoolType) (JArray [JBool True, JNull]) roomy_context =
     (codecFailure TypeMismatch, roomy_context\<lparr>remaining := 98\<rparr>)
   \<and> kept roomy_context (roomy_context\<lparr>remaining := 98\<rparr>)"
proof -
  have run: "decode_value (VectorType BoolType) (JArray [JBool True, JNull]) roomy_context =
     (codecFailure TypeMismatch, roomy_context\<lparr>remaining := 98\<rparr>)"
    by (simp add: roomy_context_def wrapped_def vector_decode_def scoped_def enter_def leave_def account_def
        bind_codec_def return_def bool_decode_def failing_def codecFailure_def codecFailureAt_def)
  from decode_value_safe [OF _ run] show ?thesis using run by simp
qed

section \<open>TypedTypeCodec\<close>

text \<open>
  A data source as the codec of type \<open>T\<close> sees it: \<open>content\<close> is its value if it is a data source
  of \<open>T\<close> (the \<open>dynamic_cast\<close>), \<open>evaluates\<close> whether evaluation succeeds, \<open>writable\<close> whether it is
  an \<open>AssignableDataSource<T>\<close>.  A null pointer is an absent source.  A JSON result is absent
  for a null pointer, otherwise its allocation resource and content.
\<close>

record 'v data_source =
  content :: "'v option"
  evaluates :: bool
  writable :: bool

datatype port_value_status = PortValue | WaitingForInitialData | PortError

type_synonym json_result = "(nat \<times> json) option"

definition usable_result :: "codec_context \<Rightarrow> json_result \<Rightarrow> bool" where
  "usable_result c result = (case result of None \<Rightarrow> False | Some (store, old) \<Rightarrow> store = storage c)"

definition typed_content :: "'v data_source option \<Rightarrow> 'v option" where
  "typed_content src = (case src of None \<Rightarrow> None | Some s \<Rightarrow> content s)"

definition typed_toJson :: "('v \<Rightarrow> json codec) \<Rightarrow> 'v data_source option \<Rightarrow> json_result \<Rightarrow> codec_context \<Rightarrow>
    unit res \<times> json_result \<times> codec_context" where
  "typed_toJson enc src result c =
     (case typed_content src of
        None \<Rightarrow> (codecFailure InvalidDataSource, result, c)
      | Some v \<Rightarrow>
          if \<not> usable_result c result \<or> \<not> evaluates (the src)
          then (codecFailure InvalidDataSource, result, c)
          else (case enc v c of
              (Fail e, c') \<Rightarrow> (Fail e, result, c')
            | (Ok j, c') \<Rightarrow> (Ok (), map_option (\<lambda>(store, old). (store, j)) result, c')))"

text \<open>\<open>OwnedValue\<close>: owned, evaluable and assignable storage holding the decoded value.\<close>

definition owned_value :: "'v \<Rightarrow> 'v data_source" where
  "owned_value v = \<lparr>content = Some v, evaluates = True, writable = True\<rparr>"

definition typed_makeDataSource :: "(json \<Rightarrow> 'v codec) \<Rightarrow> json \<Rightarrow> 'v data_source codec" where
  "typed_makeDataSource dec j = bind_codec (dec j) (\<lambda>staged. return (owned_value staged))"

definition typed_assign :: "'v data_source option \<Rightarrow> 'v data_source option \<Rightarrow>
    unit res \<times> 'v data_source option" where
  "typed_assign staged destination =
     (case (typed_content staged, destination) of
        (Some v, Some target) \<Rightarrow>
          if content target = None \<or> \<not> writable target \<or> \<not> evaluates (the staged)
          then (codecFailure InvalidDataSource, destination)
          else (Ok (), Some (target\<lparr>content := Some v\<rparr>))
      | _ \<Rightarrow> (codecFailure InvalidDataSource, destination))"

text \<open>
  An output port as the codec sees it: \<open>None\<close> if it is not an \<open>OutputPort<T>\<close>, otherwise the last
  written sample, if there is one.
\<close>

definition typed_portValue :: "('v \<Rightarrow> json codec) \<Rightarrow> 'v option option \<Rightarrow> json_result \<Rightarrow> codec_context \<Rightarrow>
    port_value_status \<times> codec_error option \<times> json_result \<times> codec_context" where
  "typed_portValue enc port result c =
     (case port of
        None \<Rightarrow> (PortError, Some \<lparr>code = InvalidDataSource, location = []\<rparr>, result, c)
      | Some sample \<Rightarrow>
          if \<not> usable_result c result then (PortError, Some \<lparr>code = InvalidDataSource, location = []\<rparr>, result, c)
          else (case sample of
              None \<Rightarrow> (WaitingForInitialData, None, result, c)
            | Some v \<Rightarrow>
                (case enc v c of
                   (Fail e, c') \<Rightarrow> (PortError, e, result, c')
                 | (Ok j, c') \<Rightarrow> (PortValue, None, map_option (\<lambda>(store, old). (store, j)) result, c'))))"

section \<open>The interface of a type codec\<close>

text \<open>
  \<open>TypeCodec\<close> as its clients use it.  \<open>value_of\<close> observes the value a source holds, \<open>readable\<close>
  whether it can be evaluated, \<open>accepts\<close> whether a value can be assigned to it and \<open>put\<close> its
  state after that.  What a codec shows depends on the value alone; what it has shown it can
  make a source from; and a source that was made can be assigned.
\<close>

locale type_codec =
  fixes toJson :: "'s option \<Rightarrow> json_result \<Rightarrow> codec_context \<Rightarrow> unit res \<times> json_result \<times> codec_context"
    and makeDataSource :: "json \<Rightarrow> 's codec"
    and assign :: "'s option \<Rightarrow> 's option \<Rightarrow> unit res \<times> 's option"
    and value_of :: "'s \<Rightarrow> 'v option"
    and readable :: "'s \<Rightarrow> bool"
    and accepts :: "'s \<Rightarrow> bool"
    and put :: "'s \<Rightarrow> 'v \<Rightarrow> 's"
    and valid :: "'v \<Rightarrow> bool"
  assumes toJson_kept: "toJson src result c = (r, result', c') \<Longrightarrow> kept c c'"
    and make_balanced: "balanced (makeDataSource j)"
    and toJson_readable: "toJson (Some s) result c = (Ok u, result', c') \<Longrightarrow> readable s \<and> value_of s \<noteq> None"
    and toJson_value: "value_of s = value_of s' \<Longrightarrow> readable s = readable s' \<Longrightarrow>
      toJson (Some s) result c = toJson (Some s') result c"
    and make_readable: "makeDataSource j c = (Ok staged, c') \<Longrightarrow> readable staged \<and> accepts staged"
    and shown_made: "value_of s = Some v \<Longrightarrow> valid v \<Longrightarrow> toJson (Some s) result c = (Ok u, Some (n, j), c1) \<Longrightarrow>
      roomy c d \<Longrightarrow> \<exists>staged d1. makeDataSource j d = (Ok staged, d1) \<and> value_of staged = Some v"
    and assign_accepts: "value_of staged = Some v \<Longrightarrow> readable staged \<Longrightarrow> accepts b \<Longrightarrow>
      assign (Some staged) (Some b) = (Ok (), Some (put b v))"
    and put_value: "value_of (put b v) = Some v" "readable (put b v) = readable b"

context type_codec
begin

text \<open>What was shown can be made into a source and assigned, and is shown again.\<close>

lemma shown_again:
  assumes "value_of s = Some v" "valid v" "toJson (Some s) result c = (Ok u, Some (n, j), c1)" "roomy c d"
  shows "\<exists>staged d1. makeDataSource j d = (Ok staged, d1) \<and> value_of staged = Some v
    \<and> readable staged \<and> accepts staged \<and> kept d d1
    \<and> (\<forall>b. accepts b \<longrightarrow> assign (Some staged) (Some b) = (Ok (), Some (put b v))
        \<and> (readable b \<longrightarrow> toJson (Some (put b v)) result c = (Ok u, Some (n, j), c1)))"
proof -
  from shown_made [OF assms] obtain staged d1 where
    made: "makeDataSource j d = (Ok staged, d1)" "value_of staged = Some v" by blast
  have staged: "readable staged" "accepts staged" using make_readable [OF made(1)] by simp_all
  have "toJson (Some (put b v)) result c = (Ok u, Some (n, j), c1)" if "readable b" for b
    using toJson_value [of "put b v" s] toJson_readable [OF assms(3)] put_value that assms(1,3) by simp
  with made staged balancedD [OF make_balanced made(1)] assign_accepts [OF made(2) staged(1)]
  show ?thesis by blast
qed

end

definition acceptable :: "'v data_source \<Rightarrow> bool" where
  "acceptable b \<longleftrightarrow> writable b \<and> content b \<noteq> None"

lemma typed_shown_iff:
  "typed_toJson enc src result c = (Ok u, Some (n, j), c') \<longleftrightarrow>
     (\<exists>s v old. src = Some s \<and> content s = Some v \<and> evaluates s \<and> result = Some (n, old) \<and> n = storage c
        \<and> enc v c = (Ok j, c'))"
  by (auto simp: typed_toJson_def typed_content_def usable_result_def
      split: option.splits if_splits prod.splits res.splits)

lemma typed_makeDataSource_Ok:
  "typed_makeDataSource dec j c = (Ok staged, c') \<longleftrightarrow> (\<exists>v. dec j c = (Ok v, c') \<and> staged = owned_value v)"
  by (auto simp: typed_makeDataSource_def codec_simps)

lemma typed_type_codec:
  assumes "conversion enc dec ok"
  shows "type_codec (typed_toJson enc) (typed_makeDataSource dec) typed_assign content evaluates acceptable
    (\<lambda>b v. b\<lparr>content := Some v\<rparr>) ok"
proof
  fix src :: "'a data_source option" and result r result' and c c' :: codec_context
  assume "typed_toJson enc src result c = (r, result', c')"
  then show "kept c c'"
    using balancedD [OF conversion.encode_balanced [OF assms]]
    by (auto simp: typed_toJson_def split: option.splits if_splits prod.splits res.splits)
next
  fix j
  show "balanced (typed_makeDataSource dec j)"
    unfolding typed_makeDataSource_def by (intro depth_intros conversion.decode_balanced [OF assms])
next
  fix s v n j u c1 result and c d :: codec_context
  assume v: "content s = Some v" "ok v" and "typed_toJson enc (Some s) result c = (Ok u, Some (n, j), c1)"
    and room: "roomy c d"
  then have "enc v c = (Ok j, c1)" by (auto simp: typed_shown_iff)
  with conversion.roundtrip [OF assms v(2) _ room]
  show "\<exists>staged d1. typed_makeDataSource dec j d = (Ok staged, d1) \<and> content staged = Some v"
    by (auto simp: typed_makeDataSource_Ok owned_value_def)
qed (auto simp: typed_toJson_def typed_makeDataSource_Ok typed_assign_def typed_content_def owned_value_def
    acceptable_def split: option.splits if_splits prod.splits res.splits)

interpretation bool_codec: type_codec "typed_toJson bool_encode" "typed_makeDataSource bool_decode" typed_assign
    content evaluates acceptable "\<lambda>b v. b\<lparr>content := Some v\<rparr>" "\<lambda>v. True"
  by (rule typed_type_codec [OF bool_conversion])

interpretation string_codec: type_codec "typed_toJson string_encode" "typed_makeDataSource string_decode" typed_assign
    content evaluates acceptable "\<lambda>b v. b\<lparr>content := Some v\<rparr>" validUtf8
  by (rule typed_type_codec [OF string_conversion])

text \<open>
  C28: the JSON that the codec of a C++ type shows for a source can be written back.  It was
  read from a source that evaluates; it is decoded to a source of the same value, in every
  context with at least the room of the reader's; and the assignment of that source succeeds
  exactly at the assignable sources of the type, which then hold the value and, where they
  evaluate, show the same JSON, and it refuses every other destination and leaves it as it was.
  A staged source that does not evaluate is refused at every destination.
\<close>

theorem typed_replace_exact:
  assumes "cpp_type_ok t" "content s = Some v" "has_type t v"
    and "typed_toJson (encode_value t) (Some s) result c = (Ok u, Some (n, j), c1)" "roomy c d"
  shows "\<exists>staged d1. typed_makeDataSource (decode_value t) j d = (Ok staged, d1) \<and> evaluates s
    \<and> (\<forall>dest. typed_assign (Some staged) dest =
         (case dest of
            None \<Rightarrow> (codecFailure InvalidDataSource, None)
          | Some b \<Rightarrow>
              if writable b \<and> content b \<noteq> None then (Ok (), Some (b\<lparr>content := Some v\<rparr>))
              else (codecFailure InvalidDataSource, Some b)))
    \<and> (\<forall>b. evaluates b \<longrightarrow>
         typed_toJson (encode_value t) (Some (b\<lparr>content := Some v\<rparr>)) result c = (Ok u, Some (n, j), c1))
    \<and> (\<forall>dest. typed_assign (Some (staged\<lparr>evaluates := False\<rparr>)) dest = (codecFailure InvalidDataSource, dest))"
proof -
  note codec = typed_type_codec [OF conversion_value [OF assms(1)]]
  have shown: "evaluates s" "typed_toJson (encode_value t) (Some (b\<lparr>content := Some v\<rparr>)) result c = (Ok u, Some (n, j), c1)"
    if "evaluates b" for b
    using assms(2,4) that by (auto simp: typed_shown_iff)
  from type_codec.shown_again [OF codec assms(2-5)] obtain staged d1 where
    staged: "typed_makeDataSource (decode_value t) j d = (Ok staged, d1)" "content staged = Some v" "evaluates staged"
      "\<And>b. acceptable b \<Longrightarrow> typed_assign (Some staged) (Some b) = (Ok (), Some (b\<lparr>content := Some v\<rparr>))"
    by blast
  have "typed_assign (Some staged) dest = (case dest of
            None \<Rightarrow> (codecFailure InvalidDataSource, None)
          | Some b \<Rightarrow> if writable b \<and> content b \<noteq> None then (Ok (), Some (b\<lparr>content := Some v\<rparr>))
              else (codecFailure InvalidDataSource, Some b))" for dest
    using staged(4) by (auto simp: acceptable_def split: option.split) (auto simp: typed_assign_def split: option.splits)
  moreover have "typed_assign (Some (staged\<lparr>evaluates := False\<rparr>)) dest = (codecFailure InvalidDataSource, dest)" for dest
    by (auto simp: typed_assign_def split: option.split)
  moreover have "evaluates s" using assms(4) by (auto simp: typed_shown_iff)
  ultimately show ?thesis using staged(1) shown(2) by blast
qed

lemma typed_replace_exact_witness:
  "\<exists>staged d1. typed_makeDataSource (decode_value BoolType) (JBool True) roomy_context = (Ok staged, d1)
     \<and> typed_assign (Some staged) (Some (owned_value (VBool False))) = (Ok (), Some (owned_value (VBool True)))
     \<and> typed_assign (Some staged) (Some (owned_value (VBool False)\<lparr>writable := False\<rparr>)) =
         (codecFailure InvalidDataSource, Some (owned_value (VBool False)\<lparr>writable := False\<rparr>))"
proof -
  have "typed_toJson (encode_value BoolType) (Some (owned_value (VBool True))) (Some (1, JNull)) roomy_context =
    (Ok (), Some (1, JBool True), roomy_context\<lparr>remaining := 96\<rparr>)"
    by (simp add: typed_toJson_def typed_content_def usable_result_def owned_value_def roomy_context_def bool_encode_def
        codec_simps account_def bind_codec_def return_def)
  from typed_replace_exact [OF _ _ _ this, of "VBool True" roomy_context]
  have "\<exists>staged d1. typed_makeDataSource (decode_value BoolType) (JBool True) roomy_context = (Ok staged, d1)
    \<and> (\<forall>dest. typed_assign (Some staged) dest =
         (case dest of
            None \<Rightarrow> (codecFailure InvalidDataSource, None)
          | Some b \<Rightarrow>
              if writable b \<and> content b \<noteq> None then (Ok (), Some (b\<lparr>content := Some (VBool True)\<rparr>))
              else (codecFailure InvalidDataSource, Some b)))"
    by (auto simp: owned_value_def roomy_def roomy_context_def)
  then show ?thesis by (fastforce simp: owned_value_def)
qed

end
