(* ===== verification/Url_Path.thy ===== *)
theory Url_Path
  imports Utf8
begin

text \<open>
  Resource paths (\<open>src/object_model.cpp\<close>): which RTT names can be published, how a name is
  encoded as one URL segment, and how the target of a request is brought to the canonical
  path under which resources are stored.

  \<open>segment_code\<close> is the contract between encoding and decoding that makes joined paths
  unambiguous; it is interpreted by the program's percent encoding.
\<close>

section \<open>Names\<close>

definition validName :: "string \<Rightarrow> bool" where
  "validName name \<longleftrightarrow> name \<noteq> [] \<and> length name \<le> 1024 \<and> name \<noteq> ''.'' \<and> name \<noteq> ''..''
     \<and> CHR 0x00 \<notin> set name \<and> validUtf8 name"

definition unreserved :: "char \<Rightarrow> bool" where
  "unreserved ch \<longleftrightarrow> (byte CHR ''A'' \<le> byte ch \<and> byte ch \<le> byte CHR ''Z'')
     \<or> (byte CHR ''a'' \<le> byte ch \<and> byte ch \<le> byte CHR ''z'')
     \<or> (byte CHR ''0'' \<le> byte ch \<and> byte ch \<le> byte CHR ''9'')
     \<or> ch = CHR ''-'' \<or> ch = CHR ''.'' \<or> ch = CHR ''_'' \<or> ch = CHR ''~''"

section \<open>Encoding\<close>

definition hex_digits :: string where
  "hex_digits = ''0123456789ABCDEF''"

definition encode_byte :: "char \<Rightarrow> string" where
  "encode_byte ch =
     (if unreserved ch then [ch]
      else [CHR 0x25, hex_digits ! drop_bit 4 (byte ch), hex_digits ! (byte ch AND 15)])"

definition encodeSegment :: "string \<Rightarrow> string" where
  "encodeSegment name = concat (map encode_byte name)"

section \<open>Decoding\<close>

definition hex :: "char \<Rightarrow> int" where
  "hex ch =
     (let n = of_char ch in
      if 48 \<le> n \<and> n \<le> 57 then n - 48
      else if 65 \<le> n \<and> n \<le> 70 then n - 65 + 10
      else if 97 \<le> n \<and> n \<le> 102 then n - 97 + 10
      else - 1)"

text \<open>The loop over the bytes of one segment.\<close>

fun decode_segment :: "string \<Rightarrow> string option" where
  "decode_segment [] = Some []"
| "decode_segment (ch # rest) =
     (if ch = CHR 0x25 then
        (case rest of
           a # b # more \<Rightarrow>
             if hex a < 0 \<or> hex b < 0 then None
             else map_option (Cons (char_of (nat (hex a * 16 + hex b)))) (decode_segment more)
         | _ \<Rightarrow> None)
      else if byte ch \<le> 0x20 \<or> byte ch = 0x7f \<or> ch = CHR 0x5C then None
      else map_option (Cons ch) (decode_segment rest))"

text \<open>The loop over the segments: what follows a slash.\<close>

function canonical_from :: "string \<Rightarrow> string option" where
  "canonical_from rest =
     (case decode_segment (takeWhile (\<lambda>ch. ch \<noteq> CHR ''/'') rest) of
        None \<Rightarrow> None
      | Some decoded \<Rightarrow>
          if \<not> validName decoded then None
          else (case dropWhile (\<lambda>ch. ch \<noteq> CHR ''/'') rest of
                  [] \<Rightarrow> Some (CHR ''/'' # encodeSegment decoded)
                | _ # more \<Rightarrow>
                    map_option (\<lambda>path. CHR ''/'' # encodeSegment decoded @ path) (canonical_from more)))"
  by pat_completeness auto
termination
proof (relation "measure length", simp)
  fix rest :: string and decoded and ch more
  assume "dropWhile (\<lambda>ch. ch \<noteq> CHR ''/'') rest = ch # more"
  then show "(more, rest) \<in> measure length"
    using length_dropWhile_le [of "\<lambda>ch. ch \<noteq> CHR ''/''" rest] by simp
qed

declare canonical_from.simps [simp del]

definition canonicalRequestPath :: "string \<Rightarrow> string option" where
  "canonicalRequestPath target =
     (if target = [] \<or> hd target \<noteq> CHR ''/'' \<or> 8192 < length target \<or> CHR ''#'' \<in> set target then None
      else canonical_from (tl (takeWhile (\<lambda>ch. ch \<noteq> CHR ''?'') target)))"

text \<open>\<open>childPath\<close> throws (\<open>None\<close>) for a name that cannot be addressed and for a route too long.\<close>

definition childPath :: "string \<Rightarrow> string \<Rightarrow> string option" where
  "childPath parent name =
     (if \<not> validName name then None
      else let result = parent @ ''/'' @ encodeSegment name in
        if 4096 < length result then None else Some result)"

section \<open>Paths of encoded segments\<close>

definition join_path :: "('n \<Rightarrow> string) \<Rightarrow> 'n list \<Rightarrow> string" where
  "join_path enc names = concat (map (\<lambda>n. CHR ''/'' # enc n) names)"

lemma join_path_simps [simp]:
  "join_path enc [] = []" "join_path enc (n # names) = CHR ''/'' # enc n @ join_path enc names"
  by (simp_all add: join_path_def)

locale segment_code =
  fixes enc :: "'n \<Rightarrow> string"
    and dec :: "string \<Rightarrow> 'n option"
  assumes dec_enc: "dec (enc n) = Some n"
    and enc_no_slash: "CHR ''/'' \<notin> set (enc n)"
begin

lemma enc_inject: "enc n = enc m \<longleftrightarrow> n = m"
  by (metis dec_enc option.inject)

lemma take_segment:
  "takeWhile (\<lambda>ch. ch \<noteq> CHR ''/'') (enc n @ join_path enc names) = enc n"
  "dropWhile (\<lambda>ch. ch \<noteq> CHR ''/'') (enc n @ join_path enc names) = join_path enc names"
proof -
  have "takeWhile (\<lambda>ch. ch \<noteq> CHR ''/'') (join_path enc names) = []"
    "dropWhile (\<lambda>ch. ch \<noteq> CHR ''/'') (join_path enc names) = join_path enc names"
    by (cases names; simp)+
  moreover have "\<And>ch. ch \<in> set (enc n) \<Longrightarrow> ch \<noteq> CHR ''/''" using enc_no_slash by metis
  ultimately show "takeWhile (\<lambda>ch. ch \<noteq> CHR ''/'') (enc n @ join_path enc names) = enc n"
    "dropWhile (\<lambda>ch. ch \<noteq> CHR ''/'') (enc n @ join_path enc names) = join_path enc names"
    by (simp_all add: takeWhile_append2 dropWhile_append2)
qed

lemma join_path_inject: "join_path enc ns = join_path enc ms \<Longrightarrow> ns = ms"
proof (induction ns arbitrary: ms)
  case Nil
  then show ?case by (cases ms) simp_all
next
  case (Cons n ns)
  then obtain m ms' where ms: "ms = m # ms'" by (cases ms) auto
  have "enc n @ join_path enc ns = enc m @ join_path enc ms'"
    using Cons.prems by (simp add: ms)
  then have "enc n = enc m" "join_path enc ns = join_path enc ms'"
    using take_segment by metis+
  with Cons.IH ms show ?case by (simp add: enc_inject)
qed

end

section \<open>Percent encoding\<close>

lemma nibbles:
  "drop_bit 4 (byte ch) = byte ch div 16" "byte ch AND 15 = byte ch mod 16"
  "byte ch div 16 < 16" "byte ch mod 16 < 16"
proof -
  have "byte ch AND mask 4 = byte ch mod 2 ^ 4"
    by (simp only: take_bit_eq_mask [symmetric] take_bit_eq_mod)
  then show "byte ch AND 15 = byte ch mod 16"
    by (simp add: mask_eq_exp_minus_1)
  show "drop_bit 4 (byte ch) = byte ch div 16" by (simp add: drop_bit_eq_div)
  show "byte ch div 16 < 16" by (rule less_mult_imp_div_less) simp
qed simp

lemma hex_digits_hex: "\<forall>n \<in> set [0..<16]. hex (hex_digits ! n) = int n"
  by code_simp

lemma hex_digit [simp]: "n < 16 \<Longrightarrow> hex (hex_digits ! n) = int n"
  using hex_digits_hex by simp

lemma hex_digits_unreserved: "\<forall>n \<in> set [0..<16]. unreserved (hex_digits ! n)"
  by code_simp

lemma nat_nibbles: "nat (int (n div 16) * 16 + int (n mod 16)) = n"
proof -
  have "int (n div 16) * 16 + int (n mod 16) = int (n div 16 * 16 + n mod 16)"
    by (simp only: of_nat_add of_nat_mult of_nat_numeral)
  then show ?thesis by (simp only: div_mult_mod_eq nat_int)
qed

lemma decode_encode_byte: "decode_segment (encode_byte ch @ s) = map_option (Cons ch) (decode_segment s)"
proof (cases "unreserved ch")
  case True
  then have "ch \<noteq> CHR 0x25" "ch \<noteq> CHR 0x5C" "32 < byte ch" "byte ch \<noteq> 127"
    by (auto simp: unreserved_def)
  with True show ?thesis by (simp add: encode_byte_def)
next
  case False
  have "decode_segment (encode_byte ch @ s) =
      map_option (Cons (char_of (nat (int (byte ch div 16) * 16 + int (byte ch mod 16))))) (decode_segment s)"
    using False nibbles(3,4) [of ch]
    by (simp add: encode_byte_def nibbles(1,2) not_less del: of_nat_of_char)
  then show ?thesis by (simp only: nat_nibbles char_of_char)
qed

lemma decode_encodeSegment: "decode_segment (encodeSegment name) = Some name"
  by (induction name) (simp_all add: encodeSegment_def decode_encode_byte)

lemma encode_byte_chars: "x \<in> set (encode_byte ch) \<Longrightarrow> unreserved x \<or> x = CHR 0x25"
  using hex_digits_unreserved nibbles [of ch] by (auto simp: encode_byte_def split: if_splits)

lemma encodeSegment_chars: "x \<in> set (encodeSegment name) \<Longrightarrow> unreserved x \<or> x = CHR 0x25"
  by (auto simp: encodeSegment_def dest: encode_byte_chars)

lemma not_in_encodeSegment [simp]:
  "CHR ''/'' \<notin> set (encodeSegment name)" "CHR ''?'' \<notin> set (encodeSegment name)"
  "CHR ''#'' \<notin> set (encodeSegment name)"
  by (auto dest: encodeSegment_chars simp: unreserved_def)

interpretation url: segment_code encodeSegment decode_segment
  by unfold_locales (simp_all add: decode_encodeSegment)

section \<open>Canonical paths\<close>

abbreviation route :: "string list \<Rightarrow> string" where
  "route names \<equiv> join_path encodeSegment names"

text \<open>Of the names made of dots only, the two that browsers resolve are refused, longer ones are not.\<close>

lemma three_dots_publishable: "validName ''...'' \<and> \<not> validName ''..'' \<and> \<not> validName ''.''"
  by code_simp

lemma canonical_from_segment:
  assumes "validName n"
  shows "canonical_from (encodeSegment n) = Some (CHR ''/'' # encodeSegment n)"
    and "canonical_from (encodeSegment n @ CHR ''/'' # more) =
      map_option (\<lambda>path. CHR ''/'' # encodeSegment n @ path) (canonical_from more)"
proof -
  have seg: "\<forall>ch \<in> set (encodeSegment n). ch \<noteq> CHR ''/''" by (metis not_in_encodeSegment(1))
  then show "canonical_from (encodeSegment n) = Some (CHR ''/'' # encodeSegment n)"
    using assms by (simp add: canonical_from.simps [of "encodeSegment n"] decode_encodeSegment
        takeWhile_eq_all_conv [THEN iffD2] dropWhile_eq_Nil_conv [THEN iffD2])
  have "takeWhile (\<lambda>ch. ch \<noteq> CHR ''/'') (encodeSegment n @ CHR ''/'' # more) = encodeSegment n"
    "dropWhile (\<lambda>ch. ch \<noteq> CHR ''/'') (encodeSegment n @ CHR ''/'' # more) = CHR ''/'' # more"
    using seg by (simp_all add: takeWhile_append2 dropWhile_append2)
  with assms show "canonical_from (encodeSegment n @ CHR ''/'' # more) =
      map_option (\<lambda>path. CHR ''/'' # encodeSegment n @ path) (canonical_from more)"
    by (simp add: canonical_from.simps [of "encodeSegment n @ CHR ''/'' # more"] decode_encodeSegment)
qed

lemma canonical_from_route:
  "list_all validName (n # names) \<Longrightarrow>
     canonical_from (encodeSegment n @ route names) = Some (route (n # names))"
  by (induction names arbitrary: n) (simp_all add: canonical_from_segment)

lemma route_chars:
  "CHR ''?'' \<notin> set (route names)" "CHR ''#'' \<notin> set (route names)"
  by (induction names) auto

lemma canonicalRequestPath_plain:
  assumes "target = CHR ''/'' # rest" "length target \<le> 8192"
    and "CHR ''?'' \<notin> set target" "CHR ''#'' \<notin> set target" "canonical_from rest = result"
  shows "canonicalRequestPath target = result"
proof -
  have "takeWhile (\<lambda>ch. ch \<noteq> CHR ''?'') rest = rest"
    using assms(1, 3) by (subst takeWhile_eq_all_conv) auto
  with assms show ?thesis by (simp add: canonicalRequestPath_def del: takeWhile_eq_all_conv)
qed

lemma route_canonical:
  assumes "names \<noteq> []" and "list_all validName names" and "length (route names) \<le> 8192"
  shows "canonicalRequestPath (route names) = Some (route names)"
proof -
  obtain n ns where names: "names = n # ns" using assms(1) by (cases names) auto
  have "canonical_from (encodeSegment n @ route ns) = Some (route names)"
    using canonical_from_route [of n ns] assms(2) by (simp add: names)
  then show ?thesis
    using assms(3) route_chars [of names]
    by (intro canonicalRequestPath_plain [of _ "encodeSegment n @ route ns"]) (simp_all add: names)
qed

text \<open>
  A path built from publishable names, which is how every resource is stored, is
  canonical: requesting it (within the length limit) resolves to exactly that path.
\<close>

theorem canonical_route_fixed:
  assumes "names \<noteq> []" and "list_all validName names" and "length (route names) \<le> 8192"
  shows "canonicalRequestPath (route names) = Some (route names)"
  using assms by (rule route_canonical)

lemma canonical_route_fixed_witness:
  "canonicalRequestPath ''/a%2Fb/c'' = Some ''/a%2Fb/c''"
proof -
  have "route [''a/b'', ''c''] = ''/a%2Fb/c''" by code_simp
  moreover have "list_all validName [''a/b'', ''c'']" by code_simp
  ultimately show ?thesis using canonical_route_fixed [of "[''a/b'', ''c'']"] by simp
qed

text \<open>
  Distinct sequences of names have distinct paths, for arbitrary bytes in the names: no
  two RTT resources share a route, and slash, percent and plus stay distinct.
\<close>

theorem route_inject: "route ns = route ms \<longleftrightarrow> ns = ms"
  using url.join_path_inject by blast

section \<open>What a request target resolves to\<close>

text \<open>The segments of a path: the text between slashes, decoded.\<close>

function split_path :: "string \<Rightarrow> string list" where
  "split_path rest =
     takeWhile (\<lambda>ch. ch \<noteq> CHR ''/'') rest #
       (case dropWhile (\<lambda>ch. ch \<noteq> CHR ''/'') rest of [] \<Rightarrow> [] | _ # more \<Rightarrow> split_path more)"
  by pat_completeness auto
termination
proof (relation "measure length", simp)
  fix rest :: string and ch more
  assume "dropWhile (\<lambda>ch. ch \<noteq> CHR ''/'') rest = ch # more"
  then show "(more, rest) \<in> measure length"
    using length_dropWhile_le [of "\<lambda>ch. ch \<noteq> CHR ''/''" rest] by simp
qed

declare split_path.simps [simp del]

lemma canonical_from_iff:
  "canonical_from rest = Some path \<longleftrightarrow>
     (\<exists>names. map decode_segment (split_path rest) = map Some names \<and> list_all validName names \<and> path = route names)"
proof (induction rest arbitrary: path rule: canonical_from.induct)
  case (1 rest)
  let ?seg = "takeWhile (\<lambda>ch. ch \<noteq> CHR ''/'') rest" and ?tail = "dropWhile (\<lambda>ch. ch \<noteq> CHR ''/'') rest"
  show ?case
  proof (cases "decode_segment ?seg")
    case None
    then show ?thesis
      by (subst canonical_from.simps, subst split_path.simps) (auto simp: Cons_eq_map_conv)
  next
    case (Some decoded)
    show ?thesis
    proof (cases ?tail)
      case Nil
      have "canonical_from rest = (if validName decoded then Some (route [decoded]) else None)"
        by (simp only: canonical_from.simps [of rest] Some Nil option.case list.case) simp
      moreover have "split_path rest = [?seg]" by (simp only: split_path.simps [of rest] Nil list.case)
      ultimately show ?thesis using Some by (auto simp: Cons_eq_map_conv)
    next
      case (Cons ch more)
      have unfold: "canonical_from rest =
          (if validName decoded then map_option (\<lambda>path. CHR ''/'' # encodeSegment decoded @ path) (canonical_from more)
           else None)"
        using Some Cons by (simp add: canonical_from.simps [of rest])
      have split: "split_path rest = ?seg # split_path more"
        using Cons by (simp add: split_path.simps [of rest])
      show ?thesis
      proof (cases "validName decoded")
        case True
        note IH = "1.IH" [OF Some _ Cons, simplified True]
        have "canonical_from rest = Some path \<longleftrightarrow>
            (\<exists>p. canonical_from more = Some p \<and> path = CHR ''/'' # encodeSegment decoded @ p)"
          using unfold True by auto
        also have "\<dots> \<longleftrightarrow> (\<exists>ns. map decode_segment (split_path more) = map Some ns \<and> list_all validName ns
            \<and> path = route (decoded # ns))"
          using IH by auto
        also have "\<dots> \<longleftrightarrow> (\<exists>names. map decode_segment (split_path rest) = map Some names
            \<and> list_all validName names \<and> path = route names)"
          unfolding split using Some True by (auto simp: Cons_eq_map_conv)
        finally show ?thesis .
      next
        case False
        with unfold split Some show ?thesis by (auto simp: Cons_eq_map_conv)
      qed
    qed
  qed
qed

text \<open>
  A request target is accepted exactly when it starts with a slash, is at most 8192 bytes,
  has no fragment mark, and every segment before the query decodes to a publishable name; the
  result is the route of those names, so the query, the case of hex digits and needless
  encoding never select another resource.
\<close>

theorem canonicalRequestPath_iff:
  "canonicalRequestPath target = Some path \<longleftrightarrow>
     target \<noteq> [] \<and> hd target = CHR ''/'' \<and> length target \<le> 8192 \<and> CHR ''#'' \<notin> set target \<and>
     (\<exists>names. map decode_segment (split_path (tl (takeWhile (\<lambda>ch. ch \<noteq> CHR ''?'') target))) = map Some names
        \<and> list_all validName names \<and> path = route names)"
  by (auto simp: canonicalRequestPath_def canonical_from_iff)

end
