(* ===== verification/Server_Options.thy ===== *)
theory Server_Options
  imports Numeric_Codec
begin

text \<open>
  The server's options (\<open>server_options.hpp\<close>) and their validation (\<open>validateOptions\<close> and
  \<open>endpointUrl\<close> of \<open>server.cpp\<close>).

  \<open>std::size_t\<close> is a word type \<open>'s\<close> of the platform, the arithmetic on it wraps as in the source;
  \<open>sizeof_connection\<close> stands for the size of httplib's shared connection pointer, and
  \<open>openssl\<close> for the build flag of the HTTP library.
\<close>

record server_options =
  bindAddress :: string
  port :: u32
  tlsEnabled :: bool
  certificateFile :: string
  privateKeyFile :: string
  workerThreads :: u32
  maxQueuedConnections :: u32
  maxPendingOperations :: u32
  operationTimeoutMs :: u32
  maxRequestBodyBytes :: u32
  maxResponseBodyBytes :: u32
  maxJsonDepth :: u32
  socketReadTimeoutMs :: u32
  socketWriteTimeoutMs :: u32
  keepAliveTimeoutMs :: u32
  keepAliveMaxRequests :: u32
  shutdownGraceMs :: u32

definition default_options :: server_options where
  "default_options = \<lparr>bindAddress = ''127.0.0.1'', port = 8080, tlsEnabled = False,
     certificateFile = [], privateKeyFile = [], workerThreads = 4, maxQueuedConnections = 64,
     maxPendingOperations = 32, operationTimeoutMs = 5000, maxRequestBodyBytes = 1048576,
     maxResponseBodyBytes = 8388608, maxJsonDepth = 64, socketReadTimeoutMs = 5000,
     socketWriteTimeoutMs = 5000, keepAliveTimeoutMs = 5000, keepAliveMaxRequests = 100,
     shutdownGraceMs = 10000\<rparr>"

section \<open>Validation\<close>

definition positive :: "server_options \<Rightarrow> (string \<times> u32) list" where
  "positive opts =
     [(''workerThreads'', workerThreads opts),
      (''maxQueuedConnections'', maxQueuedConnections opts),
      (''maxPendingOperations'', maxPendingOperations opts),
      (''operationTimeoutMs'', operationTimeoutMs opts),
      (''maxRequestBodyBytes'', maxRequestBodyBytes opts),
      (''maxResponseBodyBytes'', maxResponseBodyBytes opts),
      (''maxJsonDepth'', maxJsonDepth opts),
      (''socketReadTimeoutMs'', socketReadTimeoutMs opts),
      (''socketWriteTimeoutMs'', socketWriteTimeoutMs opts),
      (''keepAliveTimeoutMs'', keepAliveTimeoutMs opts),
      (''keepAliveMaxRequests'', keepAliveMaxRequests opts),
      (''shutdownGraceMs'', shutdownGraceMs opts)]"

definition int_max :: u32 where
  "int_max = 2147483647"

text \<open>\<open>Inl\<close> is the message of the first test that fails; \<open>Inr ()\<close> is acceptance.\<close>

definition validateOptions ::
  "('s::len) word \<Rightarrow> bool \<Rightarrow> server_options \<Rightarrow> string + unit" where
  "validateOptions sizeof_connection openssl opts =
     (let memoryMax = (- 1 :: 's word) in
      if bindAddress opts = [] \<or> 1024 < length (bindAddress opts)
         \<or> CHR 0x00 \<in> set (bindAddress opts) then
        Inl ''bindAddress must be a nonempty host or IP address''
      else if port opts = 0 \<or> 65535 < port opts then Inl ''port must be in 1..65535''
      else case List.find (\<lambda>(name, v). v = 0) (positive opts) of
        Some (name, v) \<Rightarrow> Inl (name @ '' must be positive'')
      | None \<Rightarrow>
        if 1024 < workerThreads opts then
          Inl ''workerThreads exceeds the supported thread capacity (1024)''
        else if int_max < socketReadTimeoutMs opts \<or> int_max < socketWriteTimeoutMs opts
          \<or> int_max < keepAliveTimeoutMs opts then
          Inl ''socket and keep-alive timeouts exceed the native polling range''
        else if keepAliveTimeoutMs opts mod 1000 \<noteq> 0 then
          Inl ''keepAliveTimeoutMs must be a whole number of seconds for cpp-httplib''
        else if memoryMax div 8 < ucast (maxRequestBodyBytes opts)
          \<or> memoryMax div 8 < ucast (maxResponseBodyBytes opts)
          \<or> memoryMax div sizeof_connection - ucast (workerThreads opts) - 1
              < ucast (maxQueuedConnections opts) then
          Inl ''configured payload or connection capacity exceeds addressable storage''
        else if tlsEnabled opts \<and> (certificateFile opts = [] \<or> privateKeyFile opts = []
          \<or> CHR 0x00 \<in> set (certificateFile opts) \<or> CHR 0x00 \<in> set (privateKeyFile opts)) then
          Inl ''certificateFile and privateKeyFile are required for TLS''
        else if \<not> openssl \<and> tlsEnabled opts then
          Inl ''tlsEnabled requires an HTTP SDK built with OpenSSL''
        else Inr ())"

definition endpointUrl :: "server_options \<Rightarrow> string" where
  "endpointUrl opts =
     (let host = (if CHR '':'' \<in> set (bindAddress opts) \<and> take 1 (bindAddress opts) \<noteq> ''[''
                  then ''['' @ bindAddress opts @ '']'' else bindAddress opts) in
      (if tlsEnabled opts then ''https://'' else ''http://'') @ host @ '':''
        @ nat_chars (unat (port opts)))"

section \<open>What accepted options guarantee\<close>

text \<open>
  The contract over natural numbers: \<open>space\<close> is the number of addressable bytes, \<open>pointer\<close> the
  size of one connection entry.
\<close>

definition storable :: "nat \<Rightarrow> nat \<Rightarrow> server_options \<Rightarrow> bool" where
  "storable space pointer opts \<longleftrightarrow>
     8 * unat (maxRequestBodyBytes opts) < space \<and> 8 * unat (maxResponseBodyBytes opts) < space
     \<and> (unat (maxQueuedConnections opts) + unat (workerThreads opts) + 1) * pointer < space"

definition tls_ok :: "bool \<Rightarrow> server_options \<Rightarrow> bool" where
  "tls_ok openssl opts \<longleftrightarrow> (tlsEnabled opts \<longrightarrow> openssl
     \<and> certificateFile opts \<noteq> [] \<and> CHR 0x00 \<notin> set (certificateFile opts)
     \<and> privateKeyFile opts \<noteq> [] \<and> CHR 0x00 \<notin> set (privateKeyFile opts))"

definition usable :: "nat \<Rightarrow> nat \<Rightarrow> bool \<Rightarrow> server_options \<Rightarrow> bool" where
  "usable space pointer openssl opts \<longleftrightarrow>
     bindAddress opts \<noteq> [] \<and> length (bindAddress opts) \<le> 1024 \<and> CHR 0x00 \<notin> set (bindAddress opts)
     \<and> 0 < unat (port opts) \<and> unat (port opts) < 2 ^ 16
     \<and> list_all (\<lambda>(name, v). 0 < unat v) (positive opts)
     \<and> unat (workerThreads opts) \<le> 1024
     \<and> unat (socketReadTimeoutMs opts) < 2 ^ 31 \<and> unat (socketWriteTimeoutMs opts) < 2 ^ 31
     \<and> unat (keepAliveTimeoutMs opts) < 2 ^ 31 \<and> 1000 dvd unat (keepAliveTimeoutMs opts)
     \<and> storable space pointer opts \<and> tls_ok openssl opts"

lemma find_None_list_all: "List.find P xs = None \<longleftrightarrow> list_all (\<lambda>x. \<not> P x) xs"
  by (induction xs) auto

lemma unat_memoryMax: "unat (- 1 :: ('s::len) word) = 2 ^ LENGTH('s) - 1"
  by (simp add: unsigned_minus_1_eq_mask mask_eq_exp_minus_1)

lemma unat_size:
  fixes w :: u32
  assumes "32 \<le> LENGTH('s)"
  shows "unat (ucast w :: ('s::len) word) = unat w"
proof -
  have "unat w < 2 ^ 32" using unsigned_less [of w] by simp
  also have "(2 :: nat) ^ 32 \<le> 2 ^ LENGTH('s)" using assms by (intro power_increasing) auto
  finally show ?thesis by (simp add: unsigned_ucast_eq take_bit_nat_eq_self)
qed

lemma unat_small_numeral:
  assumes "32 \<le> LENGTH('s)" "numeral n < (2 :: nat) ^ 32"
  shows "unat (numeral n :: ('s::len) word) = numeral n"
proof -
  have "(2 :: nat) ^ 32 \<le> 2 ^ LENGTH('s)" using assms(1) by (intro power_increasing) auto
  with assms(2) have "numeral n < (2 :: nat) ^ LENGTH('s)" by (rule less_le_trans)
  then show ?thesis by (simp only: unsigned_numeral take_bit_nat_eq_self of_nat_numeral)
qed

lemma quotient_test: "0 < p \<Longrightarrow> 0 < N \<Longrightarrow> (N - 1) div p < b \<longleftrightarrow> \<not> b * p < (N :: nat)"
  by (simp only: div_less_iff_less_mult) linarith

lemma payload_test:
  assumes "32 \<le> LENGTH('s)"
  shows "(- 1 :: ('s::len) word) div 8 < ucast (w :: u32) \<longleftrightarrow> \<not> 8 * unat w < 2 ^ LENGTH('s)"
proof -
  have "unat (8 :: 's word) = 8" using assms by (intro unat_small_numeral) auto
  then have "(- 1 :: 's word) div 8 < ucast w \<longleftrightarrow> (2 ^ LENGTH('s) - 1) div 8 < unat w"
    by (simp only: word_less_nat_alt unat_div unat_memoryMax unat_size [OF assms])
  also have "\<dots> \<longleftrightarrow> \<not> unat w * 8 < 2 ^ LENGTH('s)"
    by (rule quotient_test) simp_all
  finally show ?thesis by (simp only: mult.commute)
qed

lemma queue_test:
  fixes pointer :: "('s::len) word"
  assumes "32 \<le> LENGTH('s)" "0 < unat pointer" "1025 * unat pointer < 2 ^ LENGTH('s)" "unat w \<le> 1024"
  shows "- 1 div pointer - ucast (w :: u32) - 1 < ucast (q :: u32) \<longleftrightarrow>
     \<not> (unat q + unat w + 1) * unat pointer < 2 ^ LENGTH('s)"
proof -
  let ?d = "- 1 div pointer :: 's word"
  have d: "unat ?d = (2 ^ LENGTH('s) - 1) div unat pointer"
    by (simp only: unat_div unat_memoryMax)
  have room: "1025 \<le> unat ?d"
    using quotient_test [of "unat pointer" "2 ^ LENGTH('s)" 1025] assms(2,3) by (simp add: d)
  have w: "unat (ucast w :: 's word) = unat w" and q: "unat (ucast q :: 's word) = unat q"
    by (rule unat_size [OF assms(1)])+
  have "unat (?d - ucast w) = unat ?d - unat w"
    using room assms(4) w by (subst unat_sub) (auto simp: word_le_nat_alt)
  moreover have "unat (?d - ucast w - 1) = unat (?d - ucast w) - 1"
    using room assms(4) calculation by (subst unat_sub) (auto simp: word_le_nat_alt)
  ultimately have "?d - ucast w - 1 < ucast q \<longleftrightarrow> unat ?d - unat w - 1 < unat q"
    by (simp only: word_less_nat_alt q)
  also have "\<dots> \<longleftrightarrow> unat ?d < unat q + unat w + 1" using room assms(4) by linarith
  also have "\<dots> \<longleftrightarrow> \<not> (unat q + unat w + 1) * unat pointer < 2 ^ LENGTH('s)"
    using assms(2) by (simp only: d) (rule quotient_test, auto)
  finally show ?thesis .
qed

lemma word_zero_unat: "w = (0 :: u32) \<longleftrightarrow> \<not> 0 < unat w"
  by (simp add: unat_eq_zero)

lemma u32_tests:
  "65535 < w \<longleftrightarrow> \<not> unat (w :: u32) < 2 ^ 16"
  "1024 < w \<longleftrightarrow> \<not> unat w \<le> 1024"
  "int_max < w \<longleftrightarrow> \<not> unat w < 2 ^ 31"
  "w mod 1000 \<noteq> 0 \<longleftrightarrow> \<not> 1000 dvd unat w"
  by (auto simp: word_less_nat_alt int_max_def word_zero_unat unat_mod dvd_eq_mod_eq_0)

text \<open>
  C29: \<open>validateOptions\<close> accepts exactly the usable options.  The subtraction of the thread
  count from the connection capacity never wraps, because the thread limit is tested before
  it; so the test it makes is the one over unbounded numbers.
\<close>

theorem validateOptions_exact:
  fixes pointer :: "('s::len) word"
  assumes "32 \<le> LENGTH('s)" "0 < unat pointer" "1025 * unat pointer < 2 ^ LENGTH('s)"
  shows "validateOptions pointer openssl opts = Inr () \<longleftrightarrow>
     usable (2 ^ LENGTH('s)) (unat pointer) openssl opts"
proof -
  have find: "List.find (\<lambda>(name, v). v = 0) (positive opts) = None \<longleftrightarrow>
      list_all (\<lambda>(name, v). 0 < unat v) (positive opts)"
    by (simp add: find_None_list_all positive_def word_zero_unat)
  show ?thesis
  proof (cases "unat (workerThreads opts) \<le> 1024")
    case True
    note tests = u32_tests payload_test [OF assms(1)] queue_test [OF assms True]
    show ?thesis
      unfolding validateOptions_def usable_def storable_def tls_ok_def Let_def tests
      using find True
      by (auto simp: word_zero_unat split: option.split if_splits)
  next
    case False
    then show ?thesis
      by (auto simp: validateOptions_def usable_def Let_def u32_tests split: option.split)
  qed
qed

lemma validateOptions_exact_witness:
  "validateOptions (16 :: u64) False default_options = Inr ()"
proof -
  have "usable (2 ^ LENGTH(64)) (unat (16 :: u64)) False default_options"
    by (simp add: usable_def storable_def tls_ok_def default_options_def positive_def)
  then show ?thesis by (subst validateOptions_exact) simp_all
qed

section \<open>The endpoint\<close>

text \<open>How a client reads an endpoint: the scheme, the host up to the last colon, the port.\<close>

definition read_endpoint :: "string \<Rightarrow> bool \<times> string \<times> nat" where
  "read_endpoint url =
     (let tls = (take 5 url = ''https'');
          authority = rev (drop (if tls then 8 else 7) url);
          digits = takeWhile (\<lambda>ch. ch \<noteq> CHR '':'') authority
      in (tls, rev (drop (Suc (length digits)) authority), digits_value (rev digits)))"

text \<open>
  \<open>endpointUrl\<close> names the configured endpoint without ambiguity: reading it back gives the
  scheme, the port and the host, an IPv6 literal in brackets, whatever colons the host has.
\<close>

theorem endpointUrl_reads_back:
  "read_endpoint (endpointUrl opts) =
     (tlsEnabled opts,
      (if CHR '':'' \<in> set (bindAddress opts) \<and> take 1 (bindAddress opts) \<noteq> ''['' then
         ''['' @ bindAddress opts @ '']'' else bindAddress opts),
      unat (port opts))"
proof -
  have digits: "takeWhile (\<lambda>ch. ch \<noteq> CHR '':'') (rev (nat_chars n) @ CHR '':'' # h) = rev (nat_chars n)"
    for n h
    using nat_chars_digits [of n]
    by (subst takeWhile_append2) (auto simp: list_all_iff is_digit_def)
  show ?thesis
    by (simp add: endpointUrl_def read_endpoint_def Let_def digits)
qed

end
