(* ===== verification/Ordered_Map.thy ===== *)
theory Ordered_Map
  imports Prelude "HOL-Library.List_Lexorder" "HOL-Library.Char_ord"
begin

text \<open>
  \<open>std::map\<close> as the list of its entries in key order, which is the order its iterators visit;
  strings are ordered byte by byte, as \<open>std::string\<close> compares them.  Lookup is
  \<^const>\<open>map_of\<close>; an ordered list is determined by its lookups (\<open>ordered_ext\<close>).
\<close>

fun map_emplace :: "'k::linorder \<Rightarrow> 'v \<Rightarrow> ('k \<times> 'v) list \<Rightarrow> ('k \<times> 'v) list" where
  "map_emplace k v [] = [(k, v)]"
| "map_emplace k v ((k', v') # m) =
     (if k < k' then (k, v) # (k', v') # m
      else if k = k' then (k', v') # m
      else (k', v') # map_emplace k v m)"

definition map_erase :: "'k \<Rightarrow> ('k \<times> 'v) list \<Rightarrow> ('k \<times> 'v) list" where
  "map_erase k m = filter (\<lambda>(k', v). k' \<noteq> k) m"

definition map_build :: "('k::linorder \<times> 'v) list \<Rightarrow> ('k \<times> 'v) list" where
  "map_build entries = fold (\<lambda>(k, v). map_emplace k v) entries []"

fun ordered :: "('k::linorder \<times> 'v) list \<Rightarrow> bool" where
  "ordered [] = True"
| "ordered ((k, v) # m) \<longleftrightarrow> (\<forall>k' \<in> set (map fst m). k < k') \<and> ordered m"

lemma keys_emplace [simp]: "fst ` set (map_emplace k v m) = insert k (fst ` set m)"
  by (induction k v m rule: map_emplace.induct) (simp_all add: insert_commute)

lemma ordered_emplace [simp]: "ordered m \<Longrightarrow> ordered (map_emplace k v m)"
proof (induction m)
  case (Cons e m)
  then show ?case by (cases e) auto
qed simp

lemma ordered_distinct: "ordered m \<Longrightarrow> distinct (map fst m)"
  by (induction m rule: ordered.induct) auto

lemma map_of_emplace [simp]:
  "ordered m \<Longrightarrow> map_of (map_emplace k v m) =
     (map_of m)(k := (case map_of m k of None \<Rightarrow> Some v | Some v' \<Rightarrow> Some v'))"
proof (induction m rule: ordered.induct)
  case (2 k' v' m)
  then have "map_of m k' = None" by (auto simp: map_of_eq_None_iff)
  moreover have "k < k' \<Longrightarrow> map_of m k = None" using 2 by (auto simp: map_of_eq_None_iff)
  ultimately show ?case using 2 by (auto split: option.splits simp: fun_eq_iff)
qed (simp add: fun_eq_iff)

lemma set_emplace: "e \<in> set (map_emplace k v m) \<Longrightarrow> e = (k, v) \<or> e \<in> set m"
  by (induction m) (auto split: if_splits)

lemma ordered_filter [simp]: "ordered m \<Longrightarrow> ordered (filter P m)"
  by (induction m rule: ordered.induct) auto

lemma ordered_erase [simp]: "ordered m \<Longrightarrow> ordered (map_erase k m)"
  by (simp add: map_erase_def)

lemma map_of_erase [simp]: "map_of (map_erase k m) = (map_of m)(k := None)"
  by (induction m) (auto simp: map_erase_def fun_eq_iff)

lemma erase_emplace: "ordered m \<Longrightarrow> map_of m k = None \<Longrightarrow> map_erase k (map_emplace k v m) = m"
proof (induction m rule: ordered.induct)
  case (2 k' v' m)
  have "filter (\<lambda>(l, v). l \<noteq> k) m = m"
    using 2(3) by (auto simp: filter_id_conv map_of_eq_None_iff rev_image_eqI split: if_splits)
  then show ?case using 2 by (auto simp: map_erase_def split: if_splits)
qed (simp add: map_erase_def)

text \<open>The entries of an ordered map are those of its lookups.\<close>

lemma ordered_mem: "ordered m \<Longrightarrow> (k, v) \<in> set m \<longleftrightarrow> map_of m k = Some v"
  by (simp add: ordered_distinct)

lemma ordered_head:
  assumes "ordered ((k, v) # m)" "ordered ((l, w) # n)" "map_of ((k, v) # m) = map_of ((l, w) # n)"
  shows "k = l"
proof -
  have keys: "fst ` set ((k, v) # m) = fst ` set ((l, w) # n)"
    using assms(3) by (simp only: dom_map_of_conv_image_fst [symmetric])
  have "k \<in> fst ` set ((k, v) # m)" "l \<in> fst ` set ((l, w) # n)" by simp_all
  then have "k \<in> fst ` set ((l, w) # n)" "l \<in> fst ` set ((k, v) # m)"
    by (simp_all only: keys)
  with assms(1,2) show ?thesis by force
qed

lemma ordered_ext: "ordered m \<Longrightarrow> ordered n \<Longrightarrow> map_of m = map_of n \<Longrightarrow> m = n"
proof (induction m arbitrary: n rule: ordered.induct)
  case 1
  have "fst ` set n = {}" using 1(3) by (simp only: dom_map_of_conv_image_fst [symmetric]) auto
  then show ?case by simp
next
  case (2 k v m)
  obtain e n' where e: "n = e # n'" using fun_cong [OF 2(4), of k] by (cases n) simp_all
  obtain l w where "e = (l, w)" by (cases e)
  with e have n: "n = (l, w) # n'" by simp
  have k: "k = l" using 2(2,3,4) unfolding n by (rule ordered_head)
  have none: "map_of m k = None" "map_of n' k = None"
    using 2(2,3) by (auto simp: n k map_of_eq_None_iff)
  have "v = w" using fun_cong [OF 2(4), of k] by (simp add: n k)
  moreover have "map_of m = map_of n'"
  proof
    fix x
    show "map_of m x = map_of n' x"
      using fun_cong [OF 2(4), of x] none by (cases "x = k") (simp_all add: n k)
  qed
  moreover have "ordered m" "ordered n'" using 2(2,3) by (simp_all only: n ordered.simps)
  ultimately show ?case using 2(1) [of n'] by (simp only: n k)
qed

lemma ordered_map_values [simp]: "ordered (map (\<lambda>(k, v). (k, f k v)) m) = ordered m"
  by (induction m rule: ordered.induct) (auto simp: image_iff)

lemma fold_emplace:
  "ordered m \<Longrightarrow> ordered (fold (\<lambda>(k, v). map_emplace k v) entries m)
     \<and> map_of (fold (\<lambda>(k, v). map_emplace k v) entries m) = map_of entries ++ map_of m
     \<and> set (fold (\<lambda>(k, v). map_emplace k v) entries m) \<subseteq> set entries \<union> set m"
proof (induction entries arbitrary: m)
  case (Cons e entries)
  obtain k v where e: "e = (k, v)" by (cases e)
  show ?case
    using Cons.IH [of "map_emplace k v m"] Cons.prems
    by (auto simp: e fun_eq_iff map_add_def dest!: set_emplace split: option.splits)
qed simp

lemma ordered_build [simp]: "ordered (map_build entries)"
  using fold_emplace [of "[]" entries] by (simp add: map_build_def)

lemma map_of_build [simp]: "map_of (map_build entries) = map_of entries"
  using fold_emplace [of "[]" entries] by (simp add: map_build_def)

lemma set_build: "set (map_build entries) \<subseteq> set entries"
  using fold_emplace [of "[]" entries] by (simp add: map_build_def)

text \<open>\<open>std::set\<close> built from a list.\<close>

lemma build_permuted: "map_of xs = map_of ys \<Longrightarrow> map_build xs = map_build ys"
  by (rule ordered_ext) simp_all

end
