(* ===== verification/Type_Registration.thy ===== *)
theory Type_Registration
  imports Json_Text Ordered_Map "HOL-Library.AList"
begin

text \<open>
  Type registrations (\<open>TypeRegistration\<close> of \<open>type_protocol.hpp\<close>; \<open>validateRegistration\<close>,
  \<open>canonicalJson\<close>, \<open>fingerprint\<close> and the constructor of \<open>TypeProtocol\<close> in
  \<open>type_protocol.cpp\<close>).

  An exception is the value \<open>None\<close>; a message written through the error pointer is \<open>Inl\<close>.
\<close>

type_synonym json_object = "(string \<times> json) list"

record type_registration =
  providerId :: string
  providerVersion :: string
  codecId :: string
  codecVersion :: string
  rttType :: string
  descriptor :: json_object
  dependencies :: "string list"

section \<open>Validation\<close>

definition identity_name :: "string \<Rightarrow> bool" where
  "identity_name v \<longleftrightarrow> v \<noteq> [] \<and> length v \<le> 1024 \<and> validUtf8 v \<and> CHR 0x00 \<notin> set v"

text \<open>\<open>hasString\<close>, with the string it finds.\<close>

definition hasString :: "json_object \<Rightarrow> string \<Rightarrow> string option" where
  "hasString obj k =
     (case member obj k of
        Some (JString t) \<Rightarrow> if identity_name t then Some t else None
      | _ \<Rightarrow> None)"

definition addReference :: "json_object \<Rightarrow> string \<Rightarrow> string set \<Rightarrow> string set option" where
  "addReference obj field refs = map_option (\<lambda>t. insert t refs) (hasString obj field)"

definition numeric_descriptor :: "string \<Rightarrow> json_object \<Rightarrow> string + string set" where
  "numeric_descriptor kind d =
     (case member d ''bits'' of
        Some (JInt64 bits) \<Rightarrow>
          if bits \<noteq> 8 \<and> bits \<noteq> 16 \<and> bits \<noteq> 32 \<and> bits \<noteq> 64 then
            Inl ''invalid HTTP numeric descriptor width''
          else if kind = ''integer'' then
            (case (member d ''signed'', member d ''encoding'') of
               (Some (JBool sign), Some (JString encoding)) \<Rightarrow>
                 if encoding \<noteq> (if bits = 64 then ''decimalString'' else ''number'') then
                   Inl ''invalid HTTP integer descriptor''
                 else Inr {}
             | _ \<Rightarrow> Inl ''invalid HTTP integer descriptor'')
          else if (bits \<noteq> 32 \<and> bits \<noteq> 64) \<or> member d ''nonFinite'' \<noteq>
              Some (JArray [JString ''NaN'', JString ''Infinity'', JString ''-Infinity'']) then
            Inl ''invalid HTTP floating-point descriptor''
          else Inr {}
      | _ \<Rightarrow> Inl ''invalid HTTP numeric descriptor width'')"

text \<open>The loop over the fields of an object, with the references and names seen so far.\<close>

fun check_fields :: "string set \<Rightarrow> string set \<Rightarrow> json list \<Rightarrow> string + string set" where
  "check_fields refs names [] = Inr refs"
| "check_fields refs names (item # items) =
     (case item of
        JObject obj \<Rightarrow>
          (case (hasString obj ''name'', addReference obj ''rttType'' refs) of
             (Some name, Some refs') \<Rightarrow>
               if name \<in> names then Inl ''invalid HTTP object field descriptor''
               else check_fields refs' (insert name names) items
           | _ \<Rightarrow> Inl ''invalid HTTP object field descriptor'')
      | _ \<Rightarrow> Inl ''invalid HTTP object field descriptor'')"

definition array_length_ok :: "json option \<Rightarrow> bool" where
  "array_length_ok l =
     (case l of Some JNull \<Rightarrow> True | Some (JInt64 n) \<Rightarrow> 0 \<le> sint n | _ \<Rightarrow> False)"

definition check_descriptor :: "json_object \<Rightarrow> string + string set" where
  "check_descriptor d =
     (case hasString d ''kind'' of
        None \<Rightarrow> Inl ''missing HTTP descriptor kind''
      | Some kind \<Rightarrow>
          if kind = ''integer'' \<or> kind = ''float'' then numeric_descriptor kind d
          else if kind = ''string'' then
            (if member d ''encoding'' \<noteq> Some (JString ''utf8'') then
               Inl ''invalid HTTP string descriptor'' else Inr {})
          else if kind = ''enum'' then
            (case addReference d ''underlyingType'' {} of
               None \<Rightarrow> Inl ''invalid HTTP enum descriptor'' | Some refs \<Rightarrow> Inr refs)
          else if kind = ''array'' then
            (case addReference d ''elementType'' {} of
               None \<Rightarrow> Inl ''invalid HTTP array descriptor''
             | Some refs \<Rightarrow>
                 if array_length_ok (member d ''length'') then Inr refs
                 else Inl ''invalid HTTP array descriptor'')
          else if kind = ''object'' then
            (case member d ''fields'' of
               Some (JArray items) \<Rightarrow> check_fields {} {} items
             | _ \<Rightarrow> Inl ''invalid HTTP object descriptor'')
          else if kind \<noteq> ''boolean'' \<and> kind \<noteq> ''void'' then
            Inl ''unsupported HTTP descriptor kind''
          else Inr {})"

definition validateRegistration :: "type_registration \<Rightarrow> string + unit" where
  "validateRegistration r =
     (if \<not> list_all identity_name
           [providerId r, providerVersion r, codecId r, codecVersion r, rttType r] then
        Inl ''invalid HTTP codec identity''
      else case check_descriptor (descriptor r) of
        Inl e \<Rightarrow> Inl e
      | Inr references \<Rightarrow>
          if references \<noteq> set (dependencies r) then
            Inl ''HTTP descriptor dependencies do not match references''
          else Inr ())"

section \<open>The fingerprint\<close>

function canonicalJson :: "json \<Rightarrow> json" where
  "canonicalJson (JObject ms) = JObject (map (\<lambda>(k, v). (k, canonicalJson v)) (map_build ms))"
| "canonicalJson (JArray xs) = JArray (map canonicalJson xs)"
| "canonicalJson JNull = JNull"
| "canonicalJson (JBool b) = JBool b"
| "canonicalJson (JInt64 i) = JInt64 i"
| "canonicalJson (JUint64 u) = JUint64 u"
| "canonicalJson (JDouble x) = JDouble x"
| "canonicalJson (JString t) = JString t"
  by pat_completeness auto
termination
proof (relation "measure json_weight", simp_all)
  fix ms :: json_object and e k v
  assume "e \<in> set (map_build ms)" "(k, v) = e"
  then have "(k, v) \<in> set ms" using set_build by auto
  then show "json_weight v < Suc (\<Sum>(k, v)\<leftarrow>ms. json_weight v)"
    by (induction ms) auto
next
  fix xs :: "json list" and x
  assume "x \<in> set xs"
  then show "json_weight x < Suc (sum_list (map json_weight xs))"
    by (induction xs) auto
qed

definition identity_document :: "type_registration \<Rightarrow> json" where
  "identity_document r =
     JArray (map JString [providerId r, providerVersion r, codecId r, codecVersion r, rttType r]
       @ [canonicalJson (JObject (descriptor r)), JArray (map JString (dependencies r))])"

definition fingerprint_limits :: json_limits where
  "fingerprint_limits = \<lparr>maxDocumentBytes = 65536, maxDepth = 32, maxAllocationBytes = 1024 * 1024\<rparr>"

definition fingerprint_of :: "json_lib \<Rightarrow> nat \<Rightarrow> type_registration \<Rightarrow> string option" where
  "fingerprint_of lib store r =
     (case make_context store fingerprint_limits of
        None \<Rightarrow> None
      | Some c \<Rightarrow>
          (case serializeJson lib (JObject (descriptor r)) c (Some []) of
             (Fail e, _) \<Rightarrow> None
           | (Ok _, text1) \<Rightarrow>
               (case serializeJson lib (identity_document r) c text1 of
                  (Fail e, _) \<Rightarrow> None
                | (Ok _, text2) \<Rightarrow> text2)))"

section \<open>Protocols\<close>

text \<open>\<open>'c\<close> is the type of codecs; \<open>address\<close> is the identity of the object, its content is const.\<close>

record 'c type_protocol =
  address :: nat
  registration :: type_registration
  fingerprint :: string
  codec :: "'c option"

definition normalized :: "type_registration \<Rightarrow> type_registration" where
  "normalized r = r\<lparr>dependencies := remdups_adj (sort (dependencies r)),
     descriptor := AList.update ''reason'' JNull
       (AList.update ''jsonSupported'' (JBool True) (descriptor r))\<rparr>"

definition make_protocol ::
  "json_lib \<Rightarrow> nat \<Rightarrow> nat \<Rightarrow> type_registration \<Rightarrow> 'c option \<Rightarrow> 'c type_protocol option" where
  "make_protocol lib store addr r c =
     map_option (\<lambda>text. \<lparr>address = addr, registration = normalized r, fingerprint = text, codec = c\<rparr>)
       (fingerprint_of lib store (normalized r))"

section \<open>What validation accepts\<close>

text \<open>\<open>describes d refs\<close>: \<open>d\<close> is a descriptor of HTTP v1 that refers to the types \<open>refs\<close>.\<close>

inductive describes :: "json_object \<Rightarrow> string set \<Rightarrow> bool" where
  plain: "member d ''kind'' = Some (JString kind) \<Longrightarrow> kind \<in> {''boolean'', ''void''} \<Longrightarrow> describes d {}"
| small_integer: "member d ''kind'' = Some (JString ''integer'') \<Longrightarrow> member d ''bits'' = Some (JInt64 bits) \<Longrightarrow>
    bits \<in> {8, 16, 32} \<Longrightarrow> member d ''signed'' = Some (JBool sign) \<Longrightarrow>
    member d ''encoding'' = Some (JString ''number'') \<Longrightarrow> describes d {}"
| wide_integer: "member d ''kind'' = Some (JString ''integer'') \<Longrightarrow> member d ''bits'' = Some (JInt64 64) \<Longrightarrow>
    member d ''signed'' = Some (JBool sign) \<Longrightarrow>
    member d ''encoding'' = Some (JString ''decimalString'') \<Longrightarrow> describes d {}"
| floating: "member d ''kind'' = Some (JString ''float'') \<Longrightarrow> member d ''bits'' = Some (JInt64 bits) \<Longrightarrow>
    bits \<in> {32, 64} \<Longrightarrow> member d ''nonFinite'' =
      Some (JArray [JString ''NaN'', JString ''Infinity'', JString ''-Infinity'']) \<Longrightarrow> describes d {}"
| utf8_string: "member d ''kind'' = Some (JString ''string'') \<Longrightarrow>
    member d ''encoding'' = Some (JString ''utf8'') \<Longrightarrow> describes d {}"
| enumeration: "member d ''kind'' = Some (JString ''enum'') \<Longrightarrow>
    member d ''underlyingType'' = Some (JString t) \<Longrightarrow> identity_name t \<Longrightarrow> describes d {t}"
| sequence: "member d ''kind'' = Some (JString ''array'') \<Longrightarrow>
    member d ''elementType'' = Some (JString t) \<Longrightarrow> identity_name t \<Longrightarrow>
    member d ''length'' = Some JNull \<or> (\<exists>n. member d ''length'' = Some (JInt64 n) \<and> 0 \<le> sint n) \<Longrightarrow>
    describes d {t}"
| composite: "member d ''kind'' = Some (JString ''object'') \<Longrightarrow>
    member d ''fields'' = Some (JArray (map JObject objs)) \<Longrightarrow>
    map (\<lambda>obj. hasString obj ''name'') objs = map Some names \<Longrightarrow> distinct names \<Longrightarrow>
    map (\<lambda>obj. hasString obj ''rttType'') objs = map Some types \<Longrightarrow> describes d (set types)"

lemma hasString_Some: "hasString obj k = Some t \<longleftrightarrow> member obj k = Some (JString t) \<and> identity_name t"
  by (auto simp: hasString_def split: option.splits json.splits)

lemma hasString_None: "hasString obj k = None \<longleftrightarrow> (\<forall>t. member obj k = Some (JString t) \<longrightarrow> \<not> identity_name t)"
  by (simp add: hasString_def split: option.split json.split)

lemma check_fields_Inr:
  "check_fields refs seen items = Inr result \<longleftrightarrow>
     (\<exists>objs names types. items = map JObject objs
       \<and> map (\<lambda>obj. hasString obj ''name'') objs = map Some names
       \<and> map (\<lambda>obj. hasString obj ''rttType'') objs = map Some types
       \<and> distinct names \<and> set names \<inter> seen = {} \<and> result = set types \<union> refs)"
proof (induction refs seen items arbitrary: result rule: check_fields.induct)
  case (1 refs seen)
  show ?case by auto
next
  case (2 refs seen item items)
  show ?case
  proof (cases "\<exists>obj name t. item = JObject obj \<and> hasString obj ''name'' = Some name
      \<and> hasString obj ''rttType'' = Some t \<and> name \<notin> seen")
    case True
    then obtain obj name t where item: "item = JObject obj" "hasString obj ''name'' = Some name"
      "hasString obj ''rttType'' = Some t" "name \<notin> seen" by blast
    then have "check_fields refs seen (item # items) = check_fields (insert t refs) (insert name seen) items"
      by (simp add: addReference_def)
    moreover note 2 [of obj "Some name" "Some (insert t refs)" name "insert t refs" result]
    ultimately show ?thesis
      using item by (auto simp: addReference_def Cons_eq_map_conv map_eq_Cons_conv) (metis)+
  next
    case False
    then have "check_fields refs seen (item # items) \<noteq> Inr result"
      by (auto simp: addReference_def split: json.splits option.splits)
    with False show ?thesis by (auto simp: Cons_eq_map_conv map_eq_Cons_conv)
  qed
qed

lemma bits_cases:
  "\<not> (bits \<noteq> 8 \<and> bits \<noteq> 16 \<and> bits \<noteq> 32 \<and> bits \<noteq> 64) \<longleftrightarrow> bits \<in> {8, 16, 32} \<or> bits = (64 :: u64)"
  by auto

lemma numeric_Inr_integer:
  "numeric_descriptor ''integer'' d = Inr refs \<longleftrightarrow> refs = {} \<and>
     (\<exists>bits sign. member d ''bits'' = Some (JInt64 bits) \<and> member d ''signed'' = Some (JBool sign) \<and>
       (bits \<in> {8, 16, 32} \<and> member d ''encoding'' = Some (JString ''number'')
        \<or> bits = 64 \<and> member d ''encoding'' = Some (JString ''decimalString'')))"
proof (cases "\<exists>bits sign encoding. member d ''bits'' = Some (JInt64 bits)
    \<and> member d ''signed'' = Some (JBool sign) \<and> member d ''encoding'' = Some (JString encoding)")
  case True
  then obtain bits sign encoding where m: "member d ''bits'' = Some (JInt64 bits)"
    "member d ''signed'' = Some (JBool sign)" "member d ''encoding'' = Some (JString encoding)" by blast
  show ?thesis
    by (cases "bits = 64"; cases "bits \<in> {8, 16, 32}") (auto simp: numeric_descriptor_def m)
next
  case False
  have "numeric_descriptor ''integer'' d \<noteq> Inr refs"
  proof (cases "\<exists>bits. member d ''bits'' = Some (JInt64 bits)")
    case bits: True
    then obtain bits where bits: "member d ''bits'' = Some (JInt64 bits)" by blast
    show ?thesis
    proof (cases "\<exists>sign. member d ''signed'' = Some (JBool sign)")
      case True
      then obtain sign where sign: "member d ''signed'' = Some (JBool sign)" by blast
      with False bits have "member d ''encoding'' \<noteq> Some (JString t)" for t by blast
      then show ?thesis
        by (simp add: numeric_descriptor_def bits sign split: option.split json.split)
    next
      case False
      then show ?thesis
        by (simp add: numeric_descriptor_def bits split: option.split json.split)
    qed
  next
    case False
    then show ?thesis
      by (simp add: numeric_descriptor_def split: option.split json.split)
  qed
  with False show ?thesis by fast
qed

lemma numeric_Inr_float:
  "numeric_descriptor ''float'' d = Inr refs \<longleftrightarrow> refs = {} \<and>
     (\<exists>bits. member d ''bits'' = Some (JInt64 bits) \<and> bits \<in> {32, 64} \<and> member d ''nonFinite'' =
       Some (JArray [JString ''NaN'', JString ''Infinity'', JString ''-Infinity'']))"
  by (auto simp: numeric_descriptor_def split: option.splits json.splits if_splits)

lemma array_length_ok_iff:
  "array_length_ok l \<longleftrightarrow> l = Some JNull \<or> (\<exists>n. l = Some (JInt64 n) \<and> 0 \<le> sint n)"
  by (auto simp: array_length_ok_def split: option.splits json.splits)

lemma kind_names [simp]:
  "list_all identity_name [''boolean'', ''void'', ''integer'', ''float'', ''string'', ''enum'', ''array'', ''object'']"
  by code_simp

inductive_simps describes_iff: "describes d refs"

lemma hasString_kind [simp]:
  "member d ''kind'' = Some (JString kind) \<Longrightarrow>
     kind \<in> {''boolean'', ''void'', ''integer'', ''float'', ''string'', ''enum'', ''array'', ''object''} \<Longrightarrow>
     hasString d ''kind'' = Some kind"
  using kind_names by (auto simp: hasString_Some)

lemma check_descriptor_describes: "check_descriptor d = Inr refs \<longleftrightarrow> describes d refs"
proof (cases "hasString d ''kind''")
  case None
  then have "check_descriptor d \<noteq> Inr refs" by (simp add: check_descriptor_def)
  moreover have "\<not> describes d refs"
    using None kind_names by (auto simp: describes_iff hasString_def)
  ultimately show ?thesis by simp
next
  case (Some kind)
  then have kind: "member d ''kind'' = Some (JString kind)" by (simp add: hasString_Some)
  note facts = check_descriptor_def Some kind
  consider "kind = ''integer''" | "kind = ''float''" | "kind = ''string''" | "kind = ''enum''"
    | "kind = ''array''" | "kind = ''object''" | "kind = ''boolean''" | "kind = ''void''"
    | "kind \<notin> {''integer'', ''float'', ''string'', ''enum'', ''array'', ''object'', ''boolean'', ''void''}"
    unfolding insert_iff empty_iff by satx
  then show ?thesis
  proof cases
    case 1
    show ?thesis unfolding describes_iff facts 1 by (simp add: numeric_Inr_integer) blast
  next
    case 2
    show ?thesis unfolding describes_iff facts 2 by (simp add: numeric_Inr_float)
  next
    case 4
    show ?thesis unfolding describes_iff facts 4
      by (auto simp: addReference_def hasString_Some hasString_None split: option.splits)
  next
    case 5
    show ?thesis unfolding describes_iff facts 5
      by (auto simp: addReference_def hasString_Some hasString_None array_length_ok_iff split: option.splits)
  next
    case 6
    show ?thesis unfolding describes_iff facts 6
      by (auto simp: check_fields_Inr split: option.splits json.splits)
  next
    case 9
    then show ?thesis
      unfolding describes_iff facts insert_iff empty_iff de_Morgan_disj by (elim conjE) simp
  qed (unfold describes_iff facts, simp_all add: eq_commute [of "{}"])
qed

lemma validates_iff:
  "validateRegistration r = Inr () \<longleftrightarrow>
     list_all identity_name [providerId r, providerVersion r, codecId r, codecVersion r, rttType r]
     \<and> describes (descriptor r) (set (dependencies r))"
  unfolding check_descriptor_describes [symmetric] validateRegistration_def by (auto split: sum.splits)

text \<open>
  C24: \<open>validateRegistration\<close> accepts exactly the registrations whose five identity strings are
  well-formed names and whose descriptor is one of HTTP v1 that refers to exactly the declared
  dependencies: no dependency is missing and none is superfluous.
\<close>

theorem validateRegistration_accepts:
  "validateRegistration r = Inr () \<longleftrightarrow>
     list_all identity_name [providerId r, providerVersion r, codecId r, codecVersion r, rttType r]
     \<and> describes (descriptor r) (set (dependencies r))"
  by (rule validates_iff)

text \<open>The members that the constructor of \<open>TypeProtocol\<close> adds do not change what a descriptor says.\<close>

lemma describes_update:
  assumes "k \<notin> {''kind'', ''bits'', ''signed'', ''encoding'', ''nonFinite'', ''underlyingType'', ''elementType'',
    ''length'', ''fields''}"
  shows "describes (AList.update k v d) refs \<longleftrightarrow> describes d refs"
proof -
  have same: "member (AList.update k v d) ''kind'' = member d ''kind''"
    "member (AList.update k v d) ''bits'' = member d ''bits''"
    "member (AList.update k v d) ''signed'' = member d ''signed''"
    "member (AList.update k v d) ''encoding'' = member d ''encoding''"
    "member (AList.update k v d) ''nonFinite'' = member d ''nonFinite''"
    "member (AList.update k v d) ''underlyingType'' = member d ''underlyingType''"
    "member (AList.update k v d) ''elementType'' = member d ''elementType''"
    "member (AList.update k v d) ''length'' = member d ''length''"
    "member (AList.update k v d) ''fields'' = member d ''fields''"
    using assms by (auto simp: update_conv')
  have "check_descriptor (AList.update k v d) = check_descriptor d"
    unfolding check_descriptor_def numeric_descriptor_def addReference_def hasString_def same by (rule refl)
  then show ?thesis by (simp only: check_descriptor_describes [symmetric])
qed

lemma validate_normalized:
  "validateRegistration (normalized r) = Inr () \<longleftrightarrow>
     list_all identity_name [providerId r, providerVersion r, codecId r, codecVersion r, rttType r]
     \<and> describes (descriptor r) (set (dependencies r))"
proof -
  have "describes (descriptor (normalized r)) refs \<longleftrightarrow> describes (descriptor r) refs" for refs
    by (simp add: normalized_def describes_update)
  then show ?thesis unfolding validates_iff by (simp add: normalized_def)
qed

section \<open>What a fingerprint identifies\<close>

text \<open>Equality of JSON values up to the order of members.\<close>

inductive same_json :: "json \<Rightarrow> json \<Rightarrow> bool" where
  same_refl: "same_json v v"
| same_array: "list_all2 same_json xs ys \<Longrightarrow> same_json (JArray xs) (JArray ys)"
| same_object: "(\<And>k. rel_option same_json (member ms k) (member ns k)) \<Longrightarrow> same_json (JObject ms) (JObject ns)"

lemma canonical_members:
  "map_of (map (\<lambda>(k, v). (k, canonicalJson v)) (map_build ms)) k = map_option canonicalJson (member ms k)"
  by (simp add: map_of_map)

lemma same_imp_canonical: "same_json v w \<Longrightarrow> canonicalJson v = canonicalJson w"
proof (induction rule: same_json.induct)
  case (same_array xs ys)
  then show ?case by (induction rule: list_all2_induct) auto
next
  case (same_object ms ns)
  have "map (\<lambda>(k, v). (k, canonicalJson v)) (map_build ms) = map (\<lambda>(k, v). (k, canonicalJson v)) (map_build ns)"
  proof (rule ordered_ext)
    show "map_of (map (\<lambda>(k, v). (k, canonicalJson v)) (map_build ms)) =
        map_of (map (\<lambda>(k, v). (k, canonicalJson v)) (map_build ns))"
    proof
      fix k
      show "map_of (map (\<lambda>(k, v). (k, canonicalJson v)) (map_build ms)) k =
          map_of (map (\<lambda>(k, v). (k, canonicalJson v)) (map_build ns)) k"
        using same_object [of k] unfolding canonical_members
        by (cases "member ms k"; cases "member ns k") auto
    qed
  qed simp_all
  then show ?case by simp
qed simp

lemma canonical_imp_same: "canonicalJson v = canonicalJson w \<Longrightarrow> same_json v w"
proof (induction v arbitrary: w rule: canonicalJson.induct)
  case (1 ms)
  from 1(2) obtain ns where w: "w = JObject ns"
    and eq: "map (\<lambda>(k, v). (k, canonicalJson v)) (map_build ms) = map (\<lambda>(k, v). (k, canonicalJson v)) (map_build ns)"
    by (cases w) auto
  have "rel_option same_json (member ms k) (member ns k)" for k
  proof -
    have "map_option canonicalJson (member ms k) = map_option canonicalJson (member ns k)"
      using arg_cong [OF eq, of "\<lambda>m. map_of m k"] by (simp only: canonical_members)
    moreover have "(k, v) \<in> set (map_build ms)" if "member ms k = Some v" for v
      using that by (simp add: ordered_mem)
    ultimately show ?thesis
      using 1(1) [of "(k, _)" k] by (cases "member ms k"; cases "member ns k") auto
  qed
  then show ?case unfolding w by (rule same_object)
next
  case (2 xs)
  from 2(2) obtain ys where w: "w = JArray ys" and eq: "map canonicalJson xs = map canonicalJson ys"
    by (cases w) auto
  have "list_all2 same_json xs ys"
    using eq 2(1) by (auto simp: list_all2_conv_all_nth list_eq_iff_nth_eq)
  then show ?case unfolding w by (rule same_array)
qed (case_tac w; simp add: same_refl)+

text \<open>
  The document whose text is a fingerprint identifies a registration: two registrations
  have the same one exactly if their five identity strings and their dependencies agree and
  their descriptors agree up to the order of members, at every depth.
\<close>

theorem identity_document_exact:
  "identity_document r = identity_document s \<longleftrightarrow>
     providerId r = providerId s \<and> providerVersion r = providerVersion s
     \<and> codecId r = codecId s \<and> codecVersion r = codecVersion s \<and> rttType r = rttType s
     \<and> dependencies r = dependencies s
     \<and> same_json (JObject (descriptor r)) (JObject (descriptor s))"
proof -
  have strings: "map JString xs = map JString ys \<longleftrightarrow> xs = ys" for xs ys
    by (rule inj_map_eq_map) (simp add: inj_def)
  have "canonicalJson v = canonicalJson w \<longleftrightarrow> same_json v w" for v w
    using same_imp_canonical canonical_imp_same by blast
  then show ?thesis by (auto simp: identity_document_def strings simp del: canonicalJson.simps)
qed

end
