(* ===== verification/Type_Catalog.thy ===== *)
theory Type_Catalog
  imports Type_Registration
begin

text \<open>
  The process-wide registry of type protocols and the frozen catalog (\<open>Registry\<close>,
  \<open>registerTypeProtocol\<close>, \<open>registeredTypeCodec\<close>, \<open>freezeTypeCatalog\<close> and \<open>TypeCatalog\<close> in
  \<open>type_protocol.cpp\<close>).

  A \<open>TypeInfo *\<close> is a number.  RTT's own type objects are a parameter: \<open>type_slots\<close> is their
  interface over an RTT state \<open>'w\<close>, with the name of a type, the occupant of its slot for the
  transport id of this library, and the attempt to fill the slot.
\<close>

section \<open>State\<close>

datatype 'c occupant = Http "'c type_protocol" | Foreign

record ('w, 'c) type_slots =
  getTypeName :: "nat \<Rightarrow> string"
  getProtocol :: "'w \<Rightarrow> nat \<Rightarrow> 'c occupant option"
  addProtocol :: "nat \<Rightarrow> 'c occupant \<Rightarrow> 'w \<Rightarrow> bool option \<times> 'w"

record 'c type_binding =
  bound :: type_registration
  bound_codec :: "'c option"

record 'c type_catalog =
  catalog_types :: "(string \<times> 'c type_binding) list"
  catalog_identities :: "(nat \<times> string) list"

record 'c registry =
  frozen :: bool
  registrations :: "(nat \<times> 'c type_protocol) list"
  catalog :: "'c type_catalog option"
  freezeError :: string

definition new_registry :: "'c registry" where
  "new_registry = \<lparr>frozen = False, registrations = [], catalog = None, freezeError = []\<rparr>"

text \<open>Whether a slot holds this very protocol object.\<close>

definition holds :: "'c occupant option \<Rightarrow> 'c type_protocol \<Rightarrow> bool" where
  "holds occ p = (case occ of Some (Http q) \<Rightarrow> address q = address p | _ \<Rightarrow> False)"

section \<open>Registration\<close>

datatype outcome = Accepted | Refused string | Raised

definition registerTypeProtocol ::
  "('w, 'c) type_slots \<Rightarrow> nat option \<Rightarrow> 'c type_protocol option \<Rightarrow> 'w \<Rightarrow> 'c registry \<Rightarrow>
     outcome \<times> 'w \<times> 'c registry" where
  "registerTypeProtocol api ty protocol w st =
     (case (ty, protocol) of
        (Some t, Some p) \<Rightarrow>
          if codec p = None \<or> getTypeName api t \<noteq> rttType (registration p) then
            (Refused ''invalid HTTP type protocol registration'', w, st)
          else (case validateRegistration (registration p) of
            Inl e \<Rightarrow> (Refused e, w, st)
          | Inr _ \<Rightarrow>
              (case getProtocol api w t of
                 Some occ \<Rightarrow>
                   (case (occ, map_of (registrations st) t) of
                      (Http existing, Some known) \<Rightarrow>
                        if fingerprint existing \<noteq> fingerprint p \<or> address known \<noteq> address existing then
                          (Refused (''conflicting HTTP type protocol registration: '' @ getTypeName api t), w, st)
                        else (Accepted, w, st)
                    | _ \<Rightarrow>
                        (Refused (''conflicting HTTP type protocol registration: '' @ getTypeName api t), w, st))
               | None \<Rightarrow>
                   if frozen st then
                     (Refused (''HTTP type catalog is frozen: '' @ getTypeName api t), w, st)
                   else if map_of (registrations st) t \<noteq> None then
                     (Refused ''HTTP protocol slot changed outside the registration API'', w, st)
                   else
                     (let entered = map_emplace t p (registrations st) in
                      case addProtocol api t (Http p) w of
                        (Some True, w') \<Rightarrow> (Accepted, w', st\<lparr>registrations := entered\<rparr>)
                      | (Some False, w') \<Rightarrow>
                          (Refused ''RTT rejected HTTP type protocol registration'', w',
                           st\<lparr>registrations := map_erase t entered\<rparr>)
                      | (None, w') \<Rightarrow> (Raised, w', st\<lparr>registrations := map_erase t entered\<rparr>))))
      | _ \<Rightarrow> (Refused ''invalid HTTP type protocol registration'', w, st))"

definition registeredTypeCodec ::
  "('w, 'c) type_slots \<Rightarrow> 'w \<Rightarrow> 'c registry \<Rightarrow> nat option \<Rightarrow> 'c option" where
  "registeredTypeCodec api w st ty =
     (case ty of
        None \<Rightarrow> None
      | Some t \<Rightarrow>
          (case map_of (registrations st) t of
             None \<Rightarrow> None
           | Some found \<Rightarrow> if holds (getProtocol api w t) found then codec found else None))"

section \<open>Freezing\<close>

definition binding_of :: "'c type_protocol \<Rightarrow> 'c type_binding" where
  "binding_of p = \<lparr>bound = registration p, bound_codec = codec p\<rparr>"

fun stage_types ::
  "('w, 'c) type_slots \<Rightarrow> 'w \<Rightarrow> (nat \<times> 'c type_protocol) list \<Rightarrow> 'c type_catalog \<Rightarrow> 'c type_catalog option"
where
  "stage_types api w [] staged = Some staged"
| "stage_types api w ((t, p) # regs) staged =
     (if \<not> holds (getProtocol api w t) p then None
      else stage_types api w regs
        (staged\<lparr>catalog_types := map_emplace (getTypeName api t) (binding_of p) (catalog_types staged),
           catalog_identities := map_emplace t (getTypeName api t) (catalog_identities staged)\<rparr>))"

datatype search_result = Searched "string \<Rightarrow> nat" | Rejected string | Escaped

text \<open>
  \<open>Escaped\<close> is the exception of an \<open>at\<close> that finds nothing.  \<open>kind_at\<close> is
  \<open>descriptor.at("kind")\<close>.
\<close>

definition kind_at :: "type_registration \<Rightarrow> json option" where
  "kind_at r = member (descriptor r) ''kind''"

definition enum_test :: "type_registration \<Rightarrow> type_registration \<Rightarrow> bool option" where
  "enum_test def referenced =
     (case kind_at def of
        None \<Rightarrow> None
      | Some kind \<Rightarrow>
          if kind \<noteq> JString ''enum'' then Some False
          else map_option (\<lambda>k. k \<noteq> JString ''integer'') (kind_at referenced))"

text \<open>One depth-first search with an explicit stack, its top first; marks 1 and 2 are open and done.\<close>

function (sequential) search ::
  "(string \<times> 'c type_binding) list \<Rightarrow> (string \<Rightarrow> nat) \<Rightarrow> (string \<times> nat) list \<Rightarrow> search_result"
where
  "search types marks [] = Searched marks"
| "search types marks ((current, next_dep) # stack) =
     (case map_of types current of
        None \<Rightarrow> Escaped
      | Some binding \<Rightarrow>
          let def = bound binding in
          if length (dependencies def) \<le> next_dep then search types (marks(current := 2)) stack
          else let dependency = dependencies def ! next_dep in
            (case map_of types dependency of
               None \<Rightarrow> Rejected (''missing HTTP type dependency: '' @ dependency)
             | Some referenced \<Rightarrow>
                 (case enum_test def (bound referenced) of
                    None \<Rightarrow> Escaped
                  | Some True \<Rightarrow> Rejected ''HTTP enum underlying type is not an integer''
                  | Some False \<Rightarrow>
                      if marks dependency = 1 then
                        Rejected (''recursive HTTP type definition: '' @ dependency)
                      else if marks dependency = 0 then
                        search types (marks(dependency := 1)) ((dependency, 0) # (current, Suc next_dep) # stack)
                      else search types marks ((current, Suc next_dep) # stack))))"
  by pat_completeness auto

definition unvisited :: "(string \<times> 'c) list \<Rightarrow> (string \<Rightarrow> nat) \<Rightarrow> nat" where
  "unvisited types marks = length (filter (\<lambda>(n, _). marks n = 0) types)"

fun frame_work :: "(string \<times> 'c type_binding) list \<Rightarrow> string \<times> nat \<Rightarrow> nat" where
  "frame_work types (n, i) =
     Suc (case map_of types n of None \<Rightarrow> 0 | Some b \<Rightarrow> length (dependencies (bound b)) - i)"

lemma unvisited_le: "(\<And>n. marks' n = 0 \<Longrightarrow> marks n = 0) \<Longrightarrow> unvisited types marks' \<le> unvisited types marks"
  unfolding unvisited_def by (induction types) auto

lemma unvisited_less:
  "map_of types n = Some b \<Longrightarrow> marks n = 0 \<Longrightarrow> unvisited types (marks(n := Suc k)) < unvisited types marks"
proof (induction types)
  case (Cons e types)
  have "unvisited types (marks(n := Suc k)) \<le> unvisited types marks"
    by (rule unvisited_le) (auto split: if_splits)
  then show ?case using Cons by (cases e) (auto simp: unvisited_def split: if_splits)
qed simp

termination search
proof (relation "measures [\<lambda>(types, marks, stack). unvisited types marks,
    \<lambda>(types, marks, stack). sum_list (map (frame_work types) stack)]", goal_cases)
  case 1
  then show ?case by simp
next
  case (2 types marks current next_dep stack b)
  have "unvisited types (marks(current := 2)) \<le> unvisited types marks"
    by (rule unvisited_le) (auto split: if_splits)
  then show ?case by (simp add: le_less)
next
  case (3 types marks current next_dep stack b x d r)
  then show ?case using unvisited_less [of types d r marks 0] by simp
next
  case (4 types marks current next_dep stack b x d r)
  then show ?case by simp
qed

declare search.simps(2) [simp del]

fun search_all ::
  "(string \<times> 'c type_binding) list \<Rightarrow> (string \<Rightarrow> nat) \<Rightarrow> string list \<Rightarrow> search_result" where
  "search_all types marks [] = Searched marks"
| "search_all types marks (name # names) =
     (if marks name = 2 then search_all types marks names
      else case search types (marks(name := 1)) [(name, 0)] of
        Searched marks' \<Rightarrow> search_all types marks' names
      | r \<Rightarrow> r)"

text \<open>The value returned is \<open>None\<close> when an exception escapes.\<close>

definition freezeTypeCatalog ::
  "('w, 'c) type_slots \<Rightarrow> 'w \<Rightarrow> 'c registry \<Rightarrow> 'c type_catalog option option \<times> 'c registry" where
  "freezeTypeCatalog api w st =
     (if frozen st then (Some (catalog st), st)
      else
        let st1 = st\<lparr>frozen := True, freezeError := ''HTTP type catalog could not be frozen''\<rparr> in
        case stage_types api w (registrations st) \<lparr>catalog_types = [], catalog_identities = []\<rparr> of
          None \<Rightarrow> (Some None,
            st1\<lparr>freezeError := ''HTTP type protocol slot changed outside the registration API''\<rparr>)
        | Some staged \<Rightarrow>
            (case search_all (catalog_types staged) (\<lambda>_. 0) (map fst (catalog_types staged)) of
               Escaped \<Rightarrow> (None, st1)
             | Rejected e \<Rightarrow> (Some None, st1\<lparr>freezeError := e\<rparr>)
             | Searched _ \<Rightarrow> (Some (Some staged), st1\<lparr>catalog := Some staged, freezeError := []\<rparr>)))"

definition find_name :: "'c type_catalog \<Rightarrow> string \<Rightarrow> 'c type_binding option" where
  "find_name cat name = map_of (catalog_types cat) name"

definition find_type :: "'c type_catalog \<Rightarrow> nat \<Rightarrow> 'c type_binding option" where
  "find_type cat t = (case map_of (catalog_identities cat) t of None \<Rightarrow> None | Some name \<Rightarrow> find_name cat name)"

section \<open>The search decides well-foundedness of the dependencies\<close>

definition deps :: "(string \<times> 'c type_binding) list \<Rightarrow> string \<Rightarrow> string list" where
  "deps types n = (case map_of types n of None \<Rightarrow> [] | Some b \<Rightarrow> dependencies (bound b))"

definition refers :: "(string \<times> 'c type_binding) list \<Rightarrow> (string \<times> string) set" where
  "refers types = {(n, d). d \<in> set (deps types n)}"

definition kind_of :: "(string \<times> 'c type_binding) list \<Rightarrow> string \<Rightarrow> json option" where
  "kind_of types n = Option.bind (map_of types n) (\<lambda>b. kind_at (bound b))"

text \<open>A reference is sound if it resolves and, from an enumeration, resolves to an integer.\<close>

definition sound_ref :: "(string \<times> 'c type_binding) list \<Rightarrow> string \<Rightarrow> string \<Rightarrow> bool" where
  "sound_ref types n d \<longleftrightarrow> map_of types d \<noteq> None
     \<and> (kind_of types n = Some (JString ''enum'') \<longrightarrow> kind_of types d = Some (JString ''integer''))"

definition well_founded_types :: "(string \<times> 'c type_binding) list \<Rightarrow> bool" where
  "well_founded_types types \<longleftrightarrow>
     (\<forall>(n, d) \<in> refers types. sound_ref types n d) \<and> acyclic (refers types)"

definition described :: "(string \<times> 'c type_binding) list \<Rightarrow> bool" where
  "described types \<longleftrightarrow> list_all (\<lambda>(n, b). kind_at (bound b) \<noteq> None) types"

definition settled :: "(string \<times> 'c type_binding) list \<Rightarrow> (string \<Rightarrow> nat) \<Rightarrow> string \<Rightarrow> bool" where
  "settled types m n \<longleftrightarrow> (\<forall>d \<in> set (deps types n). sound_ref types n d \<and> m d = 2)
     \<and> n \<in> Wellfounded.acc ((refers types)\<inverse>)"

text \<open>
  The frames of the stack, the top first; \<open>up\<close> is the type of the frame above, the one
  dependency that is examined and not yet done.
\<close>

fun stack_frames :: "(string \<times> 'c type_binding) list \<Rightarrow> (string \<Rightarrow> nat) \<Rightarrow> string option \<Rightarrow>
    (string \<times> nat) list \<Rightarrow> bool" where
  "stack_frames types m up [] = True"
| "stack_frames types m up ((n, i) # st) \<longleftrightarrow> map_of types n \<noteq> None
     \<and> (\<forall>d \<in> set (take i (deps types n)). sound_ref types n d \<and> (m d = 2 \<or> Some d = up))
     \<and> (\<forall>u. up = Some u \<longrightarrow> u \<in> set (deps types n))
     \<and> stack_frames types m (Some n) st"

definition search_inv :: "(string \<times> 'c type_binding) list \<Rightarrow> (string \<Rightarrow> nat) \<Rightarrow> (string \<times> nat) list \<Rightarrow> bool" where
  "search_inv types m st \<longleftrightarrow> stack_frames types m None st \<and> distinct (map fst st)
     \<and> (\<forall>n. m n \<le> 2) \<and> (\<forall>n. m n = 1 \<longleftrightarrow> n \<in> fst ` set st) \<and> (\<forall>n. m n = 2 \<longrightarrow> settled types m n)"

lemma frames_mono: "(\<And>n. m n = 2 \<Longrightarrow> m' n = 2) \<Longrightarrow> stack_frames types m up st \<Longrightarrow> stack_frames types m' up st"
  by (induction types m up st rule: stack_frames.induct) auto

lemma frames_close:
  assumes "stack_frames types m (Some n) st"
  shows "stack_frames types (m(n := 2)) None st"
proof (cases st)
  case (Cons e rest)
  obtain c i where e: "e = (c, i)" by (cases e)
  have "stack_frames types (m(n := 2)) (Some c) rest"
    using assms unfolding Cons e by (intro frames_mono [of m "m(n := 2)"]) simp_all
  then show ?thesis using assms Cons e by auto
qed simp

lemma frames_path:
  "stack_frames types m up ((c, i) # st) \<Longrightarrow> d \<in> fst ` set ((c, i) # st) \<Longrightarrow> (d, c) \<in> (refers types)\<^sup>*"
proof (induction st arbitrary: up c i)
  case (Cons e st)
  obtain c' i' where e: "e = (c', i')" by (cases e)
  show ?case
  proof (cases "d = c")
    case False
    have "stack_frames types m (Some c) ((c', i') # st)" "d \<in> fst ` set ((c', i') # st)"
      using Cons.prems False unfolding e by simp_all
    then have "(d, c') \<in> (refers types)\<^sup>*" by (rule Cons.IH)
    moreover have "(c', c) \<in> refers types" using Cons.prems e by (auto simp: refers_def)
    ultimately show ?thesis by (rule rtrancl_into_rtrancl)
  qed simp
qed simp

lemma settled_mono: "(\<And>n. m n = 2 \<Longrightarrow> m' n = 2) \<Longrightarrow> settled types m n \<Longrightarrow> settled types m' n"
  by (auto simp: settled_def)

lemma search_inv_pop:
  assumes "search_inv types m ((c, i) # st)" "length (deps types c) \<le> i"
  shows "search_inv types (m(c := 2)) st"
proof -
  have fr: "\<forall>d \<in> set (deps types c). sound_ref types c d \<and> m d = 2" "stack_frames types m (Some c) st"
    using assms by (auto simp: search_inv_def)
  have "settled types (m(c := 2)) c"
  proof -
    have black: "\<forall>n. m n = 2 \<longrightarrow> settled types m n" using assms(1) by (simp add: search_inv_def)
    have "c \<in> Wellfounded.acc ((refers types)\<inverse>)"
    proof (rule accI)
      fix y
      assume "(y, c) \<in> (refers types)\<inverse>"
      then have "settled types m y" using fr(1) black by (simp add: refers_def)
      then show "y \<in> Wellfounded.acc ((refers types)\<inverse>)" by (simp add: settled_def)
    qed
    then show ?thesis using fr(1) by (auto simp: settled_def)
  qed
  moreover have "settled types (m(c := 2)) n" if "m n = 2" for n
  proof (rule settled_mono)
    show "settled types m n" using assms(1) that by (simp add: search_inv_def)
  qed simp
  ultimately show ?thesis
    using assms(1) frames_close [OF fr(2)] by (auto simp: search_inv_def image_iff)
qed

lemma search_inv_advance:
  assumes "search_inv types m ((c, i) # st)" "i < length (deps types c)"
    and "sound_ref types c (deps types c ! i)" "m (deps types c ! i) = 2"
  shows "search_inv types m ((c, Suc i) # st)"
  using assms by (auto simp: search_inv_def take_Suc_conv_app_nth)

lemma search_inv_push:
  assumes "search_inv types m ((c, i) # st)" "i < length (deps types c)"
    and "sound_ref types c (deps types c ! i)" "m (deps types c ! i) = 0"
  shows "search_inv types (m(deps types c ! i := 1)) ((deps types c ! i, 0) # (c, Suc i) # st)"
proof -
  let ?d = "deps types c ! i" and ?m = "m(deps types c ! i := 1)"
  have same: "m n = 2 \<Longrightarrow> ?m n = 2" for n using assms(4) by auto
  have "stack_frames types m (Some c) st" using assms(1) by (simp add: search_inv_def)
  then have "stack_frames types ?m (Some c) st" by (rule frames_mono [rotated]) (rule same)
  moreover have "settled types ?m n" if "?m n = 2" for n
  proof (rule settled_mono)
    show "settled types m n" using assms(1) that by (simp add: search_inv_def split: if_splits)
  qed (rule same)
  moreover have "?d \<notin> fst ` set ((c, i) # st)"
    using assms(1,4) by (metis search_inv_def zero_neq_one)
  moreover have "map_of types ?d \<noteq> None" using assms(3) by (simp add: sound_ref_def)
  moreover have "\<forall>n. ?m n = 1 \<longleftrightarrow> n = ?d \<or> n \<in> fst ` set ((c, i) # st)"
    using assms(1,4) by (auto simp: search_inv_def)
  ultimately show ?thesis
    using assms same by (auto simp: search_inv_def take_Suc_conv_app_nth)
qed

lemma described_kind: "described types \<Longrightarrow> map_of types n = Some b \<Longrightarrow> kind_at (bound b) \<noteq> None"
  by (auto simp: described_def list_all_iff dest!: map_of_SomeD)

lemma enum_test_sound:
  assumes "described types" "map_of types c = Some b" "map_of types d = Some r"
  shows "enum_test (bound b) (bound r) = Some (\<not> sound_ref types c d)"
  using assms described_kind [OF assms(1)]
  by (auto simp: enum_test_def sound_ref_def kind_of_def split: option.split)

definition search_post :: "(string \<times> 'c type_binding) list \<Rightarrow> (string \<Rightarrow> nat) \<Rightarrow> search_result \<Rightarrow> bool" where
  "search_post types m r =
     (case r of
        Searched m' \<Rightarrow> search_inv types m' [] \<and> (\<forall>n. m n \<noteq> 0 \<longrightarrow> m' n \<noteq> 0)
      | Rejected _ \<Rightarrow> \<not> well_founded_types types
      | Escaped \<Rightarrow> False)"

lemma search_post_mono:
  "search_post types m' r \<Longrightarrow> (\<And>n. m n \<noteq> 0 \<Longrightarrow> m' n \<noteq> 0) \<Longrightarrow> search_post types m r"
  by (auto simp: search_post_def split: search_result.splits)

lemma search_top:
  assumes "search_inv types m ((c, i) # st)"
  obtains b where "map_of types c = Some b" "deps types c = dependencies (bound b)"
  using assms by (auto simp: search_inv_def deps_def)

lemma cycle_rejected:
  assumes "search_inv types m ((c, i) # st)" "d \<in> set (deps types c)" "m d = 1"
  shows "\<not> acyclic (refers types)"
proof -
  have "d \<in> fst ` set ((c, i) # st)" using assms(1,3) by (simp add: search_inv_def)
  then have "(d, c) \<in> (refers types)\<^sup>*"
    using assms(1) frames_path [of types m None c i st d] by (simp add: search_inv_def)
  moreover have "(c, d) \<in> refers types" using assms(2) by (simp add: refers_def)
  ultimately have "(c, c) \<in> (refers types)\<^sup>+" by (rule rtrancl_into_trancl2 [rotated])
  then show ?thesis by (auto simp: acyclic_def)
qed

lemma unsound_rejected: "(c, d) \<in> refers types \<Longrightarrow> \<not> sound_ref types c d \<Longrightarrow> \<not> well_founded_types types"
  unfolding well_founded_types_def by blast

lemma search_correct:
  "described types \<Longrightarrow> search_inv types m st \<Longrightarrow> search_post types m (search types m st)"
proof (induction types m st rule: search.induct)
  case (1 types m)
  then show ?case by (simp add: search_post_def)
next
  case (2 types m c i st)
  obtain b where b: "map_of types c = Some b" and deps: "deps types c = dependencies (bound b)"
    using 2(5) by (rule search_top)
  show ?case
  proof (cases "length (dependencies (bound b)) \<le> i")
    case True
    have inv: "search_inv types (m(c := 2)) st"
      by (rule search_inv_pop [OF 2(5)]) (simp add: deps True)
    have "search_post types (m(c := 2)) (search types (m(c := 2)) st)"
      by (rule 2(1) [OF b refl True 2(4) inv])
    then have "search_post types m (search types (m(c := 2)) st)" by (rule search_post_mono) simp
    then show ?thesis using True b by (simp add: search.simps(2))
  next
    case False
    define d where "d = dependencies (bound b) ! i"
    have d: "d = deps types c ! i" "i < length (deps types c)" "d \<in> set (deps types c)"
      using False deps by (simp_all add: d_def)
    have edge: "(c, d) \<in> refers types" using d(3) by (simp add: refers_def)
    show ?thesis
    proof (cases "map_of types d")
      case None
      then have "\<not> well_founded_types types"
        by (intro unsound_rejected [OF edge]) (simp add: sound_ref_def)
      then show ?thesis using None False b by (simp add: d_def Let_def search_post_def search.simps(2))
    next
      case (Some r)
      note test = enum_test_sound [OF 2(4) b Some]
      note IH = 2(2,3) [OF b refl False d_def Some]
      show ?thesis
      proof (cases "sound_ref types c d")
        case unsound: False
        then have "\<not> well_founded_types types" by (rule unsound_rejected [OF edge])
        then show ?thesis
          using unsound test Some False b by (simp add: d_def [symmetric] Let_def search_post_def search.simps(2))
      next
        case True
        have eq: "search types m ((c, i) # st) =
            (if m d = 1 then Rejected (''recursive HTTP type definition: '' @ d)
             else if m d = 0 then search types (m(d := 1)) ((d, 0) # (c, Suc i) # st)
             else search types m ((c, Suc i) # st))"
          using True test Some False b by (simp add: d_def [symmetric] Let_def search.simps(2))
        have "m d \<le> 2" using 2(5) by (simp add: search_inv_def)
        then consider "m d = 1" | "m d = 0" | "m d = 2" by linarith
        then show ?thesis
        proof cases
          case 1
          then show ?thesis
            using cycle_rejected [OF "2.prems"(2) d(3)] unfolding eq
            by (simp add: search_post_def well_founded_types_def)
        next
          case 2
          have inv: "search_inv types (m(d := 1)) ((d, 0) # (c, Suc i) # st)"
            using search_inv_push [OF "2.prems"(2) d(2)] True 2 by (simp add: d(1))
          have ok: "enum_test (bound b) (bound r) = Some False" using test True by simp
          have "search_post types (m(d := 1)) (search types (m(d := 1)) ((d, 0) # (c, Suc i) # st))"
            by (rule IH(1) [OF ok refl _ 2 "2.prems"(1) inv]) (simp add: 2)
          then have "search_post types m (search types (m(d := 1)) ((d, 0) # (c, Suc i) # st))"
            by (rule search_post_mono) simp
          then show ?thesis using 2 unfolding eq by simp
        next
          case 3
          have inv: "search_inv types m ((c, Suc i) # st)"
            using search_inv_advance [OF "2.prems"(2) d(2)] True 3 by (simp add: d(1))
          have ok: "enum_test (bound b) (bound r) = Some False" using test True by simp
          have "search_post types m (search types m ((c, Suc i) # st))"
            by (rule IH(2) [OF ok refl _ _ "2.prems"(1) inv]) (simp_all add: 3)
          then show ?thesis using 3 unfolding eq by simp
        qed
      qed
    qed
  qed
qed

lemma search_all_correct:
  assumes "described types"
  shows "search_inv types m [] \<Longrightarrow> list_all (\<lambda>n. map_of types n \<noteq> None) names \<Longrightarrow>
     case search_all types m names of
       Searched m' \<Rightarrow> search_inv types m' [] \<and> (\<forall>n. m n \<noteq> 0 \<or> n \<in> set names \<longrightarrow> m' n \<noteq> 0)
     | Rejected _ \<Rightarrow> \<not> well_founded_types types
     | Escaped \<Rightarrow> False"
proof (induction names arbitrary: m)
  case (Cons n names)
  show ?case
  proof (cases "m n = 2")
    case True
    then show ?thesis
      using Cons.IH [of m] Cons.prems by (auto split: search_result.splits)
  next
    case False
    have marks: "\<forall>k. m k = 0 \<or> m k = 2"
      using Cons.prems(1) by (auto simp: search_inv_def) (metis le_less less_2_cases One_nat_def)
    have "search_inv types (m(n := 1)) [(n, 0)]"
    proof -
      have "settled types (m(n := 1)) k" if "(m(n := 1)) k = 2" for k
      proof (rule settled_mono)
        show "settled types m k" using Cons.prems(1) that by (simp add: search_inv_def split: if_splits)
      qed (use False in auto)
      then show ?thesis using Cons.prems marks False by (auto simp: search_inv_def)
    qed
    then have post: "search_post types (m(n := 1)) (search types (m(n := 1)) [(n, 0)])"
      by (rule search_correct [OF assms])
    show ?thesis
    proof (cases "search types (m(n := 1)) [(n, 0)]")
      case (Searched m')
      with post have "search_inv types m' []" "\<forall>k. m k \<noteq> 0 \<or> k = n \<longrightarrow> m' k \<noteq> 0"
        by (auto simp: search_post_def)
      then show ?thesis
        using Cons.IH [of m'] Cons.prems(2) Searched False
        by (auto split: search_result.splits)
    qed (use post False in \<open>simp_all add: search_post_def\<close>)
  qed
qed simp

lemma search_all_decides:
  assumes "described types"
  shows "(\<exists>m. search_all types (\<lambda>_. 0) (map fst types) = Searched m) \<longleftrightarrow> well_founded_types types"
    and "search_all types (\<lambda>_. 0) (map fst types) \<noteq> Escaped"
proof -
  have init: "search_inv types (\<lambda>_. 0) []" by (simp add: search_inv_def)
  have names: "list_all (\<lambda>n. map_of types n \<noteq> None) (map fst types)"
    by (auto simp: list_all_iff map_of_eq_None_iff rev_image_eqI)
  note post = search_all_correct [OF assms init names]
  have sound: "well_founded_types types" if "search_all types (\<lambda>_. 0) (map fst types) = Searched m" for m
  proof -
    have inv: "search_inv types m []" and m: "\<forall>n \<in> fst ` set types. m n \<noteq> 0"
      using post that by auto
    have two: "m n = 2" if "n \<in> fst ` set types" for n
    proof -
      have "m n \<le> 2" "m n \<noteq> 1" using inv by (simp_all add: search_inv_def)
      with m that show ?thesis by (metis le_less less_2_cases One_nat_def)
    qed
    have settled: "settled types m n" if "n \<in> fst ` set types" for n
      using two [OF that] inv by (simp add: search_inv_def)
    have known: "n \<in> fst ` set types" if "(n, d) \<in> refers types" for n d
      using that
      by (cases "map_of types n")
        (auto simp: refers_def deps_def dest!: map_of_SomeD intro: rev_image_eqI)
    have "n \<in> Wellfounded.acc ((refers types)\<inverse>)" for n
    proof (cases "n \<in> fst ` set types")
      case True
      then show ?thesis using settled by (simp add: settled_def)
    next
      case False
      show ?thesis
      proof (rule accI)
        fix y assume "(y, n) \<in> (refers types)\<inverse>"
        then have "n \<in> fst ` set types" by (intro known) simp
        with False show "y \<in> Wellfounded.acc ((refers types)\<inverse>)" by contradiction
      qed
    qed
    then have "acyclic (refers types)"
      by (subst acyclic_converse [symmetric], intro wf_acyclic acc_wfI) simp
    moreover have "sound_ref types n d" if "(n, d) \<in> refers types" for n d
      using settled [OF known [OF that]] that by (simp add: settled_def refers_def)
    ultimately show ?thesis unfolding well_founded_types_def by blast
  qed
  show "(\<exists>m. search_all types (\<lambda>_. 0) (map fst types) = Searched m) \<longleftrightarrow> well_founded_types types"
    using post sound by (auto split: search_result.splits)
  show "search_all types (\<lambda>_. 0) (map fst types) \<noteq> Escaped"
    using post by (auto split: search_result.splits)
qed

section \<open>The life of the registry\<close>

text \<open>
  A step is a call of \<open>registerTypeProtocol\<close>, a call of \<open>freezeTypeCatalog\<close> (each holds the
  registry's mutex), or any change of RTT's slots by other code.
\<close>

inductive registry_step ::
  "('w, 'c) type_slots \<Rightarrow> 'w \<times> 'c registry \<Rightarrow> 'w \<times> 'c registry \<Rightarrow> bool" for api where
  register_step: "registerTypeProtocol api ty p w st = (r, w', st') \<Longrightarrow> registry_step api (w, st) (w', st')"
| freeze_step: "freezeTypeCatalog api w st = (r, st') \<Longrightarrow> registry_step api (w, st) (w, st')"
| outside_step: "registry_step api (w, st) (w', st)"

inductive_cases registry_stepE: "registry_step api (w, st) (w', st')"

definition registry_reachable :: "('w, 'c) type_slots \<Rightarrow> 'w \<Rightarrow> 'c registry \<Rightarrow> bool" where
  "registry_reachable api w st \<longleftrightarrow> (\<exists>w0. (registry_step api)\<^sup>*\<^sup>* (w0, new_registry) (w, st))"

text \<open>The catalog that the registrations stand for.\<close>

definition published :: "('w, 'c) type_slots \<Rightarrow> (nat \<times> 'c type_protocol) list \<Rightarrow> 'c type_catalog" where
  "published api regs =
     \<lparr>catalog_types = map_build (map (\<lambda>(t, p). (getTypeName api t, binding_of p)) regs),
      catalog_identities = map_build (map (\<lambda>(t, p). (t, getTypeName api t)) regs)\<rparr>"

definition intact :: "('w, 'c) type_slots \<Rightarrow> 'w \<Rightarrow> 'c registry \<Rightarrow> bool" where
  "intact api w st \<longleftrightarrow> list_all (\<lambda>(t, p). holds (getProtocol api w t) p) (registrations st)"

definition admitted :: "('w, 'c) type_slots \<Rightarrow> nat \<Rightarrow> 'c type_protocol \<Rightarrow> bool" where
  "admitted api t p \<longleftrightarrow> codec p \<noteq> None \<and> getTypeName api t = rttType (registration p)
     \<and> validateRegistration (registration p) = Inr ()"

definition registry_ok :: "('w, 'c) type_slots \<Rightarrow> 'c registry \<Rightarrow> bool" where
  "registry_ok api st \<longleftrightarrow> ordered (registrations st)
     \<and> list_all (\<lambda>(t, p). admitted api t p) (registrations st)
     \<and> (\<forall>cat. catalog st = Some cat \<longrightarrow> frozen st \<and> cat = published api (registrations st)
           \<and> well_founded_types (catalog_types cat))"

lemma stage_types_eq:
  "stage_types api w regs staged =
     (if list_all (\<lambda>(t, p). holds (getProtocol api w t) p) regs then
        Some (staged\<lparr>
          catalog_types := fold (\<lambda>(k, v). map_emplace k v)
            (map (\<lambda>(t, p). (getTypeName api t, binding_of p)) regs) (catalog_types staged),
          catalog_identities := fold (\<lambda>(k, v). map_emplace k v)
            (map (\<lambda>(t, p). (t, getTypeName api t)) regs) (catalog_identities staged)\<rparr>)
      else None)"
  by (induction api w regs staged rule: stage_types.induct) auto

lemma stage_published:
  "stage_types api w (registrations st) \<lparr>catalog_types = [], catalog_identities = []\<rparr> =
     (if intact api w st then Some (published api (registrations st)) else None)"
  by (simp add: stage_types_eq intact_def published_def map_build_def)

lemma validated_kind: "validateRegistration r = Inr () \<Longrightarrow> kind_at r \<noteq> None"
  by (auto simp: validateRegistration_def check_descriptor_def hasString_def kind_at_def
      split: if_splits sum.splits option.splits)

lemma published_described:
  assumes "list_all (\<lambda>(t, p). admitted api t p) regs"
  shows "described (catalog_types (published api regs))"
proof -
  have "kind_at (bound b) \<noteq> None" if "(n, b) \<in> set (catalog_types (published api regs))" for n b
  proof -
    have "(n, b) \<in> set (map (\<lambda>(t, p). (getTypeName api t, binding_of p)) regs)"
      using that set_build by (fastforce simp: published_def)
    then obtain t p where "(t, p) \<in> set regs" "b = binding_of p" by auto
    with assms show ?thesis
      using validated_kind by (fastforce simp: list_all_iff admitted_def binding_of_def)
  qed
  then show ?thesis unfolding described_def list_all_iff by blast
qed

lemma freeze_eq:
  assumes "list_all (\<lambda>(t, p). admitted api t p) (registrations st)" "\<not> frozen st"
  shows "\<exists>e. freezeTypeCatalog api w st =
     (if intact api w st \<and> well_founded_types (catalog_types (published api (registrations st)))
      then (Some (Some (published api (registrations st))),
            st\<lparr>frozen := True, catalog := Some (published api (registrations st)), freezeError := []\<rparr>)
      else (Some None, st\<lparr>frozen := True, freezeError := e\<rparr>))"
  using search_all_decides [OF published_described [OF assms(1)]] assms(2)
  by (cases "search_all (catalog_types (published api (registrations st))) (\<lambda>_. 0)
      (map fst (catalog_types (published api (registrations st))))")
    (auto simp: freezeTypeCatalog_def stage_published Let_def)

lemma registration_keeps:
  assumes "registry_ok api st" "registerTypeProtocol api ty p w st = (r, w', st')"
  shows "registry_ok api st' \<and> (frozen st \<longrightarrow> st' = st)"
proof -
  have "st' = st \<or> (\<exists>t q. ty = Some t \<and> p = Some q \<and> \<not> frozen st \<and> map_of (registrations st) t = None \<and> admitted api t q
      \<and> st' = st\<lparr>registrations := map_emplace t q (registrations st)\<rparr>)"
  proof -
    have erase: "map_erase t (map_emplace t q (registrations st)) = registrations st"
      if "map_of (registrations st) t = None" for t q
      using that assms(1) by (intro erase_emplace) (simp_all add: registry_ok_def)
    show ?thesis
      using assms(2) erase
      by (auto simp: registerTypeProtocol_def Let_def admitted_def
          split: option.splits if_splits sum.splits occupant.splits prod.splits bool.splits)
  qed
  then show ?thesis
  proof (elim disjE exE conjE)
    fix t q
    assume new: "\<not> frozen st" "map_of (registrations st) t = None" "admitted api t q"
      "st' = st\<lparr>registrations := map_emplace t q (registrations st)\<rparr>"
    then have "list_all (\<lambda>(t, p). admitted api t p) (map_emplace t q (registrations st))"
      using assms(1) by (auto simp: registry_ok_def list_all_iff dest!: set_emplace)
    with new assms(1) show ?thesis by (auto simp: registry_ok_def)
  qed (use assms(1) in simp)
qed

lemma freeze_keeps:
  assumes "registry_ok api st" "freezeTypeCatalog api w st = (r, st')"
  shows "registry_ok api st' \<and> (frozen st \<longrightarrow> st' = st)"
proof (cases "frozen st")
  case True
  with assms show ?thesis by (simp add: freezeTypeCatalog_def)
next
  case False
  with assms(1) have none: "catalog st = None" by (auto simp: registry_ok_def)
  obtain e where "freezeTypeCatalog api w st =
     (if intact api w st \<and> well_founded_types (catalog_types (published api (registrations st)))
      then (Some (Some (published api (registrations st))),
            st\<lparr>frozen := True, catalog := Some (published api (registrations st)), freezeError := []\<rparr>)
      else (Some None, st\<lparr>frozen := True, freezeError := e\<rparr>))"
    using freeze_eq [of api st w] assms(1) False by (auto simp: registry_ok_def)
  with assms False none show ?thesis by (auto simp: registry_ok_def split: if_splits)
qed

lemma registry_step_keeps:
  "registry_step api s s' \<Longrightarrow> registry_ok api (snd s) \<Longrightarrow>
     registry_ok api (snd s') \<and> (frozen (snd s) \<longrightarrow> snd s' = snd s)"
  by (cases s; cases s') (auto elim!: registry_stepE dest: registration_keeps freeze_keeps)

lemma registry_steps_keep:
  "(registry_step api)\<^sup>*\<^sup>* s s' \<Longrightarrow> registry_ok api (snd s) \<Longrightarrow>
     registry_ok api (snd s') \<and> (frozen (snd s) \<longrightarrow> snd s' = snd s)"
  by (induction rule: rtranclp_induct) (auto dest: registry_step_keeps)

lemma reachable_ok: "registry_reachable api w st \<Longrightarrow> registry_ok api st"
  unfolding registry_reachable_def
  by (auto dest!: registry_steps_keep simp: registry_ok_def new_registry_def)

lemma published_find:
  assumes "(t, p) \<in> set regs" "list_all (\<lambda>(t, p). admitted api t p) regs" "ordered regs"
  shows "\<exists>b. find_type (published api regs) t = Some b \<and> rttType (bound b) = getTypeName api t"
proof -
  have "map_of regs t = Some p" using assms(1,3) by (simp add: ordered_mem)
  then have ident: "map_of (catalog_identities (published api regs)) t = Some (getTypeName api t)"
    by (induction regs) (auto simp: published_def)
  have "getTypeName api t \<in> fst ` set (map (\<lambda>(t, p). (getTypeName api t, binding_of p)) regs)"
    using assms(1) by force
  then obtain b where b: "map_of (map (\<lambda>(t, p). (getTypeName api t, binding_of p)) regs) (getTypeName api t) = Some b"
    by (metis map_of_eq_None_iff not_None_eq)
  then obtain u q where uq: "(u, q) \<in> set regs" "getTypeName api u = getTypeName api t" "b = binding_of q"
    by (auto dest!: map_of_SomeD)
  then have "rttType (bound b) = getTypeName api t"
    using assms(2) by (auto simp: list_all_iff admitted_def binding_of_def)
  with ident b show ?thesis by (simp add: find_type_def find_name_def published_def)
qed

text \<open>Registration of a new protocol in a free slot.\<close>

lemma register_fresh:
  assumes "codec p \<noteq> None" "getTypeName api t = rttType (registration p)"
    and "validateRegistration (registration p) = Inr ()"
    and "getProtocol api w t = None" "\<not> frozen st" "map_of (registrations st) t = None"
    and "addProtocol api t (Http p) w = (Some True, w')"
  shows "registerTypeProtocol api (Some t) (Some p) w st =
     (Accepted, w', st\<lparr>registrations := map_emplace t p (registrations st)\<rparr>)"
  using assms by (simp add: registerTypeProtocol_def Let_def)

section \<open>A small registry\<close>

definition sample_slots :: "(nat \<Rightarrow> nat occupant option, nat) type_slots" where
  "sample_slots = \<lparr>getTypeName = (\<lambda>t. if t = 3 then ''Int32'' else ''Array''),
     getProtocol = (\<lambda>w t. w t),
     addProtocol = (\<lambda>t occ w. case w t of None \<Rightarrow> (Some True, w(t := Some occ)) | Some _ \<Rightarrow> (Some False, w))\<rparr>"

definition sample_protocol :: "nat \<Rightarrow> string \<Rightarrow> json_object \<Rightarrow> string list \<Rightarrow> nat type_protocol" where
  "sample_protocol a name d ds = \<lparr>address = a,
     registration = \<lparr>providerId = ''p'', providerVersion = ''1'', codecId = ''c'', codecVersion = ''1'',
       rttType = name, descriptor = d, dependencies = ds\<rparr>, fingerprint = name, codec = Some a\<rparr>"

definition sample_integer :: "nat type_protocol" where
  "sample_integer = sample_protocol 10 ''Int32'' [(''kind'', JString ''integer''), (''bits'', JInt64 32),
     (''signed'', JBool True), (''encoding'', JString ''number'')] []"

definition sample_array :: "nat type_protocol" where
  "sample_array = sample_protocol 20 ''Array'' [(''kind'', JString ''array''),
     (''elementType'', JString ''Int32''), (''length'', JNull)] [''Int32'']"

definition sample_registry :: "nat registry" where
  "sample_registry = new_registry\<lparr>registrations := [(3, sample_integer), (7, sample_array)]\<rparr>"

definition sample_world :: "nat \<Rightarrow> nat occupant option" where
  "sample_world = (\<lambda>_. None)(3 := Some (Http sample_integer), 7 := Some (Http sample_array))"

lemma sample_array_valid: "validateRegistration (registration sample_array) = Inr ()"
  by code_simp

lemma sample_integer_valid: "validateRegistration (registration sample_integer) = Inr ()"
  by code_simp

lemma sample_fields [simp]:
  "codec sample_integer = Some 10" "rttType (registration sample_integer) = ''Int32''"
  "codec sample_array = Some 20" "rttType (registration sample_array) = ''Array''"
  "address sample_integer = 10" "address sample_array = 20"
  by (simp_all add: sample_integer_def sample_array_def sample_protocol_def)

lemma sample_register_integer:
  "registerTypeProtocol sample_slots (Some 3) (Some sample_integer) (\<lambda>_. None) new_registry =
     (Accepted, (\<lambda>_. None)(3 := Some (Http sample_integer)),
      new_registry\<lparr>registrations := [(3, sample_integer)]\<rparr>)"
  by (subst register_fresh [OF _ _ sample_integer_valid])
    (simp_all add: sample_slots_def new_registry_def)

lemma sample_register_array:
  "registerTypeProtocol sample_slots (Some 7) (Some sample_array)
      ((\<lambda>_. None)(3 := Some (Http sample_integer))) (new_registry\<lparr>registrations := [(3, sample_integer)]\<rparr>) =
     (Accepted, sample_world, sample_registry)"
  by (subst register_fresh [OF _ _ sample_array_valid])
    (simp_all add: sample_slots_def new_registry_def sample_registry_def sample_world_def)

lemma sample_reachable: "registry_reachable sample_slots sample_world sample_registry"
  unfolding registry_reachable_def
  using register_step [OF sample_register_integer] register_step [OF sample_register_array]
  by (meson rtranclp.rtrancl_into_rtrancl rtranclp.rtrancl_refl)

lemma sample_freeze:
  "freezeTypeCatalog sample_slots sample_world sample_registry =
     (Some (Some (published sample_slots (registrations sample_registry))),
      sample_registry\<lparr>frozen := True,
        catalog := Some (published sample_slots (registrations sample_registry)), freezeError := []\<rparr>)"
proof -
  let ?types = "catalog_types (published sample_slots (registrations sample_registry))"
  have "case search_all ?types (\<lambda>_. 0) (map fst ?types) of Searched _ \<Rightarrow> True | _ \<Rightarrow> False"
    by code_simp
  moreover have "intact sample_slots sample_world sample_registry"
    by (simp add: intact_def sample_slots_def sample_world_def sample_registry_def new_registry_def holds_def)
  moreover have "\<not> frozen sample_registry" by (simp add: sample_registry_def new_registry_def)
  ultimately show ?thesis
    by (auto simp: freezeTypeCatalog_def stage_published Let_def split: search_result.splits)
qed

section \<open>Properties of the registry\<close>

text \<open>
  C14: freezing a registry decides exactly whether its types are well-founded: it returns the
  catalog of all registrations if every slot is intact, every dependency is registered, every
  enumeration stands on an integer type and no type contains itself; otherwise it returns no
  catalog.  It never throws, and the search ends on every input.
\<close>

theorem freezeTypeCatalog_exact:
  assumes "registry_reachable api w st" "\<not> frozen st"
  shows "(freezeTypeCatalog api w st = (Some (Some cat), st') \<longleftrightarrow>
      cat = published api (registrations st) \<and> intact api w st \<and> well_founded_types (catalog_types cat)
      \<and> st' = st\<lparr>frozen := True, catalog := Some cat, freezeError := []\<rparr>)
    \<and> fst (freezeTypeCatalog api w st) \<noteq> None"
proof -
  obtain e where "freezeTypeCatalog api w st =
     (if intact api w st \<and> well_founded_types (catalog_types (published api (registrations st)))
      then (Some (Some (published api (registrations st))),
            st\<lparr>frozen := True, catalog := Some (published api (registrations st)), freezeError := []\<rparr>)
      else (Some None, st\<lparr>frozen := True, freezeError := e\<rparr>))"
    using freeze_eq [of api st w] reachable_ok [OF assms(1)] assms(2) by (auto simp: registry_ok_def)
  then show ?thesis by (auto split: if_splits)
qed

lemma freezeTypeCatalog_exact_witness:
  "well_founded_types (catalog_types (published sample_slots (registrations sample_registry)))"
  using freezeTypeCatalog_exact [OF sample_reachable] sample_freeze
  by (simp add: sample_registry_def new_registry_def)

text \<open>
  The catalog is final: once frozen, no sequence of registrations, freezes and changes of
  RTT's slots by other code changes the registry, and freezing again returns the same.
\<close>

theorem frozen_is_final:
  assumes "registry_reachable api w st" "frozen st" "(registry_step api)\<^sup>*\<^sup>* (w, st) (w', st')"
  shows "st' = st \<and> freezeTypeCatalog api w' st' = (Some (catalog st), st)"
  using registry_steps_keep [OF assms(3)] reachable_ok [OF assms(1)] assms(2)
  by (simp add: freezeTypeCatalog_def)

lemma frozen_is_final_witness:
  "freezeTypeCatalog sample_slots (\<lambda>_. None) (snd (freezeTypeCatalog sample_slots sample_world sample_registry)) =
     (Some (Some (published sample_slots (registrations sample_registry))),
      snd (freezeTypeCatalog sample_slots sample_world sample_registry))"
proof -
  let ?st = "snd (freezeTypeCatalog sample_slots sample_world sample_registry)"
  have "registry_step sample_slots (sample_world, sample_registry) (sample_world, ?st)"
    by (rule freeze_step) (rule prod.collapse [symmetric])
  with sample_reachable have "registry_reachable sample_slots sample_world ?st"
    unfolding registry_reachable_def by (meson rtranclp.rtrancl_into_rtrancl)
  moreover have "(registry_step sample_slots)\<^sup>*\<^sup>* (sample_world, ?st) (\<lambda>_. None, ?st)"
    by (rule r_into_rtranclp, rule outside_step)
  ultimately show ?thesis
    using frozen_is_final [of sample_slots sample_world ?st "\<lambda>_. None" ?st] by (simp add: sample_freeze)
qed

text \<open>
  C23: in every reachable state with a catalog, lookup by type pointer finds a binding for each
  registered type, under that type's name, and every type that a definition refers to is in
  the catalog too, without cycles: a client can always expand a definition completely.
\<close>

theorem catalog_complete:
  assumes "registry_reachable api w st" "catalog st = Some cat"
  shows "list_all (\<lambda>(t, p). \<exists>b. find_type cat t = Some b \<and> rttType (bound b) = getTypeName api t)
       (registrations st)
     \<and> (\<forall>(n, d) \<in> refers (catalog_types cat). find_name cat d \<noteq> None)
     \<and> acyclic (refers (catalog_types cat))"
proof -
  note ok = reachable_ok [OF assms(1)]
  have cat: "cat = published api (registrations st)" and wf: "well_founded_types (catalog_types cat)"
    and sound: "list_all (\<lambda>(t, p). admitted api t p) (registrations st)"
    using ok assms(2) by (auto simp: registry_ok_def)
  have "\<exists>b. find_type cat t = Some b \<and> rttType (bound b) = getTypeName api t"
    if "(t, p) \<in> set (registrations st)" for t p
    using that ok sound unfolding cat by (intro published_find) (auto simp: registry_ok_def)
  then have "list_all (\<lambda>(t, p). \<exists>b. find_type cat t = Some b \<and> rttType (bound b) = getTypeName api t)
       (registrations st)"
    by (auto simp: list_all_iff)
  moreover have "find_name cat d \<noteq> None" if "(n, d) \<in> refers (catalog_types cat)" for n d
    using wf that by (auto simp: well_founded_types_def sound_ref_def find_name_def)
  ultimately show ?thesis using wf by (auto simp: well_founded_types_def)
qed

lemma catalog_complete_witness:
  "find_type (published sample_slots (registrations sample_registry)) 7 \<noteq> None"
proof -
  let ?st = "snd (freezeTypeCatalog sample_slots sample_world sample_registry)"
  have "registry_step sample_slots (sample_world, sample_registry) (sample_world, ?st)"
    by (rule freeze_step) (rule prod.collapse [symmetric])
  with sample_reachable have "registry_reachable sample_slots sample_world ?st"
    unfolding registry_reachable_def by (meson rtranclp.rtrancl_into_rtrancl)
  then show ?thesis
    using catalog_complete [of sample_slots sample_world ?st]
    by (auto simp: sample_freeze) (auto simp: sample_registry_def)
qed

text \<open>
  RTT's slots: a slot that was free holds what was put into it.
\<close>

definition slot_law :: "('w, 'c) type_slots \<Rightarrow> bool" where
  "slot_law api \<longleftrightarrow> (\<forall>t occ w w'. getProtocol api w t = None \<longrightarrow>
     addProtocol api t occ w = (Some True, w') \<longrightarrow> getProtocol api w' t = Some occ)"

text \<open>
  An accepted registration is in force, whether it was new or a repetition: the slot holds
  a protocol with the same fingerprint, it is the registered one, and its codec is what the
  type now uses.
\<close>

theorem accepted_registration_serves:
  assumes "slot_law api" "registry_reachable api w st"
    and "registerTypeProtocol api (Some t) (Some p) w st = (Accepted, w', st')"
  shows "\<exists>q e. map_of (registrations st') t = Some q \<and> getProtocol api w' t = Some (Http e)
     \<and> address e = address q \<and> fingerprint e = fingerprint p
     \<and> registeredTypeCodec api w' st' (Some t) = codec q \<and> codec q \<noteq> None"
proof -
  note ok = reachable_ok [OF assms(2)]
  show ?thesis
  proof (cases "getProtocol api w t")
    case None
    then have "addProtocol api t (Http p) w = (Some True, w')" "map_of (registrations st) t = None"
      "codec p \<noteq> None" "st' = st\<lparr>registrations := map_emplace t p (registrations st)\<rparr>"
      using assms(3)
      by (auto simp: registerTypeProtocol_def Let_def split: sum.splits if_splits prod.splits
          option.splits bool.splits)
    moreover from this None have "getProtocol api w' t = Some (Http p)"
      using assms(1) by (simp add: slot_law_def)
    ultimately show ?thesis
      using ok by (auto simp: registeredTypeCodec_def holds_def registry_ok_def)
  next
    case (Some occ)
    then obtain e q where "occ = Http e" "map_of (registrations st) t = Some q" "w' = w" "st' = st"
      "fingerprint e = fingerprint p" "address q = address e"
      using assms(3)
      by (auto simp: registerTypeProtocol_def Let_def split: sum.splits if_splits option.splits
          occupant.splits)
    moreover from this ok have "codec q \<noteq> None"
      by (auto simp: registry_ok_def list_all_iff admitted_def dest!: map_of_SomeD)
    ultimately show ?thesis using Some by (auto simp: registeredTypeCodec_def holds_def)
  qed
qed

lemma accepted_registration_serves_witness:
  "registeredTypeCodec sample_slots sample_world sample_registry (Some 7) \<noteq> None"
proof -
  have "slot_law sample_slots"
    by (auto simp: slot_law_def sample_slots_def split: option.splits)
  moreover have "registry_reachable sample_slots ((\<lambda>_. None)(3 := Some (Http sample_integer)))
      (new_registry\<lparr>registrations := [(3, sample_integer)]\<rparr>)"
    unfolding registry_reachable_def using register_step [OF sample_register_integer] by blast
  ultimately show ?thesis
    using accepted_registration_serves [OF _ _ sample_register_array] by metis
qed


end
