(* ===== verification/Operation_Executor.thy ===== *)
theory Operation_Executor
  imports Prelude
begin

text \<open>
  The operation executor (\<open>operation_executor.hpp\<close> and \<open>operation_executor.cpp\<close>): admission,
  the worker threads, the reaper that collects the results of operations sent to other
  threads, draining and shutdown.

  Threads interleave.  One step is one critical section of the source (the code between taking
  a mutex and releasing it) or one call into RTT between two of them; a program counter per
  thread says where it is.  What RTT answers is unconstrained.  An invocation is a shared
  object, identified by a number.

  \<open>admissions\<close>, \<open>dispatches\<close>, \<open>finishes\<close>, \<open>called\<close> and \<open>collected\<close> are history variables:
  the program does not have them, no step tests them (the step of a request handler aside,
  which admits an invocation that it has just made), and the theorems are stated with them.
\<close>

section \<open>State\<close>

text \<open>What the call of an operation, or sending it, did.\<close>

datatype call_outcome = Returned bool | ThrewSendStatus | Threw

text \<open>What \<open>collectIfDone\<close> did.\<close>

datatype collect_outcome = SendNotReady | SendSuccess | SendOther | CollectThrew

record invocation =
  has_send :: bool
  admitted :: nat
  deadline :: nat
  sent :: bool
  complete :: bool
  status :: int
  admissions :: nat
  dispatches :: nat
  finishes :: nat
  called :: "call_outcome option"
  collected :: "collect_outcome option"

datatype worker_pc = AwaitWork | Running nat | SetResult nat int | EraseResult nat | MarkSent nat | WorkerExited

datatype reaper_pc = Scan nat | Candidate nat nat | Collecting nat nat | ReapResult nat int nat
  | ReapErase nat nat | Sleeping | ReaperExited

datatype control_pc = Open | Draining | Drained | Joining

record executor =
  width :: nat
  invs :: "nat \<Rightarrow> invocation"
  queue :: "nat list"
  pending :: "nat list"
  stopped :: bool
  workers :: "nat \<Rightarrow> worker_pc"
  reaper :: reaper_pc
  control :: control_pc

definition new_invocation :: "bool \<Rightarrow> invocation" where
  "new_invocation send = \<lparr>has_send = send, admitted = 0, deadline = 0, sent = False, complete = False,
     status = 200, admissions = 0, dispatches = 0, finishes = 0, called = None, collected = None\<rparr>"

definition new_executor :: "u32 \<Rightarrow> (nat \<Rightarrow> bool) \<Rightarrow> executor" where
  "new_executor w sends = \<lparr>width = unat w, invs = (\<lambda>i. new_invocation (sends i)), queue = [],
     pending = [], stopped = False, workers = (\<lambda>_. AwaitWork), reaper = Scan 0, control = Open\<rparr>"

definition update_inv :: "nat \<Rightarrow> (invocation \<Rightarrow> invocation) \<Rightarrow> executor \<Rightarrow> executor" where
  "update_inv i f st = st\<lparr>invs := (invs st)(i := f (invs st i))\<rparr>"

section \<open>Operations\<close>

text \<open>
  \<open>admit\<close>: \<open>now\<close> is the clock; \<open>allocated\<close> says whether the second insertion succeeds, which
  throws (\<open>None\<close>) and rolls the first one back otherwise.
\<close>

definition admit :: "nat \<Rightarrow> u32 \<Rightarrow> u32 \<Rightarrow> nat \<Rightarrow> bool \<Rightarrow> executor \<Rightarrow> bool option \<times> executor" where
  "admit i cap timeoutMs now allocated st =
     (if stopped st \<or> unat cap \<le> length (pending st) then (Some False, st)
      else
        let st1 = update_inv i (\<lambda>v. v\<lparr>admitted := now, deadline := now + unat timeoutMs\<rparr>) st;
            st2 = st1\<lparr>pending := pending st1 @ [i]\<rparr> in
        if \<not> allocated then (None, st2\<lparr>pending := butlast (pending st2)\<rparr>)
        else (Some True, update_inv i (\<lambda>v. v\<lparr>admissions := Suc (admissions v)\<rparr>)
               (st2\<lparr>queue := queue st2 @ [i]\<rparr>)))"

definition pending_count :: "executor \<Rightarrow> u32" where
  "pending_count st = of_nat (length (pending st))"

text \<open>The two critical sections of \<open>finish\<close>.\<close>

definition finish_set :: "nat \<Rightarrow> int \<Rightarrow> executor \<Rightarrow> executor" where
  "finish_set i s = update_inv i (\<lambda>v. v\<lparr>status := s, complete := True, finishes := Suc (finishes v)\<rparr>)"

definition finish_erase :: "nat \<Rightarrow> executor \<Rightarrow> executor" where
  "finish_erase i st = st\<lparr>pending := filter (\<lambda>j. j \<noteq> i) (pending st)\<rparr>"

text \<open>The status of an operation called on the worker's own thread.\<close>

definition call_status :: "call_outcome \<Rightarrow> int" where
  "call_status outcome =
     (case outcome of Returned b \<Rightarrow> if b then 200 else 503 | ThrewSendStatus \<Rightarrow> 503 | Threw \<Rightarrow> 500)"

definition dispatch :: "nat \<Rightarrow> call_outcome \<Rightarrow> executor \<Rightarrow> executor" where
  "dispatch i outcome = update_inv i (\<lambda>v. v\<lparr>dispatches := Suc (dispatches v), called := Some outcome\<rparr>)"

definition send_status :: "nat \<Rightarrow> call_outcome \<Rightarrow> executor \<Rightarrow> executor" where
  "send_status i outcome st =
     (case outcome of
        Returned _ \<Rightarrow> st
      | _ \<Rightarrow> update_inv i (\<lambda>v. v\<lparr>status := 500\<rparr>) st)"

text \<open>One step of worker \<open>n\<close>; \<open>None\<close> if it waits or has returned.\<close>

definition worker_step :: "nat \<Rightarrow> call_outcome \<Rightarrow> executor \<Rightarrow> executor option" where
  "worker_step n outcome st =
     (let go = (\<lambda>pc s. Some (s\<lparr>workers := (workers s)(n := pc)\<rparr>)) in
      case workers st n of
        AwaitWork \<Rightarrow>
          (case queue st of
             i # rest \<Rightarrow> go (Running i) (st\<lparr>queue := rest\<rparr>)
           | [] \<Rightarrow> if stopped st then go WorkerExited st else None)
      | Running i \<Rightarrow>
          if \<not> has_send (invs st i) then go (SetResult i (call_status outcome)) (dispatch i outcome st)
          else go (MarkSent i) (send_status i outcome (dispatch i outcome st))
      | SetResult i s \<Rightarrow> go (EraseResult i) (finish_set i s st)
      | EraseResult i \<Rightarrow> go AwaitWork (finish_erase i st)
      | MarkSent i \<Rightarrow> go AwaitWork (update_inv i (\<lambda>v. v\<lparr>sent := True\<rparr>) st)
      | WorkerExited \<Rightarrow> None)"

text \<open>One step of the reaper.\<close>

definition collect_status :: "int \<Rightarrow> collect_outcome \<Rightarrow> int" where
  "collect_status recorded outcome =
     (if recorded = 500 then 500 else if outcome = SendSuccess then 200 else 503)"

definition reaper_step :: "collect_outcome \<Rightarrow> executor \<Rightarrow> executor option" where
  "reaper_step outcome st =
     (let go = (\<lambda>pc s. Some (s\<lparr>reaper := pc\<rparr>)) in
      case reaper st of
        Scan k \<Rightarrow>
          if length (pending st) \<le> k then go Sleeping st else go (Candidate (pending st ! k) (Suc k)) st
      | Candidate i k \<Rightarrow>
          if sent (invs st i) \<and> \<not> complete (invs st i) then go (Collecting i k) st else go (Scan k) st
      | Collecting i k \<Rightarrow>
          let st1 = update_inv i (\<lambda>v. v\<lparr>collected := Some outcome\<rparr>) st in
          (case outcome of
             SendNotReady \<Rightarrow> go (Scan k) st1
           | CollectThrew \<Rightarrow> go (ReapResult i 500 k) st1
           | _ \<Rightarrow> go (ReapResult i (collect_status (status (invs st i)) outcome) k) st1)
      | ReapResult i s k \<Rightarrow> go (ReapErase i k) (finish_set i s st)
      | ReapErase i k \<Rightarrow> go (Scan k) (finish_erase i st)
      | Sleeping \<Rightarrow> if stopped st then go ReaperExited st else go (Scan 0) st
      | ReaperExited \<Rightarrow> None)"

text \<open>
  \<open>shutdown\<close> on the controlling thread: \<open>drain\<close> leaves its loop when nothing is pending, then
  the flag is set, then the threads are joined.
\<close>

definition control_step :: "executor \<Rightarrow> executor option" where
  "control_step st =
     (case control st of
        Open \<Rightarrow> Some (st\<lparr>control := Draining\<rparr>)
      | Draining \<Rightarrow> if pending st = [] then Some (st\<lparr>control := Drained\<rparr>) else None
      | Drained \<Rightarrow> Some (st\<lparr>stopped := True, control := Joining\<rparr>)
      | Joining \<Rightarrow> None)"

inductive exec_step :: "u32 \<Rightarrow> executor \<Rightarrow> executor \<Rightarrow> bool" for cap where
  admit_step: "admissions (invs st i) = 0 \<Longrightarrow> admit i cap timeoutMs now allocated st = (r, st') \<Longrightarrow>
    exec_step cap st st'"
| work_step: "n < width st \<Longrightarrow> worker_step n outcome st = Some st' \<Longrightarrow> exec_step cap st st'"
| reap_step: "reaper_step outcome' st = Some st' \<Longrightarrow> exec_step cap st st'"
| control_step: "control_step st = Some st' \<Longrightarrow> exec_step cap st st'"

definition exec_reachable :: "u32 \<Rightarrow> executor \<Rightarrow> bool" where
  "exec_reachable cap st \<longleftrightarrow> (\<exists>w sends. (exec_step cap)\<^sup>*\<^sup>* (new_executor w sends) st)"

section \<open>The phases of an invocation\<close>

datatype phase = Fresh | Queued | Called | Sending | Sent | Done

text \<open>The result that the answers of RTT stand for, once there are enough of them.\<close>

definition recorded_status :: "call_outcome \<Rightarrow> int" where
  "recorded_status outcome = (case outcome of Returned _ \<Rightarrow> 200 | _ \<Rightarrow> 500)"

definition result_of :: "invocation \<Rightarrow> int option" where
  "result_of v =
     (case called v of
        None \<Rightarrow> None
      | Some c \<Rightarrow>
          if \<not> has_send v then Some (call_status c)
          else case collected v of
            Some SendSuccess \<Rightarrow> Some (collect_status (recorded_status c) SendSuccess)
          | Some SendOther \<Rightarrow> Some (collect_status (recorded_status c) SendOther)
          | Some CollectThrew \<Rightarrow> Some 500
          | _ \<Rightarrow> None)"

fun in_phase :: "phase \<Rightarrow> invocation \<Rightarrow> bool" where
  "in_phase Fresh v \<longleftrightarrow> admissions v = 0 \<and> dispatches v = 0 \<and> finishes v = 0 \<and> \<not> sent v
     \<and> \<not> complete v \<and> status v = 200"
| "in_phase Queued v \<longleftrightarrow> admissions v = 1 \<and> dispatches v = 0 \<and> finishes v = 0 \<and> \<not> sent v
     \<and> \<not> complete v \<and> status v = 200"
| "in_phase Called v \<longleftrightarrow> admissions v = 1 \<and> dispatches v = 1 \<and> finishes v = 0 \<and> \<not> sent v
     \<and> \<not> complete v \<and> \<not> has_send v"
| "in_phase Sending v \<longleftrightarrow> admissions v = 1 \<and> dispatches v = 1 \<and> finishes v = 0 \<and> \<not> sent v
     \<and> \<not> complete v \<and> has_send v \<and> (\<exists>c. called v = Some c \<and> status v = recorded_status c)"
| "in_phase Sent v \<longleftrightarrow> admissions v = 1 \<and> dispatches v = 1 \<and> finishes v = 0 \<and> sent v
     \<and> \<not> complete v \<and> has_send v \<and> (\<exists>c. called v = Some c \<and> status v = recorded_status c)"
| "in_phase Done v \<longleftrightarrow> admissions v = 1 \<and> dispatches v = 1 \<and> finishes v = 1 \<and> complete v
     \<and> result_of v = Some (status v)"

fun owner :: "worker_pc \<Rightarrow> nat option" where
  "owner (Running i) = Some i"
| "owner (SetResult i s) = Some i"
| "owner (EraseResult i) = Some i"
| "owner (MarkSent i) = Some i"
| "owner _ = None"

text \<open>What a thread relies on at each place.\<close>

fun worker_ok :: "executor \<Rightarrow> worker_pc \<Rightarrow> bool" where
  "worker_ok st (Running i) \<longleftrightarrow> i \<in> set (pending st) \<and> i \<notin> set (queue st) \<and> in_phase Queued (invs st i)"
| "worker_ok st (SetResult i s) \<longleftrightarrow> i \<in> set (pending st) \<and> i \<notin> set (queue st)
     \<and> in_phase Called (invs st i) \<and> result_of (invs st i) = Some s"
| "worker_ok st (EraseResult i) \<longleftrightarrow> i \<in> set (pending st) \<and> i \<notin> set (queue st)
     \<and> in_phase Done (invs st i) \<and> \<not> has_send (invs st i)"
| "worker_ok st (MarkSent i) \<longleftrightarrow> i \<in> set (pending st) \<and> i \<notin> set (queue st) \<and> in_phase Sending (invs st i)"
| "worker_ok st _ \<longleftrightarrow> True"

fun reaper_ok :: "executor \<Rightarrow> reaper_pc \<Rightarrow> bool" where
  "reaper_ok st (Collecting i k) \<longleftrightarrow> i \<in> set (pending st) \<and> in_phase Sent (invs st i)"
| "reaper_ok st (ReapResult i s k) \<longleftrightarrow> i \<in> set (pending st) \<and> in_phase Sent (invs st i)
     \<and> result_of (invs st i) = Some s"
| "reaper_ok st (ReapErase i k) \<longleftrightarrow> i \<in> set (pending st) \<and> in_phase Done (invs st i) \<and> has_send (invs st i)"
| "reaper_ok st _ \<longleftrightarrow> True"

definition owned :: "executor \<Rightarrow> nat \<Rightarrow> bool" where
  "owned st i \<longleftrightarrow> (\<exists>n. owner (workers st n) = Some i)"

definition place_ok :: "executor \<Rightarrow> nat \<Rightarrow> bool" where
  "place_ok st i \<longleftrightarrow>
     (if i \<in> set (queue st) then in_phase Queued (invs st i)
      else if owned st i then True
      else if i \<in> set (pending st) then
        in_phase Sent (invs st i) \<or> (in_phase Done (invs st i) \<and> (\<exists>k. reaper st = ReapErase i k))
      else in_phase Fresh (invs st i) \<or> in_phase Done (invs st i))"

definition exec_inv :: "u32 \<Rightarrow> executor \<Rightarrow> bool" where
  "exec_inv cap st \<longleftrightarrow> distinct (queue st) \<and> distinct (pending st) \<and> set (queue st) \<subseteq> set (pending st)
     \<and> length (pending st) \<le> unat cap
     \<and> (\<forall>n m i. owner (workers st n) = Some i \<longrightarrow> owner (workers st m) = Some i \<longrightarrow> n = m)
     \<and> (\<forall>n. worker_ok st (workers st n)) \<and> reaper_ok st (reaper st) \<and> (\<forall>i. place_ok st i)"

section \<open>The invariant is kept\<close>

lemma worker_ok_frame:
  assumes "worker_ok st pc"
    and "\<And>i. owner pc = Some i \<Longrightarrow> invs st' i = invs st i
       \<and> (i \<in> set (pending st) \<longrightarrow> i \<in> set (pending st')) \<and> (i \<in> set (queue st') \<longrightarrow> i \<in> set (queue st))"
  shows "worker_ok st' pc"
  using assms by (cases pc) auto

fun reaped :: "reaper_pc \<Rightarrow> nat option" where
  "reaped (Collecting i k) = Some i"
| "reaped (ReapResult i s k) = Some i"
| "reaped (ReapErase i k) = Some i"
| "reaped _ = None"

lemma reaper_ok_frame:
  assumes "reaper_ok st pc"
    and "\<And>i. reaped pc = Some i \<Longrightarrow> invs st' i = invs st i \<and> (i \<in> set (pending st) \<longrightarrow> i \<in> set (pending st'))"
  shows "reaper_ok st' pc"
  using assms by (cases pc) auto

lemma update_inv_simps [simp]:
  "invs (update_inv i f st) j = (if j = i then f (invs st i) else invs st j)"
  "queue (update_inv i f st) = queue st" "pending (update_inv i f st) = pending st"
  "workers (update_inv i f st) = workers st" "reaper (update_inv i f st) = reaper st"
  "stopped (update_inv i f st) = stopped st" "control (update_inv i f st) = control st"
  "width (update_inv i f st) = width st"
  by (simp_all add: update_inv_def)

lemma owned_not_reaped:
  assumes "exec_inv cap st" "owner (workers st n) = Some i"
  shows "reaped (reaper st) \<noteq> Some i"
proof
  assume "reaped (reaper st) = Some i"
  moreover have "worker_ok st (workers st n)" "reaper_ok st (reaper st)"
    using assms(1) by (auto simp: exec_inv_def)
  ultimately show False
    using assms(2) by (cases "workers st n"; cases "reaper st") auto
qed

lemma owners_update:
  assumes "owner (w n) \<noteq> Some j" "owner pc \<noteq> Some j"
    and "workers st = w" "workers st' = w(n := pc)"
  shows "owned st' j = owned st j"
  using assms by (auto simp: owned_def)

lemma exec_invD:
  assumes "exec_inv cap st"
  shows "distinct (queue st)" "distinct (pending st)" "set (queue st) \<subseteq> set (pending st)"
    "length (pending st) \<le> unat cap"
    "owner (workers st n) = Some i \<Longrightarrow> owner (workers st m) = Some i \<Longrightarrow> n = m"
    "worker_ok st (workers st n)" "reaper_ok st (reaper st)" "place_ok st i"
  using assms unfolding exec_inv_def by auto

text \<open>A worker moves on with the invocation it holds, or lets go of it once it is sent.\<close>

lemma worker_move:
  assumes inv: "exec_inv cap st" and held: "owner (workers st n) = Some i"
    and same: "queue st' = queue st" "pending st' = pending st" "reaper st' = reaper st"
      "invs st' = (invs st)(i := v)"
    and moved: "workers st' = (workers st)(n := pc)" "worker_ok st' pc"
      "owner pc = Some i \<or> (owner pc = None \<and> in_phase Sent (invs st' i))"
  shows "exec_inv cap st'"
proof -
  note D = exec_invD [OF inv]
  have other: "owner (workers st m) \<noteq> Some i" if "m \<noteq> n" for m
    using D(5) [of m i n] held that by blast
  have i: "i \<in> set (pending st)" "i \<notin> set (queue st)"
    using D(6) [of n] held by (cases "workers st n"; simp)+
  have "worker_ok st' (workers st' m)" for m
  proof (cases "m = n")
    case False
    have "worker_ok st' (workers st m)"
      by (rule worker_ok_frame [OF D(6)]) (use other [OF False] same in auto)
    then show ?thesis using False moved(1) by simp
  qed (use moved in simp)
  moreover have "reaper_ok st' (reaper st')"
    unfolding same(3)
    by (rule reaper_ok_frame [OF D(7)]) (use owned_not_reaped [OF inv held] same in auto)
  moreover have "place_ok st' j" for j
  proof (cases "j = i")
    case True
    have "owned st' i" if "owner pc = Some i"
      unfolding owned_def by (rule exI [of _ n]) (simp add: moved(1) that)
    then show ?thesis using True moved(3) i same by (auto simp: place_ok_def simp del: in_phase.simps)
  next
    case False
    have "owned st' j = owned st j"
      by (rule owners_update [OF _ _ refl moved(1)]) (use held moved(3) False in auto)
    then show ?thesis using D(8) [of j] False same by (simp add: place_ok_def del: in_phase.simps)
  qed
  moreover have "m = m'" if "owner (workers st' m) = Some j" "owner (workers st' m') = Some j" for m m' j
    using that D(5) [of m j m'] moved(1,3) other held by (auto split: if_splits)
  ultimately show ?thesis
    using D(1-4) same unfolding exec_inv_def by auto
qed

text \<open>The reaper moves on with the invocation it collects.\<close>

lemma reaper_move:
  assumes inv: "exec_inv cap st"
    and same: "queue st' = queue st" "pending st' = pending st" "workers st' = workers st"
      "invs st' = (invs st)(i := v)"
    and i: "i \<in> set (pending st)" "in_phase Sent (invs st i)"
    and moved: "reaper_ok st' (reaper st')" "in_phase Sent (invs st' i) \<or>
      (in_phase Done (invs st' i) \<and> (\<exists>k. reaper st' = ReapErase i k))"
    and free: "\<forall>j k. reaper st \<noteq> ReapErase j k"
  shows "exec_inv cap st'"
proof -
  note D = exec_invD [OF inv]
  have unowned: "owner (workers st m) \<noteq> Some i" for m
    using D(6) [of m] i by (cases "workers st m") auto
  have own: "owned st' j = owned st j" for j by (simp add: owned_def same)
  have unqueued: "i \<notin> set (queue st)" using D(8) [of i] i by (auto simp: place_ok_def)
  have "worker_ok st' (workers st' m)" for m
    unfolding same(3) by (rule worker_ok_frame [OF D(6)]) (use unowned same in auto)
  moreover have "place_ok st' j" for j
  proof (cases "j = i")
    case True
    then show ?thesis
      using moved(2) own unqueued i same by (auto simp: place_ok_def simp del: in_phase.simps)
  next
    case False
    then show ?thesis
      using D(8) [of j] free same own by (auto simp: place_ok_def simp del: in_phase.simps)
  qed
  ultimately show ?thesis
    using D(1-5) moved(1) same unfolding exec_inv_def by auto
qed

lemma admit_keeps:
  assumes inv: "exec_inv cap st" and new: "admissions (invs st i) = 0"
    and eq: "admit i cap timeoutMs now allocated st = (r, st')"
  shows "exec_inv cap st'"
proof -
  note D = exec_invD [OF inv]
  have unowned: "owner (workers st m) \<noteq> Some i" for m
    using D(6) [of m] new by (cases "workers st m") auto
  have fresh: "i \<notin> set (queue st)" "i \<notin> set (pending st)" "in_phase Fresh (invs st i)"
    using D(8) [of i] unowned new by (auto simp: place_ok_def owned_def split: if_splits)
  have unreaped: "reaped (reaper st) \<noteq> Some i"
    using D(7) fresh(2) by (cases "reaper st") auto
  consider "st' = st" | "st' = update_inv i (\<lambda>v. v\<lparr>admitted := now, deadline := now + unat timeoutMs\<rparr>) st"
    | "length (pending st) < unat cap" "st' = update_inv i (\<lambda>v. v\<lparr>admitted := now,
        deadline := now + unat timeoutMs, admissions := 1\<rparr>) (st\<lparr>pending := pending st @ [i], queue := queue st @ [i]\<rparr>)"
  proof (cases "stopped st \<or> unat cap \<le> length (pending st)")
    case True
    with eq have "st' = st" by (simp add: admit_def)
    then show thesis by (rule that(1))
  next
    case False
    show thesis
    proof (cases allocated)
      case True
      have "st' = update_inv i (\<lambda>v. v\<lparr>admitted := now,
        deadline := now + unat timeoutMs, admissions := 1\<rparr>) (st\<lparr>pending := pending st @ [i], queue := queue st @ [i]\<rparr>)"
        using eq True False new by (simp add: admit_def Let_def update_inv_def)
      with False show thesis by (intro that(3)) simp_all
    next
      case unallocated: False
      have "st' = update_inv i (\<lambda>v. v\<lparr>admitted := now, deadline := now + unat timeoutMs\<rparr>) st"
        using eq unallocated False by (simp add: admit_def Let_def update_inv_def)
      then show thesis by (rule that(2))
    qed
  qed
  then show ?thesis
  proof cases
    case 2
    have "worker_ok st' (workers st' m)" for m
      unfolding 2 update_inv_simps by (rule worker_ok_frame [OF D(6)]) (use unowned in auto)
    moreover have "reaper_ok st' (reaper st')"
      unfolding 2 update_inv_simps by (rule reaper_ok_frame [OF D(7)]) (use unreaped in auto)
    moreover have "place_ok st' j" for j
      using D(8) [of j] fresh unowned 2 by (auto simp: place_ok_def owned_def)
    ultimately show ?thesis using D(1-5) unfolding exec_inv_def 2 update_inv_simps by blast
  next
    case 3
    have "worker_ok st' (workers st' m)" for m
      unfolding 3 by simp (rule worker_ok_frame [OF D(6)], use unowned in auto)
    moreover have "reaper_ok st' (reaper st')"
      unfolding 3 by simp (rule reaper_ok_frame [OF D(7)], use unreaped in auto)
    moreover have "place_ok st' j" for j
      using D(8) [of j] fresh unowned 3 by (auto simp: place_ok_def owned_def)
    ultimately show ?thesis using D(1-5) 3 fresh unfolding exec_inv_def by auto
  qed (use inv in simp)
qed

lemma take_work_keeps:
  assumes inv: "exec_inv cap st" and idle: "owner (workers st n) = None" and q: "queue st = i # rest"
  shows "exec_inv cap (st\<lparr>queue := rest, workers := (workers st)(n := Running i)\<rparr>)" (is "exec_inv cap ?st")
proof -
  note D = exec_invD [OF inv]
  have i: "i \<in> set (pending st)" "i \<notin> set rest" "in_phase Queued (invs st i)"
    using D(1,3) D(8) [of i] q by (auto simp: place_ok_def)
  have unowned: "owner (workers st m) \<noteq> Some i" for m
    using D(6) [of m] q by (cases "workers st m") auto
  have "worker_ok ?st (workers ?st m)" for m
  proof (cases "m = n")
    case False
    have "worker_ok ?st (workers st m)"
      by (rule worker_ok_frame [OF D(6)]) (use q in auto)
    then show ?thesis using False by simp
  qed (use i in simp)
  moreover have "reaper_ok ?st (reaper ?st)"
    by simp (rule reaper_ok_frame [OF D(7)], simp)
  moreover have "place_ok ?st j" for j
  proof (cases "j = i")
    case True
    have "owned ?st i" unfolding owned_def by (rule exI [of _ n]) simp
    then show ?thesis using True i by (simp add: place_ok_def)
  next
    case False
    have "owned ?st j = owned st j"
      by (rule owners_update [OF _ _ refl, of _ n]) (use idle False in auto)
    then show ?thesis using D(8) [of j] False q by (simp add: place_ok_def del: in_phase.simps)
  qed
  moreover have "m = m'" if "owner (workers ?st m) = Some j" "owner (workers ?st m') = Some j" for m m' j
    using that D(5) [of m j m'] unowned by (auto split: if_splits)
  moreover have "distinct rest" "set rest \<subseteq> set (pending st)" using D(1,3) q by auto
  moreover have "queue ?st = rest" "pending ?st = pending st" by simp_all
  ultimately show ?thesis
    using D(2,4) unfolding exec_inv_def by metis
qed

lemma idle_keeps:
  assumes inv: "exec_inv cap st" and idle: "owner (workers st n) = None" "owner pc = None"
  shows "exec_inv cap (st\<lparr>workers := (workers st)(n := pc)\<rparr>)" (is "exec_inv cap ?st")
proof -
  note D = exec_invD [OF inv]
  have "worker_ok ?st (workers ?st m)" for m
  proof (cases "m = n")
    case True
    then show ?thesis using idle(2) by (cases pc) auto
  next
    case False
    have "worker_ok ?st (workers st m)" by (rule worker_ok_frame [OF D(6)]) simp
    then show ?thesis using False by simp
  qed
  moreover have "reaper_ok ?st (reaper ?st)"
    by simp (rule reaper_ok_frame [OF D(7)], simp)
  moreover have "place_ok ?st j" for j
  proof -
    have "owned ?st j = owned st j"
      by (rule owners_update [OF _ _ refl, of _ n]) (use idle in auto)
    then show ?thesis using D(8) [of j] by (simp add: place_ok_def del: in_phase.simps)
  qed
  moreover have "m = m'" if "owner (workers ?st m) = Some j" "owner (workers ?st m') = Some j" for m m' j
    using that D(5) [of m j m'] idle by (auto split: if_splits)
  moreover have "queue ?st = queue st" "pending ?st = pending st" by simp_all
  ultimately show ?thesis
    using D(1-4) unfolding exec_inv_def by metis
qed

text \<open>Erasing a completed invocation, by the thread that completed it.\<close>

lemma erase_keeps:
  assumes inv: "exec_inv cap st" and i: "in_phase Done (invs st i)" "i \<notin> set (queue st)"
    and same: "queue st' = queue st" "invs st' = invs st" "pending st' = filter (\<lambda>j. j \<noteq> i) (pending st)"
    and left: "\<And>m. workers st' m = (if owner (workers st m) = Some i then AwaitWork else workers st m)"
      "reaped (reaper st') \<noteq> Some i" "reaper_ok st (reaper st')"
      "\<And>j k. j \<noteq> i \<Longrightarrow> reaper st = ReapErase j k \<Longrightarrow> reaper st' = ReapErase j k"
  shows "exec_inv cap st'"
proof -
  note D = exec_invD [OF inv]
  have worker: "worker_ok st' (workers st' m)" for m
  proof (cases "owner (workers st m) = Some i")
    case False
    have "worker_ok st' (workers st m)"
      by (rule worker_ok_frame [OF D(6)]) (use same False in auto)
    then show ?thesis using False left(1) by simp
  qed (simp add: left(1))
  have reap: "reaper_ok st' (reaper st')"
    by (rule reaper_ok_frame [OF left(3)]) (use same left(2) in auto)
  have place: "place_ok st' j" for j
  proof (cases "j = i")
    case True
    have "\<not> owned st' i" using left(1) by (auto simp: owned_def split: if_splits)
    then show ?thesis using True i same by (simp add: place_ok_def del: in_phase.simps)
  next
    case False
    have "owner (workers st' m) = Some j \<longleftrightarrow> owner (workers st m) = Some j" for m
      using left(1) [of m] False by simp
    then have "owned st' j = owned st j" by (simp add: owned_def)
    then show ?thesis
      using D(8) [of j] False same left(4) by (auto simp: place_ok_def simp del: in_phase.simps)
  qed
  have "owner (workers st m) = Some j" if "owner (workers st' m) = Some j" for m j
    using that left(1) [of m] by (auto split: if_splits)
  then have unique: "m = m'" if "owner (workers st' m) = Some j" "owner (workers st' m') = Some j" for m m' j
    using that D(5) [of m j m'] by blast
  have "length (pending st') \<le> unat cap"
    using D(4) same(3) by (metis length_filter_le le_trans)
  then show ?thesis
    using D(1-3) same i(2) worker reap place unique unfolding exec_inv_def by auto
qed

lemma exec_inv_frame:
  assumes "exec_inv cap st" "queue st' = queue st" "pending st' = pending st" "workers st' = workers st"
    "invs st' = invs st" "reaper st' = reaper st"
  shows "exec_inv cap st'"
proof -
  note D = exec_invD [OF assms(1)]
  have "worker_ok st' (workers st' n)" for n
    unfolding assms(4) by (rule worker_ok_frame [OF D(6)]) (simp add: assms)
  moreover have "reaper_ok st' (reaper st')"
    unfolding assms(6) by (rule reaper_ok_frame [OF D(7)]) (simp add: assms)
  moreover have "place_ok st' i" for i
    using D(8) [of i] assms(2-6) by (simp add: place_ok_def owned_def del: in_phase.simps)
  ultimately show ?thesis using D(1-5) assms(2-4) unfolding exec_inv_def by metis
qed

lemma reaper_look_keeps:
  assumes "exec_inv cap st" "reaped pc = None \<or> (\<exists>i k. pc = Collecting i k \<and> i \<in> set (pending st) \<and> in_phase Sent (invs st i))"
    and "\<forall>j k. reaper st \<noteq> ReapErase j k"
  shows "exec_inv cap (st\<lparr>reaper := pc\<rparr>)" (is "exec_inv cap ?st")
proof -
  note D = exec_invD [OF assms(1)]
  have "worker_ok ?st (workers ?st n)" for n
    by simp (rule worker_ok_frame [OF D(6)], simp)
  moreover have "reaper_ok ?st (reaper ?st)"
    using assms(2) by (cases pc) auto
  moreover have "place_ok ?st i" for i
    using D(8) [of i] assms(3) by (auto simp: place_ok_def owned_def simp del: in_phase.simps)
  moreover have "queue ?st = queue st" "pending ?st = pending st" "workers ?st = workers st" by simp_all
  ultimately show ?thesis using D(1-5) unfolding exec_inv_def by metis
qed

lemma sent_phase:
  assumes "exec_inv cap st" "sent (invs st i)" "\<not> complete (invs st i)"
  shows "i \<in> set (pending st) \<and> in_phase Sent (invs st i)"
proof -
  note D = exec_invD [OF assms(1)]
  have "owner (workers st n) \<noteq> Some i" for n
    using D(6) [of n] assms(2,3) by (cases "workers st n") auto
  then show ?thesis
    using D(8) [of i] assms(2,3) by (auto simp: place_ok_def owned_def split: if_splits)
qed

lemma worker_step_keeps:
  assumes inv: "exec_inv cap st" and step: "worker_step n outcome st = Some st'"
  shows "exec_inv cap st'"
proof -
  note D = exec_invD [OF inv]
  show ?thesis
  proof (cases "workers st n")
    case AwaitWork
    then show ?thesis
      using step take_work_keeps [OF inv, of n] idle_keeps [OF inv, of n WorkerExited]
      by (auto simp: worker_step_def split: list.splits if_splits)
  next
    case (Running i)
    then have i: "i \<in> set (pending st)" "i \<notin> set (queue st)" "in_phase Queued (invs st i)"
      using D(6) [of n] by simp_all
    show ?thesis
    proof (cases "has_send (invs st i)")
      case True
      with Running step have st': "st' = (send_status i outcome (dispatch i outcome st))
          \<lparr>workers := (workers (send_status i outcome (dispatch i outcome st)))(n := MarkSent i)\<rparr>"
        by (simp add: worker_step_def)
      show ?thesis
        by (rule worker_move [OF inv, of n i st' "invs st' i" "MarkSent i"])
          (use Running i True in \<open>auto simp: st' send_status_def dispatch_def recorded_status_def fun_eq_iff
             split: call_outcome.splits\<close>)
    next
      case False
      with Running step have st': "st' = (dispatch i outcome st)\<lparr>workers := (workers (dispatch i outcome st))
          (n := SetResult i (call_status outcome))\<rparr>"
        by (simp add: worker_step_def)
      show ?thesis
        by (rule worker_move [OF inv, of n i st' "invs st' i" "SetResult i (call_status outcome)"])
          (use Running i False in \<open>auto simp: st' dispatch_def result_of_def fun_eq_iff\<close>)
    qed
  next
    case (SetResult i s)
    then have i: "i \<in> set (pending st)" "i \<notin> set (queue st)" "in_phase Called (invs st i)"
      "result_of (invs st i) = Some s"
      using D(6) [of n] by simp_all
    from SetResult step have st': "st' = (finish_set i s st)\<lparr>workers := (workers (finish_set i s st))(n := EraseResult i)\<rparr>"
      by (simp add: worker_step_def)
    show ?thesis
      by (rule worker_move [OF inv, of n i st' "invs st' i" "EraseResult i"])
        (use SetResult i in \<open>auto simp: st' finish_set_def result_of_def fun_eq_iff split: option.splits\<close>)
  next
    case (EraseResult i)
    then have i: "i \<in> set (pending st)" "i \<notin> set (queue st)" "in_phase Done (invs st i)"
      "\<not> has_send (invs st i)"
      using D(6) [of n] by simp_all
    from EraseResult step have st': "st' = (finish_erase i st)\<lparr>workers := (workers (finish_erase i st))(n := AwaitWork)\<rparr>"
      by (simp add: worker_step_def)
    have "reaped (reaper st) \<noteq> Some i" using owned_not_reaped [OF inv, of n i] EraseResult by simp
    then show ?thesis
      using D(5) [of _ i n] D(7) EraseResult
      by (intro erase_keeps [OF inv i(3,2), of st']) (auto simp: st' finish_erase_def)
  next
    case (MarkSent i)
    then have i: "i \<in> set (pending st)" "i \<notin> set (queue st)" "in_phase Sending (invs st i)"
      using D(6) [of n] by simp_all
    from MarkSent step have st': "st' = (update_inv i (\<lambda>v. v\<lparr>sent := True\<rparr>) st)
        \<lparr>workers := (workers (update_inv i (\<lambda>v. v\<lparr>sent := True\<rparr>) st))(n := AwaitWork)\<rparr>"
      by (simp add: worker_step_def)
    show ?thesis
      by (rule worker_move [OF inv, of n i st' "invs st' i" AwaitWork])
        (use MarkSent i in \<open>auto simp: st' fun_eq_iff\<close>)
  qed (use step in \<open>simp add: worker_step_def\<close>)
qed

lemma reaper_step_keeps:
  assumes inv: "exec_inv cap st" and step: "reaper_step outcome st = Some st'"
  shows "exec_inv cap st'"
proof -
  note D = exec_invD [OF inv]
  show ?thesis
  proof (cases "reaper st")
    case (Scan k)
    then show ?thesis
      using step by (auto simp: reaper_step_def intro!: reaper_look_keeps [OF inv] split: if_splits)
  next
    case (Candidate i k)
    then show ?thesis
      using step sent_phase [OF inv, of i]
      by (auto simp: reaper_step_def simp del: in_phase.simps intro!: reaper_look_keeps [OF inv] split: if_splits)
  next
    case (Collecting i k)
    then have i: "i \<in> set (pending st)" "in_phase Sent (invs st i)" using D(7) by simp_all
    have "invs st' = (invs st)(i := (invs st i)\<lparr>collected := Some outcome\<rparr>)" "queue st' = queue st"
      "pending st' = pending st" "workers st' = workers st"
      "reaper st' = Scan k \<or> (\<exists>s. reaper st' = ReapResult i s k
         \<and> result_of ((invs st i)\<lparr>collected := Some outcome\<rparr>) = Some s)"
      using step Collecting i(2)
      by (auto simp: reaper_step_def Let_def update_inv_def result_of_def split: collect_outcome.splits)
    then show ?thesis
      using i Collecting by (intro reaper_move [OF inv, of st' i]) auto
  next
    case (ReapResult i s k)
    then have i: "i \<in> set (pending st)" "in_phase Sent (invs st i)" "result_of (invs st i) = Some s"
      using D(7) by simp_all
    from ReapResult step have st': "st' = (finish_set i s st)\<lparr>reaper := ReapErase i k\<rparr>"
      by (simp add: reaper_step_def)
    show ?thesis
      by (rule reaper_move [OF inv, of st' i "invs st' i"])
        (use ReapResult i in \<open>auto simp: st' finish_set_def result_of_def fun_eq_iff split: option.splits\<close>)
  next
    case (ReapErase i k)
    then have i: "i \<in> set (pending st)" "in_phase Done (invs st i)" "has_send (invs st i)"
      using D(7) by simp_all
    have unowned: "owner (workers st m) \<noteq> Some i" for m
      using D(6) [of m] i by (cases "workers st m") auto
    have "i \<notin> set (queue st)" using D(8) [of i] i by (auto simp: place_ok_def)
    moreover from ReapErase step have st': "st' = (finish_erase i st)\<lparr>reaper := Scan k\<rparr>"
      by (simp add: reaper_step_def)
    ultimately show ?thesis
      using unowned ReapErase i
      by (intro erase_keeps [OF inv, of i st']) (auto simp: finish_erase_def simp del: in_phase.simps)
  next
    case Sleeping
    then show ?thesis
      using step by (auto simp: reaper_step_def intro!: reaper_look_keeps [OF inv] split: if_splits
          intro: exec_inv_frame [OF inv])
  qed (use step in \<open>simp add: reaper_step_def\<close>)
qed

lemma control_step_keeps: "exec_inv cap st \<Longrightarrow> control_step st = Some st' \<Longrightarrow> exec_inv cap st'"
  by (erule exec_inv_frame)
    (auto simp: control_step_def split: control_pc.splits if_splits)

lemma exec_step_keeps: "exec_step cap st st' \<Longrightarrow> exec_inv cap st \<Longrightarrow> exec_inv cap st'"
  by (induction rule: exec_step.induct)
    (auto intro: admit_keeps worker_step_keeps reaper_step_keeps control_step_keeps)

lemma new_executor_inv: "exec_inv cap (new_executor w sends)"
  by (auto simp: exec_inv_def new_executor_def new_invocation_def place_ok_def owned_def)

lemma reachable_inv:
  assumes "exec_reachable cap st"
  shows "exec_inv cap st"
proof -
  obtain w sends where "(exec_step cap)\<^sup>*\<^sup>* (new_executor w sends) st"
    using assms by (auto simp: exec_reachable_def)
  then show ?thesis
    by (induction rule: rtranclp_induct) (auto intro: new_executor_inv exec_step_keeps)
qed

lemma some_phase: "exec_inv cap st \<Longrightarrow> \<exists>p. in_phase p (invs st i)"
proof -
  assume inv: "exec_inv cap st"
  note D = exec_invD [OF inv]
  show ?thesis
  proof (cases "owned st i")
    case True
    then obtain n where "owner (workers st n) = Some i" by (auto simp: owned_def)
    then show ?thesis
      using D(6) [of n] by (cases "workers st n") (auto simp del: in_phase.simps)
  next
    case False
    then show ?thesis using D(8) [of i] by (auto simp: place_ok_def simp del: in_phase.simps split: if_splits)
  qed
qed

lemma phase_facts:
  assumes "exec_inv cap st"
  shows "dispatches (invs st i) \<le> 1" "finishes (invs st i) \<le> 1"
    "complete (invs st i) \<longleftrightarrow> finishes (invs st i) = 1"
    "complete (invs st i) \<Longrightarrow> dispatches (invs st i) = 1"
    "complete (invs st i) \<Longrightarrow> result_of (invs st i) = Some (status (invs st i))"
proof -
  obtain p where p: "in_phase p (invs st i)" using some_phase [OF assms] by blast
  then show "dispatches (invs st i) \<le> 1" "finishes (invs st i) \<le> 1"
    "complete (invs st i) \<longleftrightarrow> finishes (invs st i) = 1"
    "complete (invs st i) \<Longrightarrow> dispatches (invs st i) = 1"
    "complete (invs st i) \<Longrightarrow> result_of (invs st i) = Some (status (invs st i))"
    by (cases p; auto)+
qed

text \<open>With nothing pending, no admitted invocation is unfinished.\<close>

lemma drained_complete:
  assumes "exec_inv cap st" "pending st = []"
  shows "admissions (invs st i) = 0 \<or> complete (invs st i)"
proof -
  note D = exec_invD [OF assms(1)]
  have "owner (workers st n) \<noteq> Some i" for n
    using D(6) [of n] assms(2) by (cases "workers st n") auto
  then show ?thesis
    using D(3) D(8) [of i] assms(2) by (auto simp: place_ok_def owned_def)
qed

section \<open>A run\<close>

datatype action = Admit nat u32 nat | Work nat call_outcome | Reap collect_outcome | Control

fun perform :: "u32 \<Rightarrow> action \<Rightarrow> executor \<Rightarrow> executor option" where
  "perform cap (Admit i timeoutMs now) st =
     (if admissions (invs st i) = 0 then Some (snd (admit i cap timeoutMs now True st)) else None)"
| "perform cap (Work n outcome) st = (if n < width st then worker_step n outcome st else None)"
| "perform cap (Reap outcome) st = reaper_step outcome st"
| "perform cap Control st = control_step st"

fun perform_all :: "u32 \<Rightarrow> action list \<Rightarrow> executor \<Rightarrow> executor option" where
  "perform_all cap [] st = Some st"
| "perform_all cap (a # as) st = Option.bind (perform cap a st) (perform_all cap as)"

lemma perform_step: "perform cap a st = Some st' \<Longrightarrow> exec_step cap st st'"
  by (cases a) (auto split: if_splits intro: exec_step.intros prod.collapse [symmetric])

lemma perform_all_steps: "perform_all cap as st = Some st' \<Longrightarrow> (exec_step cap)\<^sup>*\<^sup>* st st'"
proof (induction cap as st rule: perform_all.induct)
  case (2 cap a as st)
  then obtain mid where mid: "perform cap a st = Some mid" "perform_all cap as mid = Some st'"
    by (auto simp: bind_eq_Some_conv)
  then have "exec_step cap st mid" by (intro perform_step)
  then show ?case using 2(1) [OF mid] by (rule converse_rtranclp_into_rtranclp)
qed simp

lemma perform_all_reachable:
  "perform_all cap as (new_executor w sends) = Some st \<Longrightarrow> exec_reachable cap st"
  unfolding exec_reachable_def by (blast dest: perform_all_steps)

text \<open>One worker; operation 5 belongs to another thread, operation 6 does not.\<close>

definition sample_actions :: "action list" where
  "sample_actions = [Admit 5 1000 0, Admit 6 1000 7, Work 0 (Returned True), Work 0 (Returned True),
     Work 0 (Returned True), Work 0 (Returned True), Work 0 (Returned True), Work 0 (Returned True),
     Reap SendSuccess, Reap SendSuccess, Reap SendSuccess, Work 0 (Returned True), Reap SendSuccess,
     Reap SendSuccess, Control]"

definition sample_executor :: executor where
  "sample_executor = the (perform_all 4 sample_actions (new_executor 1 (\<lambda>i. i = 5)))"

lemma sample_executor_reachable: "exec_reachable 4 sample_executor"
proof -
  have "perform_all 4 sample_actions (new_executor 1 (\<lambda>i. i = 5)) \<noteq> None"
  proof -
    have "\<not> Option.is_none (perform_all 4 sample_actions (new_executor 1 (\<lambda>i. i = 5)))" by code_simp
    then show ?thesis by (simp add: Option.is_none_def)
  qed
  then show ?thesis
    unfolding sample_executor_def by (auto intro: perform_all_reachable)
qed

section \<open>Properties of the executor\<close>

text \<open>
  C15: in every interleaving, RTT is asked to run an admitted operation at most once and the
  invocation is completed at most once, by the worker or by the reaper, and only after it was
  dispatched: no operation is replayed and no result is given twice.
\<close>

theorem operation_runs_once:
  assumes "exec_reachable cap st"
  shows "dispatches (invs st i) \<le> 1 \<and> finishes (invs st i) \<le> 1
     \<and> (complete (invs st i) = (finishes (invs st i) = 1))
     \<and> finishes (invs st i) \<le> dispatches (invs st i)"
  using phase_facts [OF reachable_inv [OF assms], of i] by auto

lemma operation_runs_once_witness:
  "dispatches (invs sample_executor 5) = 1 \<and> finishes (invs sample_executor 5) \<le> 1"
proof -
  have "dispatches (invs sample_executor 5) = 1" by code_simp
  then show ?thesis using operation_runs_once [OF sample_executor_reachable, of 5] by simp
qed

text \<open>
  C16: the status of a completed operation is what RTT answered: 200 exactly if the call
  returned true, or, for an operation of another thread, if sending it did not throw and
  collecting it succeeded; otherwise 503 (refused) or 500 (an exception).
\<close>

theorem completed_status_faithful:
  assumes "exec_reachable cap st" "complete (invs st i)"
  shows "(status (invs st i) = 200) =
       (if has_send (invs st i)
        then (called (invs st i) = Some (Returned True) \<or> called (invs st i) = Some (Returned False))
          \<and> collected (invs st i) = Some SendSuccess
        else called (invs st i) = Some (Returned True))
     \<and> status (invs st i) \<in> {200, 500, 503}"
  using phase_facts(5) [OF reachable_inv [OF assms(1)] assms(2)]
  by (auto simp: result_of_def call_status_def collect_status_def recorded_status_def
      split: option.splits if_splits call_outcome.splits collect_outcome.splits)

lemma completed_status_faithful_witness: "status (invs sample_executor 5) = 200"
proof -
  have "complete (invs sample_executor 5)" "has_send (invs sample_executor 5)"
    "called (invs sample_executor 5) = Some (Returned True)"
    "collected (invs sample_executor 5) = Some SendSuccess"
    by code_simp+
  then show ?thesis using completed_status_faithful [OF sample_executor_reachable, of 5] by simp
qed

text \<open>
  The number of pending operations never exceeds the configured maximum, in any
  interleaving, and \<open>count\<close> reports it without truncation.
\<close>

theorem pending_bounded:
  assumes "exec_reachable cap st"
  shows "length (pending st) \<le> unat cap \<and> unat (pending_count st) = length (pending st)"
proof -
  have le: "length (pending st) \<le> unat cap" using exec_invD(4) [OF reachable_inv [OF assms]] .
  also have "\<dots> < 2 ^ 32" using unsigned_less [of cap] by simp
  finally show ?thesis using le by (simp add: pending_count_def unsigned_of_nat take_bit_nat_eq_self)
qed

lemma pending_bounded_witness: "length (pending sample_executor) \<le> 4"
  using pending_bounded [OF sample_executor_reachable] by simp

text \<open>
  When \<open>drain\<close> returns, every operation ever admitted is complete, in every
  interleaving: shutdown never abandons an operation that RTT still runs.
\<close>

theorem drain_waits_for_all:
  assumes "exec_reachable cap st" "control st = Draining" "control_step st = Some st'"
  shows "admissions (invs st' i) = 0 \<or> complete (invs st' i)"
proof -
  have "pending st = []" "st' = st\<lparr>control := Drained\<rparr>"
    using assms(2,3) by (auto simp: control_step_def split: if_splits)
  then show ?thesis using drained_complete [OF reachable_inv [OF assms(1)], of i] by simp
qed

lemma drain_waits_for_all_witness:
  "complete (invs (sample_executor\<lparr>control := Drained\<rparr>) 6)"
proof -
  have "control sample_executor = Draining" "pending sample_executor = []"
    "admissions (invs sample_executor 6) = 1" by code_simp+
  then show ?thesis
    using drain_waits_for_all [OF sample_executor_reachable, of "sample_executor\<lparr>control := Drained\<rparr>" 6]
    by (simp add: control_step_def)
qed

end
