(* ===== verification/Type_Closure.thy ===== *)
theory Type_Closure
  imports Type_Catalog
begin

text \<open>
  The definitions a document carries (\<open>ObjectModel::types\<close> and \<open>ObjectModel::unsupported\<close> in
  \<open>object_model.cpp\<close>): a worklist over the catalog collects every type that a set of names
  refers to, directly or through other definitions.
\<close>

text \<open>The diagnostics of types without a codec, by type name.\<close>

type_synonym type_diagnostics = "(string \<times> string) list"

definition no_codec :: string where
  "no_codec = ''no registered HTTP JSON codec''"

definition unsupported :: "type_diagnostics \<Rightarrow> string \<Rightarrow> string" where
  "unsupported diags name = (case map_of diags name of Some reason \<Rightarrow> reason | None \<Rightarrow> no_codec)"

definition type_entry :: "'c type_catalog \<Rightarrow> type_diagnostics \<Rightarrow> string \<Rightarrow> json" where
  "type_entry cat diags name =
     (case find_name cat name of
        Some b \<Rightarrow> JObject (descriptor (bound b))
      | None \<Rightarrow> JObject [(''kind'', JNull), (''jsonSupported'', JBool False),
          (''reason'', JString (unsupported diags name))])"

text \<open>
  The loop: \<open>work\<close> is the vector \<open>pending\<close>, its back at the head of the list; the dependencies of
  a definition are pushed in order.
\<close>

function (sequential) collect_types ::
  "'c type_catalog \<Rightarrow> type_diagnostics \<Rightarrow> json_object \<Rightarrow> string list \<Rightarrow> json_object" where
  "collect_types cat diags result [] = result"
| "collect_types cat diags result (name # work) =
     (if name \<in> fst ` set result then collect_types cat diags result work
      else collect_types cat diags (result @ [(name, type_entry cat diags name)])
        (rev (deps (catalog_types cat) name) @ work))"
  by pat_completeness auto

definition universe :: "'c type_catalog \<Rightarrow> string list \<Rightarrow> string set" where
  "universe cat work = set work \<union> (\<Union>(n, b) \<in> set (catalog_types cat). set (dependencies (bound b)))"

lemma finite_universe [simp]: "finite (universe cat work)"
  by (auto simp: universe_def)

lemma deps_in_universe: "set (deps (catalog_types cat) name) \<subseteq> universe cat work"
proof (cases "map_of (catalog_types cat) name")
  case (Some b)
  then have "(name, b) \<in> set (catalog_types cat)" by (rule map_of_SomeD)
  with Some show ?thesis by (auto simp: universe_def deps_def)
qed (simp add: deps_def)

termination collect_types
proof (relation "measures [\<lambda>(cat, diags, result, work). card (universe cat work - fst ` set result),
    \<lambda>(cat, diags, result, work). length work]", goal_cases)
  case 1
  then show ?case by simp
next
  case (2 cat diags result name work)
  have "universe cat work - fst ` set result \<subseteq> universe cat (name # work) - fst ` set result"
    by (auto simp: universe_def)
  then have "card (universe cat work - fst ` set result) \<le> card (universe cat (name # work) - fst ` set result)"
    by (intro card_mono) auto
  then show ?case by (simp add: le_less)
next
  case (3 cat diags result name work)
  let ?work = "rev (deps (catalog_types cat) name) @ work"
  have "universe cat ?work - insert name (fst ` set result) \<subset> universe cat (name # work) - fst ` set result"
    using 3 deps_in_universe [of cat name "[]"] by (auto simp: universe_def)
  then have "card (universe cat ?work - insert name (fst ` set result))
      < card (universe cat (name # work) - fst ` set result)"
    by (intro psubset_card_mono) auto
  then show ?case by simp
qed

declare collect_types.simps(2) [simp del]

text \<open>\<open>references\<close> is a \<open>std::set\<close>: its elements in order, without repetition.\<close>

definition types_of :: "'c type_catalog \<Rightarrow> type_diagnostics \<Rightarrow> string list \<Rightarrow> json_object" where
  "types_of cat diags references = collect_types cat diags [] (rev references)"

section \<open>What the loop collects\<close>

text \<open>
  The result is closed under references from its own names and the work left, and everything
  in it or in the work is reachable from the starting names.
\<close>

definition closing :: "'c type_catalog \<Rightarrow> json_object \<Rightarrow> string set \<Rightarrow> bool" where
  "closing cat result work \<longleftrightarrow>
     (\<forall>n \<in> fst ` set result. \<forall>d \<in> set (deps (catalog_types cat) n). d \<in> fst ` set result \<union> work)"

definition collect_post ::
  "'c type_catalog \<Rightarrow> type_diagnostics \<Rightarrow> string set \<Rightarrow> json_object \<Rightarrow> bool" where
  "collect_post cat diags start result \<longleftrightarrow>
     distinct (map fst result) \<and> (\<forall>(n, v) \<in> set result. v = type_entry cat diags n)
     \<and> start \<subseteq> fst ` set result \<and> closing cat result {}
     \<and> fst ` set result \<subseteq> (refers (catalog_types cat))\<^sup>* `` start"

lemma collect_types_spec:
  assumes "distinct (map fst result)" "\<forall>(n, v) \<in> set result. v = type_entry cat diags n"
    and "closing cat result (set work)"
  shows "collect_post cat diags (fst ` set result \<union> set work) (collect_types cat diags result work)"
  using assms
proof (induction cat diags result work rule: collect_types.induct)
  case (1 cat diags result)
  then show ?case by (auto simp: collect_post_def)
next
  case (2 cat diags result name work)
  show ?case
  proof (cases "name \<in> fst ` set result")
    case True
    have "closing cat result (set work)"
      using 2(5) True by (auto simp: closing_def)
    then have "collect_post cat diags (fst ` set result \<union> set work) (collect_types cat diags result work)"
      by (rule 2(1) [OF True 2(3,4)])
    moreover have "fst ` set result \<union> set (name # work) = fst ` set result \<union> set work"
      using True by auto
    ultimately show ?thesis using True by (simp add: collect_types.simps(2))
  next
    case False
    let ?r = "result @ [(name, type_entry cat diags name)]"
    let ?w = "rev (deps (catalog_types cat) name) @ work"
    let ?R = "(refers (catalog_types cat))\<^sup>*"
    have c: "closing cat ?r (set ?w)" using 2(5) by (auto simp: closing_def)
    have d: "distinct (map fst ?r)" using 2(3) False by auto
    have e: "\<forall>(n, v) \<in> set ?r. v = type_entry cat diags n" using 2(4) by auto
    have IH: "collect_post cat diags (fst ` set ?r \<union> set ?w) (collect_types cat diags ?r ?w)"
      by (rule 2(2) [OF False d e c])
    have "(name, x) \<in> refers (catalog_types cat)" if "x \<in> set (deps (catalog_types cat) name)" for x
      using that by (simp add: refers_def)
    then have "?R `` (fst ` set ?r \<union> set ?w) \<subseteq> ?R `` (fst ` set result \<union> set (name # work))"
      by (auto intro: converse_rtrancl_into_rtrancl)
    moreover have "fst ` set result \<union> set (name # work) \<subseteq> fst ` set ?r \<union> set ?w" by auto
    ultimately have "collect_post cat diags (fst ` set result \<union> set (name # work)) (collect_types cat diags ?r ?w)"
      using IH unfolding collect_post_def by (meson order_trans)
    then show ?thesis using False by (simp add: collect_types.simps(2))
  qed
qed

text \<open>
  C30: the loop that collects definitions ends on every catalog, recursive or not, and returns
  each name once: exactly the names that the references reach through definitions, with the
  registered descriptor or, for a name without a codec, the reason.
\<close>

theorem types_of_exact:
  "distinct (map fst (types_of cat diags references))
   \<and> fst ` set (types_of cat diags references) = (refers (catalog_types cat))\<^sup>* `` set references
   \<and> list_all (\<lambda>(n, v). v = type_entry cat diags n) (types_of cat diags references)"
proof -
  let ?r = "types_of cat diags references"
  have spec: "distinct (map fst ?r)" "\<forall>(n, v) \<in> set ?r. v = type_entry cat diags n"
    "set references \<subseteq> fst ` set ?r" "closing cat ?r {}"
    "fst ` set ?r \<subseteq> (refers (catalog_types cat))\<^sup>* `` set references"
    using collect_types_spec [of "[]" cat diags "rev references"]
    by (auto simp: types_of_def closing_def collect_post_def)
  have "d \<in> fst ` set ?r" if "(n, d) \<in> (refers (catalog_types cat))\<^sup>*" "n \<in> fst ` set ?r" for n d
    using that
  proof (induction rule: rtrancl_induct)
    case (step y z)
    then show ?case using spec(4) unfolding closing_def refers_def by blast
  qed
  then have "(refers (catalog_types cat))\<^sup>* `` set references \<subseteq> fst ` set ?r"
    using spec(3) by blast
  with spec show ?thesis by (auto simp: list_all_iff)
qed

end
