(* ===== verification/Object_Model.thy ===== *)
theory Object_Model
  imports Type_Closure Url_Path Numeric_Codec
begin

text \<open>
  Publication of an RTT component (\<open>object_model.hpp\<close>; \<open>describeService\<close> and \<open>stage\<close> in
  \<open>object_model.cpp\<close>): the services of a component are walked, every property, attribute,
  operation and port becomes a resource under a path, and descriptions list them.

  RTT's objects are a parameter: \<open>rtt_view\<close> says what RTT's accessors return, with a number for
  each object.  An exception is \<open>Inl\<close> with its message; it abandons the whole publication, so
  no state survives it.
\<close>

section \<open>What RTT tells\<close>

record source_view =
  source_id :: nat
  source_type :: "nat option"
  source_assignable :: bool

text \<open>A property or attribute: its description and data source; attributes have no description.\<close>

record member_view =
  member_doc :: string
  member_source :: "source_view option"

record argument_view =
  argument_name :: string
  argument_doc :: string
  argument_text :: string

text \<open>Types are counted from 1 in \<open>getArgumentType\<close> and \<open>getCollectType\<close>; argument 0 is the result.\<close>

record part_view =
  part_id :: nat
  part_description :: string
  part_arguments :: "argument_view list"
  part_arity :: nat
  part_argument_type :: "nat \<Rightarrow> nat option"
  part_collect_arity :: nat
  part_collect_type :: "nat \<Rightarrow> nat option"
  part_own_thread :: bool

record port_view =
  port_id :: nat
  port_doc :: string
  port_type :: "nat option"
  port_output :: bool
  port_input :: bool
  port_keeps_last :: bool
  port_connects :: bool

record service_view =
  service_doc :: string
  service_providers :: "(string \<times> nat option) list"
  service_properties :: "(string \<times> member_view option) list"
  service_attributes :: "(string \<times> member_view option) list"
  service_operations :: "(string \<times> part_view option) list"
  service_ports :: "(string \<times> port_view option) list"

record 'c rtt_view =
  type_name :: "nat \<Rightarrow> string"
  services :: "nat \<Rightarrow> service_view"
  supports_port_value :: "'c \<Rightarrow> bool"

section \<open>What is published\<close>

datatype resource_kind = Description | Value | OperationResource | Latest | Samples

record 'c operation =
  op_part :: nat
  op_arguments :: "'c type_binding option list"
  op_collect_types :: "nat option list"
  op_collect_bindings :: "'c type_binding option list"
  op_result :: "'c type_binding option"
  op_has_result :: bool
  op_own_thread :: bool
  op_outputs :: "nat list"

record 'c resource =
  res_kind :: resource_kind
  res_allow :: string
  res_description :: json
  res_source :: "nat option"
  res_binding :: "'c type_binding option"
  res_output :: "nat option"
  res_bridge :: "nat option"
  res_operation :: "'c operation option"
  res_supported :: bool

definition new_resource :: "'c resource" where
  "new_resource = \<lparr>res_kind = Description, res_allow = ''GET, HEAD, OPTIONS'', res_description = JNull,
     res_source = None, res_binding = None, res_output = None, res_bridge = None,
     res_operation = None, res_supported = True\<rparr>"

record 'c publication =
  pub_component :: nat
  pub_summary :: json_object
  pub_routes :: "(string \<times> 'c resource) list"
  pub_diagnostics :: "string list"
  pub_observers :: "nat list"

section \<open>Exceptions\<close>

definition and_then :: "string + 'a \<Rightarrow> ('a \<Rightarrow> string + 'b) \<Rightarrow> string + 'b" where
  "and_then m f = (case m of Inl e \<Rightarrow> Inl e | Inr x \<Rightarrow> f x)"

definition guard :: "bool \<Rightarrow> string \<Rightarrow> string + unit" where
  "guard b e = (if b then Inr () else Inl e)"

text \<open>A loop whose body may throw.\<close>

fun each :: "('a \<Rightarrow> 's \<Rightarrow> string + 's) \<Rightarrow> 'a list \<Rightarrow> 's \<Rightarrow> string + 's" where
  "each f [] s = Inr s"
| "each f (x # xs) s = and_then (f x s) (each f xs)"

lemma and_then_cong [fundef_cong]:
  "m = m' \<Longrightarrow> (\<And>x. m' = Inr x \<Longrightarrow> f x = f' x) \<Longrightarrow> and_then m f = and_then m' f'"
  by (auto simp: and_then_def split: sum.splits)

lemma each_cong [fundef_cong]:
  "xs = ys \<Longrightarrow> s = t \<Longrightarrow> (\<And>x u. x \<in> set ys \<Longrightarrow> f x u = g x u) \<Longrightarrow> each f xs s = each g ys t"
  by (induction xs arbitrary: ys s t) (auto simp: and_then_def split: sum.splits)

lemma and_then_Inr: "and_then m f = Inr y \<longleftrightarrow> (\<exists>x. m = Inr x \<and> f x = Inr y)"
  by (auto simp: and_then_def split: sum.splits)

lemma guard_Inr: "guard b e = Inr u \<longleftrightarrow> b"
  by (simp add: guard_def)

lemma each_keeps:
  assumes "each f xs s = Inr s'" "P s" "\<And>x s s'. x \<in> set xs \<Longrightarrow> P s \<Longrightarrow> f x s = Inr s' \<Longrightarrow> P s'"
  shows "P s'"
  using assms by (induction xs arbitrary: s) (auto simp: and_then_Inr)

section \<open>Small parts\<close>

definition root :: string where
  "root = ''/api/v1/components''"

definition child_route :: "string \<Rightarrow> string \<Rightarrow> string + string" where
  "child_route parent name =
     (case childPath parent name of
        Some path \<Rightarrow> Inr path
      | None \<Rightarrow> Inl (if \<not> validName name then ''RTT name cannot be addressed by a browser URL''
                    else ''published RTT route exceeds the supported URL length''))"

definition typeName :: "'c rtt_view \<Rightarrow> nat option \<Rightarrow> string" where
  "typeName view ty = (case ty of None \<Rightarrow> ''unknown_t'' | Some t \<Rightarrow> type_name view t)"

definition isspace :: "char \<Rightarrow> bool" where
  "isspace ch \<longleftrightarrow> byte ch = 0x20 \<or> (0x09 \<le> byte ch \<and> byte ch \<le> 0x0d)"

definition isMutableReference :: "string \<Rightarrow> bool" where
  "isMutableReference ty =
     (let ty1 = rev (dropWhile isspace (rev ty)); ty2 = dropWhile isspace ty1 in
      ty2 \<noteq> [] \<and> last ty2 = CHR ''&'' \<and> take 6 ty2 \<noteq> ''const '')"

definition summary :: "string \<Rightarrow> string \<Rightarrow> string \<Rightarrow> string + json_object" where
  "summary name doc href =
     (if \<not> validUtf8 doc then Inl ''RTT description is not valid UTF-8''
      else Inr [(''name'', JString name), (''description'', JString doc), (''href'', JString href)])"

definition insert_route :: "string \<Rightarrow> 'c resource \<Rightarrow> 'c publication \<Rightarrow> string + 'c publication" where
  "insert_route path r pub =
     (if map_of (pub_routes pub) path \<noteq> None then
        Inl ''duplicate RTT resource identity during publication''
      else Inr (pub\<lparr>pub_routes := map_emplace path r (pub_routes pub)\<rparr>))"

definition item_name :: "json \<Rightarrow> string" where
  "item_name item =
     (case item of
        JObject ms \<Rightarrow> (case member ms ''name'' of Some (JString t) \<Rightarrow> t | _ \<Rightarrow> [])
      | _ \<Rightarrow> [])"

definition sortItems :: "json list \<Rightarrow> json list" where
  "sortItems items = sort_key item_name items"

definition find_binding :: "'c type_catalog \<Rightarrow> nat option \<Rightarrow> 'c type_binding option" where
  "find_binding cat ty = Option.bind ty (find_type cat)"

definition noteUnsupported ::
  "json_object \<Rightarrow> string \<Rightarrow> string \<Rightarrow> 'c publication \<Rightarrow> json_object \<times> 'c publication" where
  "noteUnsupported metadata href reason pub =
     (AList.update ''reason'' (if reason = [] then JNull else JString reason)
        (AList.update ''jsonSupported'' (JBool (reason = [])) metadata),
      if reason = [] then pub
      else pub\<lparr>pub_diagnostics := pub_diagnostics pub @ [href @ '': '' @ reason]\<rparr>)"

text \<open>A category in progress: the publication, its items and the types it refers to.\<close>

type_synonym 'c category_state = "'c publication \<times> json list \<times> string list"

section \<open>Properties and attributes\<close>

definition value_resource :: "'c rtt_view \<Rightarrow> 'c type_catalog \<Rightarrow> source_view \<Rightarrow> 'c resource" where
  "value_resource view cat src =
     new_resource\<lparr>res_kind := Value, res_source := Some (source_id src),
       res_binding := find_binding cat (source_type src),
       res_supported := (find_binding cat (source_type src) \<noteq> None \<and> typeName view (source_type src) \<noteq> ''Void''),
       res_allow := (if source_assignable src then ''GET, HEAD, PUT, OPTIONS'' else ''GET, HEAD, OPTIONS'')\<rparr>"

definition publish_member ::
  "'c rtt_view \<Rightarrow> 'c type_catalog \<Rightarrow> type_diagnostics \<Rightarrow> string \<Rightarrow> bool \<Rightarrow>
     string \<times> member_view option \<Rightarrow> 'c category_state \<Rightarrow> string + 'c category_state" where
  "publish_member view cat diags path is_property entry st =
     (case (entry, st) of ((memberName, found_member), (pub, items, referenced)) \<Rightarrow>
        and_then (child_route (path @ ''/'' @ (if is_property then ''properties'' else ''attributes'')) memberName) (\<lambda>href.
        case found_member of
          None \<Rightarrow> Inl (if is_property then ''RTT property disappeared during publication''
                      else ''RTT attribute disappeared during publication'')
        | Some m \<Rightarrow>
            (case member_source m of
               None \<Rightarrow> Inl ''RTT member has no data source''
             | Some src \<Rightarrow>
                 let ty = source_type src; r = value_resource view cat src in
                 and_then (summary memberName (if is_property then member_doc m else []) href) (\<lambda>metadata.
                 let metadata = AList.update ''writable'' (JBool (source_assignable src))
                       (AList.update ''rttType'' (JString (typeName view ty)) metadata);
                     (metadata, pub) = noteUnsupported metadata href
                       (if res_supported r then [] else unsupported diags (typeName view ty)) pub in
                 and_then (insert_route href r pub) (\<lambda>pub.
                 Inr (pub, items @ [JObject metadata], insort_insert (typeName view ty) referenced))))))"

section \<open>Operations\<close>

text \<open>The variables of the loop over an operation's signature.\<close>

record 'c signature_state =
  sig_reason :: string
  sig_types :: "string list"
  sig_arguments :: "'c type_binding option list"
  sig_outputs :: "nat list"
  sig_inputs_json :: "json list"
  sig_outputs_json :: "json list"
  sig_collect_types :: "nat option list"
  sig_collect :: "'c type_binding option list"

text \<open>\<open>bindingFor\<close>: notes the type and, when it cannot be converted, replaces the reason.\<close>

definition bindingFor ::
  "'c rtt_view \<Rightarrow> 'c type_catalog \<Rightarrow> type_diagnostics \<Rightarrow> nat option \<Rightarrow> bool \<Rightarrow> 'c signature_state \<Rightarrow>
     'c type_binding option \<times> 'c signature_state" where
  "bindingFor view cat diags ty allowVoid st =
     (let found = find_binding cat ty;
          st1 = st\<lparr>sig_types := insort_insert (typeName view ty) (sig_types st)\<rparr> in
      (found,
       if found = None \<or> (\<not> allowVoid \<and> typeName view ty = ''Void'')
       then st1\<lparr>sig_reason := unsupported diags (typeName view ty)\<rparr> else st1))"

definition argument_at :: "part_view \<Rightarrow> nat \<Rightarrow> argument_view option" where
  "argument_at part i = (if i < length (part_arguments part) then Some (part_arguments part ! i) else None)"

definition argument_label :: "part_view \<Rightarrow> nat \<Rightarrow> string" where
  "argument_label part i =
     (case argument_at part i of
        Some a \<Rightarrow> if argument_name a \<noteq> [] then argument_name a else ''argument'' @ nat_chars (i + 1)
      | None \<Rightarrow> ''argument'' @ nat_chars (i + 1))"

definition publish_argument ::
  "'c rtt_view \<Rightarrow> 'c type_catalog \<Rightarrow> type_diagnostics \<Rightarrow> part_view \<Rightarrow> nat \<Rightarrow> 'c signature_state \<Rightarrow>
     string + 'c signature_state" where
  "publish_argument view cat diags part i st =
     (let ty = part_argument_type part (i + 1);
          (found, st) = bindingFor view cat diags ty False st;
          label = argument_label part i;
          doc = (case argument_at part i of Some a \<Rightarrow> argument_doc a | None \<Rightarrow> []);
          out = (case argument_at part i of Some a \<Rightarrow> isMutableReference (argument_text a) | None \<Rightarrow> False) in
      and_then (guard (validUtf8 label \<and> validUtf8 doc) ''invalid UTF-8 operation metadata'') (\<lambda>_.
      let st = st\<lparr>sig_arguments := sig_arguments st @ [found],
            sig_inputs_json := sig_inputs_json st @ [JObject [(''name'', JString label),
              (''description'', JString doc), (''rttType'', JString (typeName view ty)),
              (''mode'', JString (if out then ''inout'' else ''in''))]]\<rparr> in
      Inr (if \<not> out then st
           else st\<lparr>sig_outputs := sig_outputs st @ [i],
             sig_outputs_json := sig_outputs_json st @ [JObject [(''argumentIndex'', JUint64 (of_nat i)),
               (''name'', JString label), (''rttType'', JString (typeName view ty))]]\<rparr>)))"

definition publish_arguments ::
  "'c rtt_view \<Rightarrow> 'c type_catalog \<Rightarrow> type_diagnostics \<Rightarrow> part_view \<Rightarrow> string list \<Rightarrow>
     string + 'c signature_state" where
  "publish_arguments view cat diags part referenced =
     each (publish_argument view cat diags part) [0..<part_arity part]
       \<lparr>sig_reason = [], sig_types = referenced, sig_arguments = [], sig_outputs = [],
        sig_inputs_json = [], sig_outputs_json = [], sig_collect_types = [], sig_collect = []\<rparr>"

definition publish_collected ::
  "'c rtt_view \<Rightarrow> 'c type_catalog \<Rightarrow> type_diagnostics \<Rightarrow> part_view \<Rightarrow> bool \<Rightarrow> nat \<Rightarrow> 'c signature_state \<Rightarrow>
     'c signature_state" where
  "publish_collected view cat diags part hasResult i st =
     (let offset = (if hasResult then 1 else 0);
          expectedCollect = length (sig_outputs st) + offset;
          ty = part_collect_type part (i + 1);
          (found, st) = bindingFor view cat diags ty False st;
          st = st\<lparr>sig_collect_types := sig_collect_types st @ [ty], sig_collect := sig_collect st @ [found]\<rparr> in
      if i < expectedCollect \<and>
         (if hasResult \<and> i = 0 then part_argument_type part 0
          else part_argument_type part (sig_outputs st ! (i - offset) + 1)) \<noteq> ty
      then st\<lparr>sig_reason := ''inconsistent RTT operation output metadata''\<rparr> else st)"

text \<open>The result and the collected values, after the arguments.\<close>

definition finish_signature ::
  "'c rtt_view \<Rightarrow> 'c type_catalog \<Rightarrow> type_diagnostics \<Rightarrow> part_view \<Rightarrow> 'c signature_state \<Rightarrow>
     'c signature_state" where
  "finish_signature view cat diags part st =
     (let returnType = part_argument_type part 0;
          hasResult = (typeName view returnType \<noteq> ''Void'');
          (result, st) = bindingFor view cat diags returnType True st;
          expectedCollect = length (sig_outputs st) + (if hasResult then 1 else 0);
          st = (if part_collect_arity part \<noteq> expectedCollect
                then st\<lparr>sig_reason := ''unsupported RTT operation output signature''\<rparr> else st) in
      fold (publish_collected view cat diags part hasResult) [0..<part_collect_arity part] st)"

definition operation_resource ::
  "'c rtt_view \<Rightarrow> 'c type_catalog \<Rightarrow> part_view \<Rightarrow> 'c signature_state \<Rightarrow> 'c resource" where
  "operation_resource view cat part st =
     new_resource\<lparr>res_kind := OperationResource, res_allow := ''POST, OPTIONS'',
       res_supported := (sig_reason st = []),
       res_operation := Some \<lparr>op_part = part_id part, op_arguments = sig_arguments st,
         op_collect_types = sig_collect_types st, op_collect_bindings = sig_collect st,
         op_result = find_binding cat (part_argument_type part 0),
         op_has_result = (typeName view (part_argument_type part 0) \<noteq> ''Void''),
         op_own_thread = part_own_thread part, op_outputs = sig_outputs st\<rparr>\<rparr>"

definition publish_operation ::
  "'c rtt_view \<Rightarrow> 'c type_catalog \<Rightarrow> type_diagnostics \<Rightarrow> string \<Rightarrow>
     string \<times> part_view option \<Rightarrow> 'c category_state \<Rightarrow> string + 'c category_state" where
  "publish_operation view cat diags path entry cs =
     (case (entry, cs) of ((memberName, found_member), (pub, items, referenced)) \<Rightarrow>
        and_then (child_route (path @ ''/operations'') memberName) (\<lambda>href.
        case found_member of
          None \<Rightarrow> Inl ''RTT operation disappeared during publication''
        | Some part \<Rightarrow>
          and_then (summary memberName (part_description part) href) (\<lambda>metadata.
          and_then (publish_arguments view cat diags part referenced) (\<lambda>st.
          let returnType = part_argument_type part 0;
              metadata = AList.update ''result'' (JObject [(''rttType'', JString (typeName view returnType))]) metadata;
              st = finish_signature view cat diags part st;
              metadata = AList.update ''outputs'' (JArray (sig_outputs_json st))
                (AList.update ''arguments'' (JArray (sig_inputs_json st)) metadata);
              (metadata, pub) = noteUnsupported metadata href (sig_reason st) pub;
              r = operation_resource view cat part st in
          and_then (insert_route href r pub) (\<lambda>pub.
          Inr (pub, items @ [JObject metadata], sig_types st))))))"

section \<open>Ports\<close>

definition port_supported :: "'c rtt_view \<Rightarrow> 'c type_catalog \<Rightarrow> port_view \<Rightarrow> bool" where
  "port_supported view cat p =
     (case find_binding cat (port_type p) of
        None \<Rightarrow> False
      | Some b \<Rightarrow> \<not> port_output p \<or>
          (case bound_codec b of None \<Rightarrow> False | Some c \<Rightarrow> supports_port_value view c))"

definition port_resource :: "'c rtt_view \<Rightarrow> 'c type_catalog \<Rightarrow> port_view \<Rightarrow> 'c resource" where
  "port_resource view cat p =
     new_resource\<lparr>res_binding := find_binding cat (port_type p), res_supported := port_supported view cat p,
       res_output := (if port_output p then Some (port_id p) else None), res_bridge := Some (port_id p),
       res_kind := (if port_input p then Samples else Latest),
       res_allow := (if port_input p then ''POST, OPTIONS'' else ''GET, HEAD, OPTIONS'')\<rparr>"

definition publish_port ::
  "'c rtt_view \<Rightarrow> 'c type_catalog \<Rightarrow> type_diagnostics \<Rightarrow> string \<Rightarrow>
     string \<times> port_view option \<Rightarrow> 'c category_state \<Rightarrow> string + 'c category_state" where
  "publish_port view cat diags path entry cs =
     (case (entry, cs) of ((memberName, found_member), (pub, items, referenced)) \<Rightarrow>
        and_then (child_route (path @ ''/ports'') memberName) (\<lambda>base.
        case found_member of
          None \<Rightarrow> Inl ''RTT port disappeared during publication''
        | Some p \<Rightarrow>
          and_then (guard (port_output p \<noteq> port_input p) ''invalid RTT port direction'') (\<lambda>_.
          let out = port_output p;
              inp = port_input p;
              ty = port_type p;
              found = find_binding cat ty;
              ok = port_supported view cat p;
              retains = (out \<and> port_keeps_last p) in
          and_then (summary memberName (port_doc p) base) (\<lambda>metadata.
          let metadata = AList.delete ''href'' metadata;
              metadata = AList.update ''samplesHref'' (if inp then JString (base @ ''/samples'') else JNull)
                (AList.update ''latestHref'' (if retains then JString (base @ ''/latest'') else JNull)
                (AList.update ''retainsLastSample'' (if out then JBool retains else JNull)
                (AList.update ''direction'' (JString (if out then ''output'' else ''input''))
                (AList.update ''rttType'' (JString (typeName view ty)) metadata))));
              (metadata, pub) = noteUnsupported metadata base
                (if ok then [] else if found \<noteq> None then ''HTTP codec has no typed retained sample reader''
                 else unsupported diags (typeName view ty)) pub in
          and_then (guard (port_connects p) ''failed to construct HTTP-owned RTT port connection'') (\<lambda>_.
          let r = port_resource view cat p;
              items = items @ [JObject metadata];
              referenced = insort_insert (typeName view ty) referenced in
          if inp \<or> retains then
            and_then (insert_route (base @ (if inp then ''/samples'' else ''/latest'')) r pub) (\<lambda>pub.
            Inr (pub, items, referenced))
          else Inr (pub\<lparr>pub_observers := pub_observers pub @ [port_id p]\<rparr>, items, referenced))))))"

end
