(* ===== verification/Publication.thy ===== *)
theory Publication
  imports Object_Model
begin

text \<open>
  The walk over a component's services (\<open>ObjectModel::describeService\<close> and \<open>stage\<close>), and the
  published components (\<open>commit\<close>, \<open>resolve\<close>, \<open>contains\<close>, \<open>diagnostics\<close>) of \<open>object_model.cpp\<close>.
  Each of the latter runs under the model's mutex, so it is a function of the map.
\<close>

section \<open>Categories\<close>

text \<open>A service being described: the publication, its description, and the types it refers to.\<close>

type_synonym 'c service_state = "'c publication \<times> json_object \<times> string list"

definition collection ::
  "'c type_catalog \<Rightarrow> type_diagnostics \<Rightarrow> json list \<Rightarrow> string list \<Rightarrow> 'c resource" where
  "collection cat diags items referenced =
     new_resource\<lparr>res_description :=
       JObject [(''items'', JArray items), (''types'', JObject (types_of cat diags referenced))]\<rparr>"

definition finish_category ::
  "'c type_catalog \<Rightarrow> type_diagnostics \<Rightarrow> string \<Rightarrow> string \<Rightarrow> json_object \<Rightarrow> string list \<Rightarrow>
     'c category_state \<Rightarrow> string + 'c service_state" where
  "finish_category cat diags path category description allTypes cs =
     (case cs of (pub, items, referenced) \<Rightarrow>
        and_then (insert_route (path @ ''/'' @ category) (collection cat diags (sortItems items) referenced) pub) (\<lambda>pub.
        Inr (pub, AList.update category (JArray (sortItems items)) description,
          fold insort_insert referenced allTypes)))"

definition publish_category ::
  "'c type_catalog \<Rightarrow> type_diagnostics \<Rightarrow> string \<Rightarrow> string \<Rightarrow>
     ('e \<Rightarrow> 'c category_state \<Rightarrow> string + 'c category_state) \<Rightarrow> 'e list \<Rightarrow>
     'c service_state \<Rightarrow> string + 'c service_state" where
  "publish_category cat diags path category body entries st =
     (case st of (pub, description, allTypes) \<Rightarrow>
        and_then (each body entries (pub, [], [])) (finish_category cat diags path category description allTypes))"

lemma publish_category_cong [fundef_cong]:
  "entries = entries' \<Longrightarrow> st = st' \<Longrightarrow> (\<And>x u. x \<in> set entries' \<Longrightarrow> body x u = body' x u) \<Longrightarrow>
     publish_category cat diags path category body entries st
       = publish_category cat diags path category body' entries' st'"
  by (simp add: publish_category_def cong: each_cong)

section \<open>Services\<close>

definition graph_error :: string where
  "graph_error = ''RTT service graph is missing, cyclic, or too deep''"

text \<open>A provider other than the service itself; \<open>describe\<close> is the recursive call.\<close>

definition publish_child ::
  "'c rtt_view \<Rightarrow> string \<Rightarrow>
     ('c publication \<Rightarrow> nat option \<Rightarrow> string \<Rightarrow> string \<Rightarrow> string + json_object \<times> 'c publication) \<Rightarrow>
     string \<times> nat option \<Rightarrow> 'c category_state \<Rightarrow> string + 'c category_state" where
  "publish_child view path describe entry cs =
     (case (entry, cs) of ((childName, child), (pub, items, referenced)) \<Rightarrow>
        if childName = ''this'' then Inr (pub, items, referenced)
        else
          and_then (child_route (path @ ''/services'') childName) (\<lambda>href.
          and_then (describe pub child childName href) (\<lambda>(_, pub).
          and_then (summary childName (case child of Some c \<Rightarrow> service_doc (services view c) | None \<Rightarrow> []) href)
            (\<lambda>item. Inr (pub, items @ [JObject item], referenced)))))"

lemma publish_child_cong [fundef_cong]:
  assumes "view = view'" "path = path'" "entry = entry'" "cs = cs'"
    and "\<And>pub child n href. describe pub child n href = describe' pub child n href"
  shows "publish_child view path describe entry cs = publish_child view' path' describe' entry' cs'"
proof -
  have "describe = describe'" using assms(5) by (intro ext)
  with assms show ?thesis by simp
qed

text \<open>
  \<open>ancestry\<close> is passed by reference in the source, but every return restores it and an
  exception abandons it, so it is passed by value here.
\<close>

function (sequential) describe_service ::
  "'c rtt_view \<Rightarrow> 'c type_catalog \<Rightarrow> type_diagnostics \<Rightarrow> 'c publication \<Rightarrow> nat option \<Rightarrow> string \<Rightarrow>
     string \<Rightarrow> nat set \<Rightarrow> nat \<Rightarrow> string + json_object \<times> 'c publication" where
  "describe_service view cat diags pub None name path ancestry level = Inl graph_error"
| "describe_service view cat diags pub (Some s) name path ancestry level =
     (if 64 < level \<or> s \<in> ancestry then Inl graph_error
      else
        and_then (summary name (service_doc (services view s)) path) (\<lambda>description.
        and_then (publish_category cat diags path ''services''
          (publish_child view path (\<lambda>pub child childName href.
             describe_service view cat diags pub child childName href (insert s ancestry) (level + 1)))
          (service_providers (services view s)) (pub, description, [])) (\<lambda>st.
        and_then (publish_category cat diags path ''properties'' (publish_member view cat diags path True)
          (service_properties (services view s)) st) (\<lambda>st.
        and_then (publish_category cat diags path ''attributes'' (publish_member view cat diags path False)
          (service_attributes (services view s)) st) (\<lambda>st.
        and_then (publish_category cat diags path ''operations'' (publish_operation view cat diags path)
          (service_operations (services view s)) st) (\<lambda>st.
        and_then (publish_category cat diags path ''ports'' (publish_port view cat diags path)
          (service_ports (services view s)) st) (\<lambda>(pub, description, allTypes).
        let description = AList.update ''types'' (JObject (types_of cat diags allTypes)) description in
        and_then (insert_route path (new_resource\<lparr>res_description := JObject description\<rparr>) pub) (\<lambda>pub.
        Inr (description, pub)))))))))"
  by pat_completeness auto

termination
  by (relation "measure (\<lambda>(view, cat, diags, pub, service, name, path, ancestry, level). 65 - level)") auto

declare describe_service.simps(2) [simp del]

section \<open>Publication of a component\<close>

text \<open>A component: its name and its root service.\<close>

record component_view =
  component_id :: nat
  component_name :: string
  component_service :: nat

definition stage ::
  "'c rtt_view \<Rightarrow> 'c type_catalog \<Rightarrow> type_diagnostics \<Rightarrow> component_view \<Rightarrow> string + 'c publication" where
  "stage view cat diags owner =
     and_then (child_route root (component_name owner)) (\<lambda>path.
     and_then (describe_service view cat diags
        \<lparr>pub_component = component_id owner, pub_summary = [], pub_routes = [], pub_diagnostics = [],
         pub_observers = []\<rparr> (Some (component_service owner)) (component_name owner) path {} 0) (\<lambda>(_, pub).
     and_then (summary (component_name owner) (service_doc (services view (component_service owner))) path) (\<lambda>s.
     Inr (pub\<lparr>pub_summary := s, pub_diagnostics := sort (pub_diagnostics pub)\<rparr>))))"

section \<open>The published components\<close>

text \<open>\<open>publications_\<close>, by component name.\<close>

type_synonym 'c publications = "(string \<times> 'c publication) list"

definition name_taken :: string where
  "name_taken = ''another RTT component instance has this published name''"

text \<open>\<open>commit\<close> with the component's name; the message is \<open>*error\<close>, empty on success.\<close>

definition commit ::
  "string \<Rightarrow> 'c publication \<Rightarrow> 'c publications \<Rightarrow> bool \<times> string \<times> 'c publications" where
  "commit name pub pubs =
     (case map_of pubs name of
        None \<Rightarrow> (True, [], map_emplace name pub pubs)
      | Some existing \<Rightarrow>
          if pub_component existing \<noteq> pub_component pub then (False, name_taken, pubs) else (True, [], pubs))"

fun find_route :: "'c publications \<Rightarrow> string \<Rightarrow> 'c resource option" where
  "find_route [] path = None"
| "find_route ((name, pub) # pubs) path =
     (case map_of (pub_routes pub) path of Some r \<Rightarrow> Some r | None \<Rightarrow> find_route pubs path)"

definition resolve :: "'c publications \<Rightarrow> string \<Rightarrow> 'c resource option" where
  "resolve pubs path =
     (if path = root then
        Some (new_resource\<lparr>res_description :=
          JObject [(''items'', JArray (map (\<lambda>(name, pub). JObject (pub_summary pub)) pubs)),
                   (''types'', JObject [])]\<rparr>)
      else find_route pubs path)"

definition contains :: "'c publications \<Rightarrow> nat \<Rightarrow> bool" where
  "contains pubs owner \<longleftrightarrow> list_ex (\<lambda>(name, pub). pub_component pub = owner) pubs"

definition diagnostics :: "'c publications \<Rightarrow> string \<Rightarrow> string list" where
  "diagnostics pubs name = (case map_of pubs name of None \<Rightarrow> [] | Some pub \<Rightarrow> pub_diagnostics pub)"

end
