(* ===== verification/Publication_Shape.thy ===== *)
theory Publication_Shape
  imports Publication
begin

text \<open>
  What a publication contains: each resource carries what its requests need, the walk is a
  sequence of additions of resources below service paths, and nothing is left out.
\<close>

section \<open>What a published resource carries\<close>

text \<open>A binding with a codec, and a catalog whose bindings all have one.\<close>

definition usable_binding :: "'c type_binding option \<Rightarrow> bool" where
  "usable_binding found = (case found of None \<Rightarrow> False | Some b \<Rightarrow> bound_codec b \<noteq> None)"

definition coded :: "'c type_catalog \<Rightarrow> bool" where
  "coded cat \<longleftrightarrow> list_all (\<lambda>(n, b). bound_codec b \<noteq> None) (catalog_types cat)"

lemma coded_binding:
  assumes "coded cat" "find_binding cat ty = Some b"
  shows "bound_codec b \<noteq> None"
proof -
  from assms(2) obtain n where "map_of (catalog_types cat) n = Some b"
    unfolding find_binding_def find_type_def find_name_def
    by (cases ty) (auto split: option.splits)
  then show ?thesis using assms(1) unfolding coded_def list_all_iff by (fastforce dest: map_of_SomeD)
qed

lemma coded_usable: "coded cat \<Longrightarrow> found = find_binding cat ty \<Longrightarrow> found \<noteq> None \<Longrightarrow> usable_binding found"
  using coded_binding by (fastforce simp: usable_binding_def)

definition operation_ok :: "'c operation \<Rightarrow> bool" where
  "operation_ok opn \<longleftrightarrow> usable_binding (op_result opn)
     \<and> list_all usable_binding (op_arguments opn)
     \<and> list_all (\<lambda>i. i < length (op_arguments opn)) (op_outputs opn) \<and> distinct (op_outputs opn)
     \<and> length (op_collect_types opn) = length (op_collect_bindings opn)
     \<and> list_all (\<lambda>t. t \<noteq> None) (op_collect_types opn)
     \<and> op_collect_bindings opn =
        (if op_has_result opn then [op_result opn] else []) @ map (\<lambda>i. op_arguments opn ! i) (op_outputs opn)"

definition resource_ok :: "'c rtt_view \<Rightarrow> 'c resource \<Rightarrow> bool" where
  "resource_ok view r =
     (case res_kind r of
        Description \<Rightarrow> res_supported r \<and> res_allow r = ''GET, HEAD, OPTIONS''
      | Value \<Rightarrow> res_source r \<noteq> None \<and> (res_supported r \<longrightarrow> usable_binding (res_binding r))
          \<and> (res_allow r = ''GET, HEAD, OPTIONS'' \<or> res_allow r = ''GET, HEAD, PUT, OPTIONS'')
      | OperationResource \<Rightarrow> res_allow r = ''POST, OPTIONS''
          \<and> (case res_operation r of None \<Rightarrow> False | Some opn \<Rightarrow> res_supported r \<longrightarrow> operation_ok opn)
      | Latest \<Rightarrow> res_allow r = ''GET, HEAD, OPTIONS'' \<and> res_output r \<noteq> None \<and> res_bridge r \<noteq> None
          \<and> (res_supported r \<longrightarrow> (case res_binding r of None \<Rightarrow> False
               | Some b \<Rightarrow> (case bound_codec b of None \<Rightarrow> False | Some c \<Rightarrow> supports_port_value view c)))
      | Samples \<Rightarrow> res_allow r = ''POST, OPTIONS'' \<and> res_bridge r \<noteq> None
          \<and> (res_supported r \<longrightarrow> usable_binding (res_binding r)))"

text \<open>A step that adds one route, if any, below a category.\<close>

definition adds :: "'c publication \<Rightarrow> string \<Rightarrow> 'c resource \<Rightarrow> 'c publication \<Rightarrow> bool" where
  "adds pub path r pub' \<longleftrightarrow> map_of (pub_routes pub) path = None
     \<and> pub_routes pub' = map_emplace path r (pub_routes pub) \<and> pub_component pub' = pub_component pub"

lemma insert_route_adds: "insert_route path r pub = Inr pub' \<Longrightarrow> adds pub path r pub'"
  by (auto simp: insert_route_def adds_def split: if_splits)

lemma noteUnsupported_routes: "pub_routes (snd (noteUnsupported metadata href reason pub)) = pub_routes pub"
  by (simp add: noteUnsupported_def)

lemma adds_routes: "pub_routes pub1 = pub_routes pub \<Longrightarrow> pub_component pub1 = pub_component pub \<Longrightarrow> adds pub1 path r pub' \<longleftrightarrow> adds pub path r pub'"
  by (simp add: adds_def)

definition category_of :: "bool \<Rightarrow> string" where
  "category_of is_property = (if is_property then ''properties'' else ''attributes'')"


lemma value_resource_ok: "coded cat \<Longrightarrow> resource_ok view (value_resource view cat src)"
  by (auto simp: resource_ok_def value_resource_def new_resource_def intro: coded_usable)


lemma publish_member_adds:
  assumes "publish_member view cat diags path is_property (name, m) (pub, items, refs) = Inr (pub', items', refs')"
  shows "\<exists>href src. child_route (path @ CHR ''/'' # category_of is_property) name = Inr href
    \<and> Option.bind m member_source = Some src \<and> adds pub href (value_resource view cat src) pub'"
proof (cases m)
  case (Some v)
  with assms show ?thesis
    by (cases "member_source v")
      (auto simp: publish_member_def and_then_Inr Let_def category_of_def noteUnsupported_def adds_def
        dest!: insert_route_adds split: if_splits)
qed (use assms in \<open>simp add: publish_member_def and_then_Inr\<close>)

lemma port_resource_ok:
  "coded cat \<Longrightarrow> port_output p \<noteq> port_input p \<Longrightarrow> resource_ok view (port_resource view cat p)"
  using coded_binding [of cat "port_type p"]
  by (auto simp: resource_ok_def port_resource_def new_resource_def port_supported_def usable_binding_def
      split: option.splits)

lemma publish_port_adds:
  assumes "publish_port view cat diags path (name, m) (pub, items, refs) = Inr (pub', items', refs')"
  shows "\<exists>base p. child_route (path @ ''/ports'') name = Inr base \<and> m = Some p \<and> port_output p \<noteq> port_input p
    \<and> (if port_input p then adds pub (base @ ''/samples'') (port_resource view cat p) pub'
       else if port_keeps_last p then adds pub (base @ ''/latest'') (port_resource view cat p) pub'
       else pub_routes pub' = pub_routes pub \<and> pub_component pub' = pub_component pub)"
proof (cases m)
  case (Some p)
  with assms show ?thesis
    by (auto simp: publish_port_def and_then_Inr guard_Inr Let_def noteUnsupported_def adds_def
      dest!: insert_route_adds split: if_splits)
qed (use assms in \<open>simp add: publish_port_def and_then_Inr\<close>)

lemma each_upt:
  assumes "each f [m..<n] s = Inr t" "P m s" "m \<le> n"
    and "\<And>i s t. m \<le> i \<Longrightarrow> i < n \<Longrightarrow> P i s \<Longrightarrow> f i s = Inr t \<Longrightarrow> P (Suc i) t"
  shows "P n t"
  using assms
proof (induction "n - m" arbitrary: m s)
  case (Suc k)
  then have "m < n" by simp
  then have up: "[m..<n] = m # [Suc m..<n]" by (simp add: upt_conv_Cons)
  with Suc(3) obtain s1 where s1: "f m s = Inr s1" "each f [Suc m..<n] s1 = Inr t"
    by (auto simp: and_then_Inr)
  have "P (Suc m) s1" using Suc(4,6) s1(1) \<open>m < n\<close> by blast
  with Suc(1) [of "Suc m" s1] s1(2) Suc(2,6) \<open>m < n\<close> show ?case by simp
qed simp

lemma fold_upt:
  assumes "P m s" "m \<le> n" "\<And>i s. m \<le> i \<Longrightarrow> i < n \<Longrightarrow> P i s \<Longrightarrow> P (Suc i) (f i s)"
  shows "P n (fold f [m..<n] s)"
proof -
  have "each (\<lambda>i s. Inr (f i s)) xs s = Inr (fold f xs s)" for xs s
    by (induction xs arbitrary: s) (simp_all add: and_then_def)
  then show ?thesis by (rule each_upt) (use assms in auto)
qed

definition argument_binding :: "'c type_catalog \<Rightarrow> part_view \<Rightarrow> nat \<Rightarrow> 'c type_binding option" where
  "argument_binding cat part i = find_binding cat (part_argument_type part (i + 1))"

definition arguments_ok :: "'c type_catalog \<Rightarrow> part_view \<Rightarrow> nat \<Rightarrow> 'c signature_state \<Rightarrow> bool" where
  "arguments_ok cat part i st \<longleftrightarrow>
     sig_arguments st = map (argument_binding cat part) [0..<i]
     \<and> (sig_reason st = [] \<longrightarrow> list_all (\<lambda>b. b \<noteq> None) (sig_arguments st))
     \<and> list_all (\<lambda>k. k < i) (sig_outputs st) \<and> distinct (sig_outputs st)"

lemma bindingFor_eq: "bindingFor view cat diags ty allowVoid st = (found, st') \<Longrightarrow>
   list_all (\<lambda>(n, r). r \<noteq> []) diags \<Longrightarrow>
    found = find_binding cat ty \<and> (sig_reason st' = [] \<longrightarrow> sig_reason st = [] \<and> found \<noteq> None)
   \<and> sig_arguments st' = sig_arguments st \<and> sig_outputs st' = sig_outputs st
  \<and> sig_collect_types st' = sig_collect_types st \<and> sig_collect st' = sig_collect st"
  by (auto simp: bindingFor_def Let_def unsupported_def no_codec_def list_all_iff split: if_splits option.splits dest!: map_of_SomeD)

lemma publish_argument_ok:
  assumes diags: "list_all (\<lambda>(n, r). r \<noteq> []) diags"
  assumes "arguments_ok cat part i st" "publish_argument view cat diags part i st = Inr st'"
  shows "arguments_ok cat part (Suc i) st' \<and> sig_collect st' = sig_collect st \<and> sig_collect_types st' = sig_collect_types st"
proof -
  obtain found st1 where b: "bindingFor view cat diags (part_argument_type part (Suc i)) False st = (found, st1)"
    by fastforce
  show ?thesis
    using assms(2,3) bindingFor_eq [OF b diags]
    by (auto simp: publish_argument_def b and_then_Inr Let_def arguments_ok_def argument_binding_def list_all_iff
       intro: less_SucI split: if_splits prod.splits)
qed

lemma publish_arguments_ok:
  assumes diags: "list_all (\<lambda>(n, r). r \<noteq> []) diags"
  assumes "publish_arguments view cat diags part refs = Inr st"
  shows "arguments_ok cat part (part_arity part) st \<and> sig_collect st = [] \<and> sig_collect_types st = []"
proof -
  let ?P = "\<lambda>i st. arguments_ok cat part i st \<and> sig_collect st = [] \<and> sig_collect_types st = []"
  show ?thesis
    using assms(2) unfolding publish_arguments_def
  proof (rule each_upt [where P = ?P])
    fix i s t assume "?P i s" "publish_argument view cat diags part i s = Inr t"
    then show "?P (Suc i) t" using publish_argument_ok [OF diags, of cat part i s view t] by simp
  qed (simp_all add: arguments_ok_def)
qed

definition expected_types :: "'c rtt_view \<Rightarrow> part_view \<Rightarrow> nat list \<Rightarrow> nat option list" where
  "expected_types view part outs =
     (if typeName view (part_argument_type part 0) \<noteq> ''Void'' then [part_argument_type part 0] else [])
       @ map (\<lambda>k. part_argument_type part (k + 1)) outs"

definition collect_ok :: "'c rtt_view \<Rightarrow> 'c type_catalog \<Rightarrow> part_view \<Rightarrow> 'c signature_state \<Rightarrow> nat \<Rightarrow> 'c signature_state \<Rightarrow> bool" where
  "collect_ok view cat part st0 i st \<longleftrightarrow>
     sig_arguments st = sig_arguments st0 \<and> sig_outputs st = sig_outputs st0
     \<and> sig_collect_types st = map (\<lambda>k. part_collect_type part (k + 1)) [0..<i]
     \<and> sig_collect st = map (\<lambda>k. find_binding cat (part_collect_type part (k + 1))) [0..<i]
     \<and> (sig_reason st = [] \<longrightarrow> sig_reason st0 = [] \<and>
         (\<forall>k < i. k < length (expected_types view part (sig_outputs st0)) \<longrightarrow>
            part_collect_type part (k + 1) = expected_types view part (sig_outputs st0) ! k))"

lemma expected_types_nth:
  "i < length (expected_types view part outs) \<and> expected_types view part outs ! i \<noteq> ty \<longleftrightarrow>
     i < length outs + (if typeName view (part_argument_type part 0) \<noteq> ''Void'' then 1 else 0) \<and>
     (if typeName view (part_argument_type part 0) \<noteq> ''Void'' \<and> i = 0 then part_argument_type part 0
      else part_argument_type part (outs ! (i - (if typeName view (part_argument_type part 0) \<noteq> ''Void'' then 1 else 0)) + 1)) \<noteq> ty"
  by (cases i) (auto simp: expected_types_def)

lemma publish_collected_eq:
  assumes "hasResult = (typeName view (part_argument_type part 0) \<noteq> ''Void'')"
    and "bindingFor view cat diags (part_collect_type part (Suc i)) False st = (found, st1)"
  shows "publish_collected view cat diags part hasResult i st =
    (let E = expected_types view part (sig_outputs st1);
         st2 = st1\<lparr>sig_collect_types := sig_collect_types st1 @ [part_collect_type part (Suc i)],
           sig_collect := sig_collect st1 @ [found]\<rparr> in
     if i < length E \<and> E ! i \<noteq> part_collect_type part (Suc i)
     then st2\<lparr>sig_reason := ''inconsistent RTT operation output metadata''\<rparr> else st2)"
proof -
  have "sig_outputs st1 = sig_outputs st"
    using assms(2) by (auto simp: bindingFor_def Let_def split: if_splits)
  then show ?thesis
    using assms expected_types_nth [of i view part "sig_outputs st" "part_collect_type part (Suc i)"]
    by (auto simp: publish_collected_def Let_def)
qed

lemma publish_collected_ok:
  assumes diags: "list_all (\<lambda>(n, r). r \<noteq> []) diags"
  assumes "collect_ok view cat part st0 i st" "hasResult = (typeName view (part_argument_type part 0) \<noteq> ''Void'')"
  shows "collect_ok view cat part st0 (Suc i) (publish_collected view cat diags part hasResult i st)"
proof -
  obtain found st1 where b: "bindingFor view cat diags (part_collect_type part (Suc i)) False st = (found, st1)"
    by fastforce
  show ?thesis
    using assms(2) bindingFor_eq [OF b diags] unfolding publish_collected_eq [OF assms(3) b]
    by (auto simp: Let_def collect_ok_def less_Suc_eq)
qed

lemma finish_signature_ok:
  assumes coded: "coded cat" and diags: "list_all (\<lambda>(n, r). r \<noteq> []) diags"
    and args: "arguments_ok cat part (part_arity part) st" "sig_collect st = []" "sig_collect_types st = []"
  shows "resource_ok view (operation_resource view cat part (finish_signature view cat diags part st))"
proof -
  let ?has = "typeName view (part_argument_type part 0) \<noteq> ''Void''"
  let ?n = "part_collect_arity part"
  obtain result st1 where b: "bindingFor view cat diags (part_argument_type part 0) True st = (result, st1)"
    by fastforce
  note eqs = bindingFor_eq [OF b diags]
  define st2 where "st2 = (if ?n \<noteq> length (sig_outputs st1) + (if ?has then 1 else 0)
    then st1\<lparr>sig_reason := ''unsupported RTT operation output signature''\<rparr> else st1)"
  have 2: "sig_arguments st2 = sig_arguments st" "sig_outputs st2 = sig_outputs st"
    "sig_collect st2 = []" "sig_collect_types st2 = []"
    "sig_reason st2 = [] \<Longrightarrow> sig_reason st = [] \<and> result \<noteq> None \<and> ?n = length (sig_outputs st) + (if ?has then 1 else 0)"
    using eqs args by (auto simp: st2_def split: if_splits)
  define st3 where "st3 = fold (publish_collected view cat diags part ?has) [0..<?n] st2"
  have fin: "finish_signature view cat diags part st = st3"
    by (simp add: finish_signature_def b st2_def st3_def Let_def)
  have 3: "collect_ok view cat part st2 ?n st3"
    unfolding st3_def
  proof (rule fold_upt [where P = "collect_ok view cat part st2"])
    show "collect_ok view cat part st2 0 st2" using 2 by (simp add: collect_ok_def)
  qed (simp_all add: publish_collected_ok [OF diags])
  have "operation_ok \<lparr>op_part = part_id part, op_arguments = sig_arguments st3,
         op_collect_types = sig_collect_types st3, op_collect_bindings = sig_collect st3,
         op_result = find_binding cat (part_argument_type part 0), op_has_result = ?has,
         op_own_thread = part_own_thread part, op_outputs = sig_outputs st3\<rparr>" if r: "sig_reason st3 = []"
  proof -
    let ?expected = "expected_types view part (sig_outputs st2)"
    have r2: "sig_reason st2 = []"
      and same: "\<And>k. k < ?n \<Longrightarrow> k < length ?expected \<Longrightarrow> part_collect_type part (k + 1) = ?expected ! k"
      using 3 r by (auto simp: collect_ok_def Let_def)
    note r1 = 2(5) [OF r2]
    have "map (\<lambda>k. part_collect_type part (k + 1)) [0..<?n] = ?expected"
      by (rule nth_equalityI) (use 2 r1 same in \<open>auto simp: expected_types_def\<close>)
    moreover have "sig_collect st3 = map (find_binding cat) (map (\<lambda>k. part_collect_type part (k + 1)) [0..<?n])"
      using 3 by (simp add: collect_ok_def)
    ultimately have c: "sig_collect st3 = map (find_binding cat) ?expected"
      and types: "sig_collect_types st3 = ?expected" using 3 by (simp_all add: collect_ok_def)
    have outs: "sig_outputs st3 = sig_outputs st2" using 3 by (simp add: collect_ok_def)
    have "find_binding cat (part_argument_type part (k + 1)) = sig_arguments st3 ! k"
      if "k \<in> set (sig_outputs st2)" for k
      using that 3 2 args by (simp add: collect_ok_def arguments_ok_def list_all_iff argument_binding_def)
    then have "map (\<lambda>k. find_binding cat (part_argument_type part (k + 1))) (sig_outputs st2) =
        map (\<lambda>i. sig_arguments st3 ! i) (sig_outputs st2)"
      by (rule map_cong [OF refl])
    then have "sig_collect st3 = (if ?has then [find_binding cat (part_argument_type part 0)] else [])
        @ map (\<lambda>i. sig_arguments st3 ! i) (sig_outputs st3)"
      unfolding c outs expected_types_def by (simp add: comp_def)
    moreover have "usable_binding (find_binding cat (part_argument_type part 0))"
      using r1 eqs by (intro coded_usable [OF coded refl]) simp
    moreover have args3: "sig_arguments st3 = sig_arguments st" using 3 2(1) by (simp add: collect_ok_def)
    then have "list_all (\<lambda>b. b \<noteq> None) (sig_arguments st3)"
      using r1 args(1) unfolding arguments_ok_def by (metis (no_types))
    then have "list_all usable_binding (sig_arguments st3)"
      using args(1) unfolding args3 arguments_ok_def argument_binding_def
      by (auto simp: list_all_iff intro: coded_usable [OF coded])
    moreover have "list_all (\<lambda>i. i < length (sig_arguments st3)) (sig_outputs st3)" "distinct (sig_outputs st3)"
      "length (sig_collect_types st3) = length (sig_collect st3)"
      using 3 2 args by (simp_all add: collect_ok_def arguments_ok_def)
    moreover have "list_all (\<lambda>t. t \<noteq> None) (sig_collect_types st3)"
    proof -
      have some: "ty \<noteq> None" if "find_binding cat ty \<noteq> None" for ty
        using that by (cases ty) (simp_all add: find_binding_def)
      have "part_argument_type part 0 \<noteq> None" using r1 eqs by (intro some) simp
      moreover have "part_argument_type part (k + 1) \<noteq> None" if "k \<in> set (sig_outputs st2)" for k
        using that 2 r1 args(1) by (intro some) (auto simp: arguments_ok_def argument_binding_def list_all_iff)
      ultimately show ?thesis unfolding types expected_types_def list_all_iff by auto
    qed
    ultimately show ?thesis by (simp add: operation_ok_def)
  qed
  then show ?thesis by (auto simp: fin resource_ok_def operation_resource_def new_resource_def)
qed

lemma publish_operation_adds:
  assumes "publish_operation view cat diags path (name, m) (pub, items, refs) = Inr (pub', items', refs')"
  shows "\<exists>href part st. child_route (path @ ''/operations'') name = Inr href \<and> m = Some part
    \<and> publish_arguments view cat diags part refs = Inr st
    \<and> adds pub href (operation_resource view cat part (finish_signature view cat diags part st)) pub'"
proof (cases m)
  case (Some part)
  with assms show ?thesis
    by (auto simp: publish_operation_def and_then_Inr guard_Inr Let_def noteUnsupported_def adds_def 
      dest!: insert_route_adds split: if_splits)
qed (use assms in \<open>simp add: publish_operation_def and_then_Inr\<close>)

section \<open>The walk as a sequence of additions\<close>

inductive service_place :: "string \<Rightarrow> string \<Rightarrow> bool" where
  place_here: "service_place path path"
| place_child: "service_place path p \<Longrightarrow> child_route (p @ ''/services'') n = Inr h \<Longrightarrow> service_place path h"

lemma service_place_below:
  "service_place h p \<Longrightarrow> child_route (path @ ''/services'') n = Inr h \<Longrightarrow> service_place path p"
  by (induction rule: service_place.induct) (blast intro: service_place.intros)+

definition categories :: "string list" where
  "categories = [''services'', ''properties'', ''attributes'', ''operations'', ''ports'']"

inductive belongs ::
  "'c rtt_view \<Rightarrow> 'c type_catalog \<Rightarrow> type_diagnostics \<Rightarrow> string \<Rightarrow> string \<Rightarrow> 'c resource \<Rightarrow> bool"
  for view cat diags path where
  itself: "belongs view cat diags path path (new_resource\<lparr>res_description := JObject d\<rparr>)"
| listing: "category \<in> set categories \<Longrightarrow>
    belongs view cat diags path (path @ CHR ''/'' # category) (collection cat diags items refs)"
| member_value: "child_route (path @ CHR ''/'' # category_of b) n = Inr p \<Longrightarrow>
    belongs view cat diags path p (value_resource view cat src)"
| operation_call: "child_route (path @ ''/operations'') n = Inr p \<Longrightarrow>
    publish_arguments view cat diags part refs = Inr st \<Longrightarrow>
    belongs view cat diags path p (operation_resource view cat part (finish_signature view cat diags part st))"
| port_samples: "child_route (path @ ''/ports'') n = Inr p \<Longrightarrow> port_input q \<Longrightarrow> \<not> port_output q \<Longrightarrow>
    belongs view cat diags path (p @ ''/samples'') (port_resource view cat q)"
| port_latest: "child_route (path @ ''/ports'') n = Inr p \<Longrightarrow> \<not> port_input q \<Longrightarrow> port_output q \<Longrightarrow>
    belongs view cat diags path (p @ ''/latest'') (port_resource view cat q)"

definition publish_step ::
  "'c rtt_view \<Rightarrow> 'c type_catalog \<Rightarrow> type_diagnostics \<Rightarrow> string \<Rightarrow> 'c publication \<Rightarrow> 'c publication \<Rightarrow> bool" where
  "publish_step view cat diags path pub pub' \<longleftrightarrow> pub_routes pub' = pub_routes pub \<and> pub_component pub' = pub_component pub
     \<or> (\<exists>sp p r. service_place path sp \<and> belongs view cat diags sp p r \<and> adds pub p r pub')"

abbreviation publish_steps where
  "publish_steps view cat diags path \<equiv> (publish_step view cat diags path)\<^sup>*\<^sup>*"

lemma publish_step_here:
  "belongs view cat diags path p r \<Longrightarrow> adds pub p r pub' \<Longrightarrow> publish_step view cat diags path pub pub'"
  unfolding publish_step_def by (blast intro: place_here)

lemma steps_below:
  assumes "publish_steps view cat diags h pub pub'" "child_route (path @ ''/services'') n = Inr h"
  shows "publish_steps view cat diags path pub pub'"
  using assms(1)
proof (rule rtranclp_mono [THEN predicate2D, rotated])
  show "publish_step view cat diags h \<le> publish_step view cat diags path"
    using assms(2) service_place_below unfolding publish_step_def by blast
qed

lemma member_step:
  assumes "publish_member view cat diags path b e cs = Inr cs'"
  shows "publish_step view cat diags path (fst cs) (fst cs')"
proof -
  obtain name m pub items refs pub' items' refs' where
    "e = (name, m)" "cs = (pub, items, refs)" "cs' = (pub', items', refs')" by (metis surj_pair)
  with assms publish_member_adds [of view cat diags path b name m pub items refs pub' items' refs'] show ?thesis
    by (auto intro: publish_step_here [OF member_value])
qed

lemma operation_step:
  assumes "publish_operation view cat diags path e cs = Inr cs'"
  shows "publish_step view cat diags path (fst cs) (fst cs')"
proof -
  obtain name m pub items refs pub' items' refs' where
    "e = (name, m)" "cs = (pub, items, refs)" "cs' = (pub', items', refs')" by (metis surj_pair)
  with assms publish_operation_adds [of view cat diags path name m pub items refs pub' items' refs'] show ?thesis
    by (auto intro: publish_step_here [OF operation_call])
qed

lemma port_step:
  assumes "publish_port view cat diags path e cs = Inr cs'"
  shows "publish_step view cat diags path (fst cs) (fst cs')"
proof -
  obtain name m pub items refs pub' items' refs' where
    e: "e = (name, m)" "cs = (pub, items, refs)" "cs' = (pub', items', refs')" by (metis surj_pair)
  obtain base p where p: "child_route (path @ ''/ports'') name = Inr base" "port_output p \<noteq> port_input p"
    "if port_input p then adds pub (base @ ''/samples'') (port_resource view cat p) pub'
       else if port_keeps_last p then adds pub (base @ ''/latest'') (port_resource view cat p) pub'
       else pub_routes pub' = pub_routes pub \<and> pub_component pub' = pub_component pub"
    using assms publish_port_adds [of view cat diags path name m pub items refs pub' items' refs'] unfolding e by blast
  then consider "port_input p" "\<not> port_output p" "adds pub (base @ ''/samples'') (port_resource view cat p) pub'"
    | "\<not> port_input p" "port_output p" "adds pub (base @ ''/latest'') (port_resource view cat p) pub'"
    | "pub_routes pub' = pub_routes pub" "pub_component pub' = pub_component pub"
    by (auto split: if_splits)
  then show ?thesis
  proof cases
    case 1
    with publish_step_here [OF port_samples [OF p(1)]] show ?thesis by (simp add: e)
  next
    case 2
    with publish_step_here [OF port_latest [OF p(1)]] show ?thesis by (simp add: e)
  qed (simp add: e publish_step_def)
qed

lemma category_steps:
  assumes "publish_category cat diags path category body entries st = Inr st'"
    and "category \<in> set categories"
    and body: "\<And>e cs cs'. e \<in> set entries \<Longrightarrow> body e cs = Inr cs' \<Longrightarrow> publish_steps view cat diags path (fst cs) (fst cs')"
  shows "publish_steps view cat diags path (fst st) (fst st')"
proof -
  obtain pub d ts where st: "st = (pub, d, ts)" by (metis surj_pair)
  obtain cs where cs: "each body entries (pub, [], []) = Inr cs"
    "finish_category cat diags path category d ts cs = Inr st'"
    using assms(1) by (auto simp: publish_category_def st and_then_Inr)
  have "publish_steps view cat diags path pub (fst cs)"
    by (rule each_keeps [where P = "\<lambda>cs. publish_steps view cat diags path pub (fst cs)", OF cs(1)])
      (auto dest: body)
  moreover have "publish_step view cat diags path (fst cs) (fst st')"
    using cs(2) assms(2) by (auto simp: finish_category_def and_then_Inr split: prod.splits
       intro!: publish_step_here [OF listing] dest!: insert_route_adds)
  ultimately show ?thesis by (simp add: st)
qed


lemma describe_serviceE:
  assumes "describe_service view cat diags pub service name path ancestry level = Inr (d, pub')"
  obtains s d0 st1 st2 st3 st4 pub5 ts where "service = Some s" "level \<le> 64" "s \<notin> ancestry"
    "summary name (service_doc (services view s)) path = Inr d0"
    "publish_category cat diags path ''services''
          (publish_child view path (\<lambda>pub child childName href.
             describe_service view cat diags pub child childName href (insert s ancestry) (level + 1)))
          (service_providers (services view s)) (pub, d0, []) = Inr st1"
    "publish_category cat diags path ''properties'' (publish_member view cat diags path True)
          (service_properties (services view s)) st1 = Inr st2"
    "publish_category cat diags path ''attributes'' (publish_member view cat diags path False)
          (service_attributes (services view s)) st2 = Inr st3"
    "publish_category cat diags path ''operations'' (publish_operation view cat diags path)
          (service_operations (services view s)) st3 = Inr st4"
    "publish_category cat diags path ''ports'' (publish_port view cat diags path)
          (service_ports (services view s)) st4 = Inr (pub5, ts)"
    "insert_route path (new_resource\<lparr>res_description := JObject d\<rparr>) pub5 = Inr pub'"
  using assms
  by (cases service) (auto simp: describe_service.simps(2) and_then_Inr Let_def split: if_splits prod.splits)

theorem describe_steps:
  "describe_service view cat diags pub service name path ancestry level = Inr (d, pub') \<Longrightarrow>
     publish_steps view cat diags path pub pub'"
proof (induction view cat diags pub service name path ancestry level arbitrary: d pub' rule: describe_service.induct)
  case (2 view cat diags pub s name path ancestry level)
  note IH = 2(1)
  from 2(2) show ?case
  proof (cases rule: describe_serviceE)
    case (1 s0 d0 st1 st2 st3 st4 pub5 ts)
    have child: "publish_steps view cat diags path (fst cs) (fst cs')"
      if run: "publish_child view path (\<lambda>pub child childName href.
             describe_service view cat diags pub child childName href (insert s ancestry) (level + 1)) e cs = Inr cs'"
        and mem: "e \<in> set (service_providers (services view s0))" for e cs cs'
    proof -
      obtain n c pub1 items refs where e: "e = (n, c)" "cs = (pub1, items, refs)" by (metis surj_pair)
      consider "cs' = cs" | h d1 pub2 items2 where "child_route (path @ ''/services'') n = Inr h"
          "describe_service view cat diags pub1 c n h (insert s ancestry) (level + 1) = Inr (d1, pub2)"
          "cs' = (pub2, items2, refs)"
        using run by (auto simp: publish_child_def e and_then_Inr split: if_splits)
      then show ?thesis
      proof cases
        case (2 h)
        have "publish_steps view cat diags h pub1 pub2"
          using 1(1-4) mem by (intro IH [OF _ _ _ 2(2)]) auto
        with steps_below [OF _ 2(1)] show ?thesis by (simp add: e 2(3))
      qed simp
    qed
    note cat = category_steps [of cat diags path, where view = view]
    have "publish_steps view cat diags path pub (fst st1)"
      using cat [OF 1(5)] child 1(1) by (simp add: categories_def)
    also have "publish_steps view cat diags path (fst st1) (fst st2)"
      by (rule cat [OF 1(6)]) (auto simp: categories_def dest: member_step)
    also have "publish_steps view cat diags path (fst st2) (fst st3)"
      by (rule cat [OF 1(7)]) (auto simp: categories_def dest: member_step)
    also have "publish_steps view cat diags path (fst st3) (fst st4)"
      by (rule cat [OF 1(8)]) (auto simp: categories_def dest: operation_step)
    also have "publish_steps view cat diags path (fst st4) pub5"
      using cat [OF 1(9)] by (auto simp: categories_def dest: port_step)
    also have "publish_step view cat diags path pub5 pub'"
      by (rule publish_step_here [OF itself insert_route_adds [OF 1(10)]])
    finally show ?thesis .
  qed
qed simp


end
