(* ===== verification/Publication_Routes.thy ===== *)
theory Publication_Routes
  imports Publication_Shape
begin

text \<open>
  Routes of a publication and the map of publications: every route is canonical and below its
  component, resources are usable, no member of any mounted service is left out, and a path
  resolves to at most one resource.
\<close>

section \<open>Routes\<close>

lemma child_routeD:
  "child_route p n = Inr h \<Longrightarrow> h = p @ route [n] \<and> validName n \<and> length h \<le> 4096"
  by (auto simp: child_route_def childPath_def Let_def split: if_splits option.splits)

lemma root_route: "root = route [''api'', ''v1'', ''components'']"
  by code_simp

lemma route_append: "route (ns @ ms) = route ns @ route ms"
  by (simp add: join_path_def)

lemma category_names:
  "list_all validName categories" "validName ''samples''" "validName ''latest''"
  "validName ''operations''" "validName ''ports''" "validName ''services''"
  by code_simp+

lemma category_routes:
  "list_all (\<lambda>c. route [c] = CHR ''/'' # c) categories" "route [''samples''] = ''/samples''"
  "route [''latest''] = ''/latest''"
  by code_simp+

lemma category_of_in: "category_of b \<in> set categories"
  by (simp add: categories_def category_of_def)

definition below :: "string \<Rightarrow> string \<Rightarrow> bool" where
  "below path p \<longleftrightarrow> (\<exists>names. list_all validName names \<and> p = path @ route names)"

lemma below_refl: "below path path"
  unfolding below_def by (rule exI [of _ "[]"]) simp

lemma below_trans: "below a b \<Longrightarrow> below b c \<Longrightarrow> below a c"
  unfolding below_def by (metis append_assoc list_all_append route_append)

lemma below_one: "validName n \<Longrightarrow> below path (path @ route [n])"
  unfolding below_def by (rule exI [of _ "[n]"]) simp

lemma child_route_below: "child_route p n = Inr h \<Longrightarrow> below p h"
  using child_routeD below_one by metis

lemma child_below:
  assumes "child_route (path @ CHR ''/'' # c) n = Inr h" "c \<in> set categories"
  shows "below path h \<and> length h \<le> 4096"
proof -
  have "below path (path @ CHR ''/'' # c)"
    using assms(2) category_names(1) category_routes(1) below_one [of c path] by (auto simp: list_all_iff)
  with child_route_below [OF assms(1)] child_routeD [OF assms(1)] show ?thesis by (blast intro: below_trans)
qed

lemma service_place_path:
  "service_place path sp \<Longrightarrow> length path \<le> 4096 \<Longrightarrow> below path sp \<and> length sp \<le> 4096"
proof (induction rule: service_place.induct)
  case (place_child path p n h)
  then show ?case using child_below [of p "''services''" n h] by (auto simp: categories_def intro: below_trans)
qed (simp add: below_refl)

lemma belongs_path:
  assumes "belongs view cat diags sp p r" "length sp \<le> 4096"
  shows "below sp p \<and> length p \<le> 8192"
  using assms
proof (cases rule: belongs.cases)
  case (listing category d refs)
  then show ?thesis
    using assms(2) category_names(1) category_routes(1) below_one [of category sp]
    by (auto simp: list_all_iff categories_def)
next
  case (member_value b n src)
  then show ?thesis using child_below [OF _ category_of_in, of sp b n p] by simp
next
  case (operation_call n part refs st)
  then show ?thesis using child_below [of sp "''operations''" n p] by (auto simp: categories_def)
next
  case (port_samples n q qq)
  then show ?thesis
    using child_below [of sp "''ports''" n q] below_one [of "''samples''" q] category_names(2) category_routes(2)
    by (auto simp: categories_def intro: below_trans)
next
  case (port_latest n q qq)
  then show ?thesis
    using child_below [of sp "''ports''" n q] below_one [of "''latest''" q] category_names(3) category_routes(3)
    by (auto simp: categories_def intro: below_trans)
qed (simp add: below_refl)

section \<open>Invariants of the walk\<close>

definition placed ::
  "'c rtt_view \<Rightarrow> 'c type_catalog \<Rightarrow> type_diagnostics \<Rightarrow> string \<Rightarrow> (string \<times> 'c resource) list \<Rightarrow> bool" where
  "placed view cat diags path routes \<longleftrightarrow> ordered routes
     \<and> (\<forall>p r. (p, r) \<in> set routes \<longrightarrow> (\<exists>sp. service_place path sp \<and> belongs view cat diags sp p r))"

text \<open>Routes are only added.\<close>

definition grows :: "'c publication \<Rightarrow> 'c publication \<Rightarrow> bool" where
  "grows pub pub' \<longleftrightarrow> (ordered (pub_routes pub) \<longrightarrow>
     ordered (pub_routes pub') \<and> map_of (pub_routes pub) \<subseteq>\<^sub>m map_of (pub_routes pub'))"

lemma grows_refl: "grows pub pub"
  by (simp add: grows_def)

lemma grows_trans: "grows a b \<Longrightarrow> grows b c \<Longrightarrow> grows a c"
  unfolding grows_def by (blast intro: map_le_trans)

lemma adds_grows: "adds pub p r pub' \<Longrightarrow> grows pub pub'"
  by (auto simp: adds_def grows_def map_le_def)

lemma publish_steps_grow: "publish_steps view cat diags path pub pub' \<Longrightarrow> grows pub pub'"
proof (induction rule: rtranclp_induct)
  case (step y z)
  then have "grows y z" unfolding publish_step_def by (auto simp: grows_def dest: adds_grows)
  with step(3) show ?case by (rule grows_trans)
qed (rule grows_refl)

lemma publish_steps_placed:
  "publish_steps view cat diags path pub pub' \<Longrightarrow> placed view cat diags path (pub_routes pub) \<Longrightarrow>
     placed view cat diags path (pub_routes pub')"
proof (induction rule: rtranclp_induct)
  case (step y z)
  from step(2) show ?case unfolding publish_step_def
  proof (elim disjE exE conjE)
    fix sp p r assume "service_place path sp" "belongs view cat diags sp p r" "adds y p r z"
    then show ?thesis using step(3,4)
      by (auto simp: adds_def placed_def dest!: set_emplace)
  qed (use step in simp)
qed simp

lemma stageE:
  assumes "stage view cat diags owner = Inr pub"
  obtains path pub0 d where "child_route root (component_name owner) = Inr path"
    "describe_service view cat diags
        \<lparr>pub_component = component_id owner, pub_summary = [], pub_routes = [], pub_diagnostics = [],
         pub_observers = []\<rparr> (Some (component_service owner)) (component_name owner) path {} 0 = Inr (d, pub0)"
    "pub_routes pub = pub_routes pub0" "pub_component pub = pub_component pub0"
  using assms by (auto simp: stage_def and_then_Inr split: prod.splits)

lemma stage_placed:
  assumes "stage view cat diags owner = Inr pub"
  obtains path where "child_route root (component_name owner) = Inr path" "length path \<le> 4096"
    "placed view cat diags path (pub_routes pub)"
proof -
  from assms obtain path pub0 d where "child_route root (component_name owner) = Inr path"
    "describe_service view cat diags
        \<lparr>pub_component = component_id owner, pub_summary = [], pub_routes = [], pub_diagnostics = [],
         pub_observers = []\<rparr> (Some (component_service owner)) (component_name owner) path {} 0 = Inr (d, pub0)"
    "pub_routes pub = pub_routes pub0" by (rule stageE)
  moreover from this(2) have "placed view cat diags path (pub_routes pub0)"
    using publish_steps_placed [OF describe_steps] by (fastforce simp: placed_def)
  ultimately show ?thesis
    using that [of path] child_routeD [of root "component_name owner" path] by simp
qed

lemma publish_steps_component: "publish_steps view cat diags path pub pub' \<Longrightarrow> pub_component pub' = pub_component pub"
  by (induction rule: rtranclp_induct) (auto simp: publish_step_def adds_def)

lemma stage_component: "stage view cat diags owner = Inr pub \<Longrightarrow> pub_component pub = component_id owner"
  by (erule stageE) (drule describe_steps, drule publish_steps_component, simp)

section \<open>Canonical and usable\<close>

text \<open>
  C31: every route of a publication is the canonical form of itself, so the path a client is
  given in a description is the path its request is looked up under: no published resource is
  unreachable.
\<close>

theorem stage_routes_canonical:
  assumes "stage view cat diags owner = Inr pub"
  shows "list_all (\<lambda>(p, r). canonicalRequestPath p = Some p) (pub_routes pub)"
proof -
  obtain path where path: "child_route root (component_name owner) = Inr path" "length path \<le> 4096"
    "placed view cat diags path (pub_routes pub)" using assms by (rule stage_placed)
  have "canonicalRequestPath p = Some p" if r: "(p, r) \<in> set (pub_routes pub)" for p r
  proof -
    obtain sp where sp: "service_place path sp" "belongs view cat diags sp p r"
      using path(3) r unfolding placed_def by blast
    have "below path p" "length p \<le> 8192"
      using service_place_path [OF sp(1) path(2)] belongs_path [OF sp(2)] by (auto intro: below_trans)
    then have "below root p" using child_route_below [OF path(1)] below_trans by blast
    then obtain names where "p = route ([''api'', ''v1'', ''components''] @ names)" "list_all validName names"
      by (auto simp: below_def root_route route_append)
    moreover have "list_all validName [''api'', ''v1'', ''components'']" by code_simp
    ultimately show ?thesis using \<open>length p \<le> 8192\<close>
      using route_canonical [of "[''api'', ''v1'', ''components''] @ names"] by simp
  qed
  then show ?thesis by (auto simp: list_all_iff)
qed


lemma published_resources_ok:
  assumes "stage view cat diags owner = Inr pub" "coded cat" "list_all (\<lambda>(n, reason). reason \<noteq> []) diags"
  shows "list_all (\<lambda>(p, r). resource_ok view r) (pub_routes pub)"
proof -
  obtain path where path: "placed view cat diags path (pub_routes pub)"
    using assms(1) by (rule stage_placed)
  have ok: "resource_ok view r" if "belongs view cat diags sp p r" for sp p r
    using that
  proof (cases rule: belongs.cases)
    case (operation_call n part refs st)
    then show ?thesis
      using finish_signature_ok [OF assms(2,3)] publish_arguments_ok [OF assms(3)] by blast
  qed (simp_all add: value_resource_ok port_resource_ok assms(2), simp_all add: resource_ok_def collection_def new_resource_def)
  then show ?thesis using path unfolding placed_def list_all_iff by blast
qed

text \<open>
  C32: every published resource carries what a request to it dereferences.  A supported value,
  port or operation has its conversions (an operation for each argument, its result and
  each collected value, which is converted like the argument or result it comes from), its
  source, port or bridge; and the allowed methods are those of its kind.
\<close>

theorem stage_resources_ok:
  assumes "stage view cat diags owner = Inr pub" "coded cat" "list_all (\<lambda>(n, reason). reason \<noteq> []) diags"
  shows "list_all (\<lambda>(p, r). resource_ok view r) (pub_routes pub)"
  using assms by (rule published_resources_ok)

section \<open>Nothing is left out\<close>

inductive mounted :: "'c rtt_view \<Rightarrow> nat \<Rightarrow> string \<Rightarrow> nat \<Rightarrow> string \<Rightarrow> bool" for view s path where
  mounted_here: "mounted view s path s path"
| mounted_child: "mounted view s path t p \<Longrightarrow> (n, Some c) \<in> set (service_providers (services view t)) \<Longrightarrow>
    n \<noteq> ''this'' \<Longrightarrow> child_route (p @ ''/services'') n = Inr h \<Longrightarrow> mounted view s path c h"

definition publishes_all ::
  "'c rtt_view \<Rightarrow> 'c type_catalog \<Rightarrow> nat \<Rightarrow> string \<Rightarrow> (string \<rightharpoonup> 'c resource) \<Rightarrow> bool" where
  "publishes_all view cat s path routes \<longleftrightarrow>
     list_all (\<lambda>b. list_all (\<lambda>(n, m). \<exists>href src.
        child_route (path @ CHR ''/'' # category_of b) n = Inr href \<and> Option.bind m member_source = Some src
        \<and> routes href = Some (value_resource view cat src))
       (if b then service_properties (services view s) else service_attributes (services view s))) [True, False]
     \<and> list_all (\<lambda>(n, m). \<exists>href part r opn.
        child_route (path @ ''/operations'') n = Inr href \<and> m = Some part \<and> routes href = Some r
        \<and> res_kind r = OperationResource \<and> res_operation r = Some opn \<and> op_part opn = part_id part)
       (service_operations (services view s))
     \<and> list_all (\<lambda>(n, m). \<exists>base q. child_route (path @ ''/ports'') n = Inr base \<and> m = Some q
        \<and> (port_input q \<longrightarrow> routes (base @ ''/samples'') = Some (port_resource view cat q))
        \<and> (port_output q \<longrightarrow> port_keeps_last q \<longrightarrow> routes (base @ ''/latest'') = Some (port_resource view cat q)))
       (service_ports (services view s))
     \<and> list_all (\<lambda>c. \<exists>r. routes (path @ CHR ''/'' # c) = Some r \<and> res_kind r = Description) categories
     \<and> (\<exists>r. routes path = Some r \<and> res_kind r = Description)"

lemma each_grows:
  assumes "each f xs s = Inr t" "\<And>y s s'. y \<in> set xs \<Longrightarrow> f y s = Inr s' \<Longrightarrow> grows (fst s) (fst s')"
  shows "grows (fst s) (fst t)"
  using assms
proof (induction xs arbitrary: s)
  case (Cons y ys)
  from Cons(2) obtain s1 where s1: "f y s = Inr s1" "each f ys s1 = Inr t" by (auto simp: and_then_Inr)
  have "grows (fst s) (fst s1)" using Cons(3) [OF _ s1(1)] by simp
  moreover have "grows (fst s1) (fst t)" by (rule Cons(1) [OF s1(2)]) (rule Cons(3) [OF list.set_intros(2)])
  ultimately show ?case by (rule grows_trans)
qed (simp add: grows_refl)

lemma each_mem:
  assumes "each f xs s = Inr t" "x \<in> set xs" "ordered (pub_routes (fst s))"
    and "\<And>y s s'. y \<in> set xs \<Longrightarrow> f y s = Inr s' \<Longrightarrow> grows (fst s) (fst s')"
  shows "\<exists>s1 s2. f x s1 = Inr s2 \<and> ordered (pub_routes (fst s1)) \<and> grows (fst s2) (fst t)"
  using assms
proof (induction xs arbitrary: s)
  case (Cons y ys)
  from Cons(2) obtain s1 where s1: "f y s = Inr s1" "each f ys s1 = Inr t" by (auto simp: and_then_Inr)
  have g: "grows (fst s) (fst s1)" using Cons(5) [OF _ s1(1)] by simp
  have rest: "grows (fst s1) (fst t)"
    by (rule each_grows [OF s1(2)]) (rule Cons(5) [OF list.set_intros(2)])
  show ?case
  proof (cases "x = y")
    case True
    with s1(1) rest Cons(4) show ?thesis by blast
  next
    case False
    have "ordered (pub_routes (fst s1))" using g Cons(4) by (simp add: grows_def)
    moreover have "x \<in> set ys" using False Cons(3) by simp
    ultimately show ?thesis by (intro Cons(1) [OF s1(2)] Cons(5) [OF list.set_intros(2)])
  qed
qed simp

definition growing :: "('e \<Rightarrow> 'c category_state \<Rightarrow> string + 'c category_state) \<Rightarrow> bool" where
  "growing body \<longleftrightarrow> (\<forall>e cs cs'. body e cs = Inr cs' \<longrightarrow> grows (fst cs) (fst cs'))"

lemma publish_category_mem:
  assumes "publish_category cat diags path category body entries st = Inr st'"
    and "category \<in> set categories" "ordered (pub_routes (fst st))"
    and "growing body"
  shows "grows (fst st) (fst st')"
    and "\<exists>items refs. map_of (pub_routes (fst st')) (path @ CHR ''/'' # category) = Some (collection cat diags items refs)"
    and "x \<in> set entries \<Longrightarrow>
      \<exists>cs cs'. body x cs = Inr cs' \<and> ordered (pub_routes (fst cs)) \<and> grows (fst cs') (fst st')"
proof -
  have body: "\<And>e cs cs'. body e cs = Inr cs' \<Longrightarrow> grows (fst cs) (fst cs')"
    using assms(4) unfolding growing_def by blast
  obtain pub d ts where st: "st = (pub, d, ts)" by (metis surj_pair)
  obtain cs where cs: "each body entries (pub, [], []) = Inr cs"
    "finish_category cat diags path category d ts cs = Inr st'"
    using assms(1) by (auto simp: publish_category_def st and_then_Inr)
  have 1: "grows pub (fst cs)"
    using each_grows [OF cs(1) body] by simp
  obtain items refs where a: "adds (fst cs) (path @ CHR ''/'' # category) (collection cat diags items refs) (fst st')"
    using cs(2) by (auto simp: finish_category_def and_then_Inr split: prod.splits dest!: insert_route_adds)
  show "grows (fst st) (fst st')" using 1 adds_grows [OF a] by (simp add: st grows_trans)
  have "ordered (pub_routes (fst cs))" using 1 assms(3) by (simp add: st grows_def)
  then show "\<exists>items refs. map_of (pub_routes (fst st')) (path @ CHR ''/'' # category) = Some (collection cat diags items refs)"
    using a by (auto simp: adds_def)
  assume "x \<in> set entries"
  with each_mem [OF cs(1) _ _ body] assms(3) adds_grows [OF a] show
    "\<exists>cs cs'. body x cs = Inr cs' \<and> ordered (pub_routes (fst cs)) \<and> grows (fst cs') (fst st')"
    by (fastforce simp: st intro: grows_trans)
qed


lemma adds_final:
  assumes "adds a p r b" "ordered (pub_routes a)" "grows b c"
  shows "map_of (pub_routes c) p = Some r"
proof -
  have "ordered (pub_routes b)" "map_of (pub_routes b) p = Some r"
    using assms(1,2) by (auto simp: adds_def)
  with assms(3) show ?thesis by (auto simp: grows_def map_le_def dom_def)
qed

lemma step_grows: "publish_step view cat diags path pub pub' \<Longrightarrow> grows pub pub'"
  by (rule publish_steps_grow) (rule r_into_rtranclp)

lemma child_step:
  assumes "publish_child view path (\<lambda>pub child n h. describe_service view cat diags pub child n h anc lvl) e cs = Inr cs'"
  shows "grows (fst cs) (fst cs')"
    and "e = (n, Some c) \<Longrightarrow> n \<noteq> ''this'' \<Longrightarrow> \<exists>h d. child_route (path @ ''/services'') n = Inr h
      \<and> describe_service view cat diags (fst cs) (Some c) n h anc lvl = Inr (d, fst cs')"
  using assms describe_steps [THEN publish_steps_grow]
  by (cases e; cases cs; fastforce simp: publish_child_def and_then_Inr grows_refl split: if_splits)+

lemma member_adds:
  assumes "publish_member view cat diags path b (n, m) cs = Inr cs'"
  shows "\<exists>href src. child_route (path @ CHR ''/'' # category_of b) n = Inr href
    \<and> Option.bind m member_source = Some src \<and> adds (fst cs) href (value_resource view cat src) (fst cs')"
proof -
  obtain pub items refs pub' items' refs' where "cs = (pub, items, refs)" "cs' = (pub', items', refs')" by (metis surj_pair)
  with assms publish_member_adds [of view cat diags path b n m pub items refs pub' items' refs'] show ?thesis by simp
qed

lemma operation_adds:
  assumes "publish_operation view cat diags path (n, m) cs = Inr cs'"
  shows "\<exists>href part st. child_route (path @ ''/operations'') n = Inr href \<and> m = Some part
    \<and> adds (fst cs) href (operation_resource view cat part st) (fst cs')"
proof -
  obtain pub items refs pub' items' refs' where "cs = (pub, items, refs)" "cs' = (pub', items', refs')" by (metis surj_pair)
  with assms publish_operation_adds [of view cat diags path n m pub items refs pub' items' refs'] show ?thesis by auto
qed

lemma port_adds:
  assumes "publish_port view cat diags path (n, m) cs = Inr cs'"
  shows "\<exists>base p. child_route (path @ ''/ports'') n = Inr base \<and> m = Some p \<and> port_output p \<noteq> port_input p
    \<and> (port_input p \<longrightarrow> adds (fst cs) (base @ ''/samples'') (port_resource view cat p) (fst cs'))
    \<and> (port_output p \<longrightarrow> port_keeps_last p \<longrightarrow>
         adds (fst cs) (base @ ''/latest'') (port_resource view cat p) (fst cs'))"
proof -
  obtain pub items refs pub' items' refs' where "cs = (pub, items, refs)" "cs' = (pub', items', refs')" by (metis surj_pair)
  with assms publish_port_adds [of view cat diags path n m pub items refs pub' items' refs'] show ?thesis by auto
qed

lemma described_all:
  assumes "describe_service view cat diags pub service name path ancestry level = Inr (d, pub')"
    and "ordered (pub_routes pub)"
  obtains s where "service = Some s" "publishes_all view cat s path (map_of (pub_routes pub'))"
    "\<And>n c. (n, Some c) \<in> set (service_providers (services view s)) \<Longrightarrow> n \<noteq> ''this'' \<Longrightarrow>
      \<exists>h d1 pub1 pub2. child_route (path @ ''/services'') n = Inr h \<and> ordered (pub_routes pub1)
        \<and> describe_service view cat diags pub1 (Some c) n h (insert s ancestry) (level + 1) = Inr (d1, pub2)
        \<and> grows pub2 pub'"
  using assms(1)
proof (cases rule: describe_serviceE)
  case (1 s d0 st1 st2 st3 st4 pub5 ts)
  have cats: "''services'' \<in> set categories" "''properties'' \<in> set categories" "''attributes'' \<in> set categories"
    "''operations'' \<in> set categories" "''ports'' \<in> set categories" by (simp_all add: categories_def)
  have ord: "ordered (pub_routes (fst (pub, d0, []::string list)))" using assms(2) by simp
  have gm: "growing (publish_member view cat diags path b)" for b
    unfolding growing_def by (blast intro: step_grows member_step)
  have go: "growing (publish_operation view cat diags path)"
    unfolding growing_def by (blast intro: step_grows operation_step)
  have gp: "growing (publish_port view cat diags path)"
    unfolding growing_def by (blast intro: step_grows port_step)
  have gc: "growing (publish_child view path (\<lambda>pub child n h.
      describe_service view cat diags pub child n h (insert s ancestry) (level + 1)))"
    unfolding growing_def by (blast intro: child_step(1))
  note s1 = publish_category_mem [OF 1(5) cats(1) ord gc]
  have o1: "ordered (pub_routes (fst st1))" using s1(1) assms(2) by (simp add: grows_def)
  note s2 = publish_category_mem [OF 1(6) cats(2) o1 gm]
  have o2: "ordered (pub_routes (fst st2))" using s2(1) o1 by (simp add: grows_def)
  note s3 = publish_category_mem [OF 1(7) cats(3) o2 gm]
  have o3: "ordered (pub_routes (fst st3))" using s3(1) o2 by (simp add: grows_def)
  note s4 = publish_category_mem [OF 1(8) cats(4) o3 go]
  have o4: "ordered (pub_routes (fst st4))" using s4(1) o3 by (simp add: grows_def)
  note s5 = publish_category_mem [OF 1(9) cats(5) o4 gp]
  have o5: "ordered (pub_routes pub5)" using s5(1) o4 by (simp add: grows_def)
  note fin = insert_route_adds [OF 1(10)]
  have g5: "grows (fst (pub5, ts)) pub'" using adds_grows [OF fin] by simp
  have g4: "grows (fst st4) pub'" using s5(1) g5 by (rule grows_trans)
  have g3: "grows (fst st3) pub'" using s4(1) g4 by (rule grows_trans)
  have g2: "grows (fst st2) pub'" using s3(1) g3 by (rule grows_trans)
  have g1: "grows (fst st1) pub'" using s2(1) g2 by (rule grows_trans)
  let ?routes = "map_of (pub_routes pub')"
  have valued: "\<exists>href src. child_route (path @ CHR ''/'' # category_of b) n = Inr href
      \<and> Option.bind m member_source = Some src \<and> ?routes href = Some (value_resource view cat src)"
    if "publish_member view cat diags path b (n, m) cs = Inr cs'" "ordered (pub_routes (fst cs))" "grows (fst cs') pub'"
    for b n m cs cs'
    using member_adds [OF that(1)] adds_final [OF _ that(2,3)] by blast
  have listed: "\<exists>r. ?routes p = Some r \<and> res_kind r = Description"
    if "\<exists>items refs. map_of (pub_routes pub1) p = Some (collection cat diags items refs)" "grows pub1 pub'"
      "ordered (pub_routes pub1)" for pub1 p
    using that by (fastforce simp: grows_def map_le_def dom_def collection_def new_resource_def)
  have "publishes_all view cat s path ?routes"
    unfolding publishes_all_def
  proof (intro conjI)
    show "list_all (\<lambda>c. \<exists>r. ?routes (path @ CHR ''/'' # c) = Some r \<and> res_kind r = Description) categories"
      using listed [OF s1(2) g1 o1] listed [OF s2(2) g2 o2] listed [OF s3(2) g3 o3]
        listed [OF s4(2) g4 o4] listed [OF s5(2) g5] o5
      by (simp add: categories_def)
    show "\<exists>r. ?routes path = Some r \<and> res_kind r = Description"
      using adds_final [OF fin o5 grows_refl] by (simp add: new_resource_def)
    have "\<exists>base q. child_route (path @ ''/ports'') n = Inr base \<and> m = Some q
        \<and> (port_input q \<longrightarrow> ?routes (base @ ''/samples'') = Some (port_resource view cat q))
        \<and> (port_output q \<longrightarrow> port_keeps_last q \<longrightarrow> ?routes (base @ ''/latest'') = Some (port_resource view cat q))"
      if mem: "(n, m) \<in> set (service_ports (services view s))" for n m
    proof -
      obtain cs cs' where run: "publish_port view cat diags path (n, m) cs = Inr cs'"
        "ordered (pub_routes (fst cs))" "grows (fst cs') (fst (pub5, ts))" using s5(3) [OF mem] by blast
      from run(3) g5 have "grows (fst cs') pub'" by (rule grows_trans)
      with port_adds [OF run(1)] adds_final [OF _ run(2)] show ?thesis by blast
    qed
    then show "list_all (\<lambda>(n, m). \<exists>base q. child_route (path @ ''/ports'') n = Inr base \<and> m = Some q
        \<and> (port_input q \<longrightarrow> ?routes (base @ ''/samples'') = Some (port_resource view cat q))
        \<and> (port_output q \<longrightarrow> port_keeps_last q \<longrightarrow> ?routes (base @ ''/latest'') = Some (port_resource view cat q)))
       (service_ports (services view s))" by (auto simp: list_all_iff)
    have "\<exists>href part r opn. child_route (path @ ''/operations'') n = Inr href \<and> m = Some part \<and> ?routes href = Some r
        \<and> res_kind r = OperationResource \<and> res_operation r = Some opn \<and> op_part opn = part_id part"
      if mem: "(n, m) \<in> set (service_operations (services view s))" for n m
    proof -
      obtain cs cs' where run: "publish_operation view cat diags path (n, m) cs = Inr cs'"
        "ordered (pub_routes (fst cs))" "grows (fst cs') (fst st4)" using s4(3) [OF mem] by blast
      from run(3) g4 have "grows (fst cs') pub'" by (rule grows_trans)
      with operation_adds [OF run(1)] adds_final [OF _ run(2)]
      obtain href part st where "child_route (path @ ''/operations'') n = Inr href" "m = Some part"
        "?routes href = Some (operation_resource view cat part st)" by blast
      then show ?thesis by (simp add: operation_resource_def new_resource_def)
    qed
    then show "list_all (\<lambda>(n, m). \<exists>href part r opn.
        child_route (path @ ''/operations'') n = Inr href \<and> m = Some part \<and> ?routes href = Some r
        \<and> res_kind r = OperationResource \<and> res_operation r = Some opn \<and> op_part opn = part_id part)
       (service_operations (services view s))" by (auto simp: list_all_iff)
    have "\<exists>href src. child_route (path @ CHR ''/'' # category_of b) n = Inr href
        \<and> Option.bind m member_source = Some src \<and> ?routes href = Some (value_resource view cat src)"
      if mem: "(n, m) \<in> set (if b then service_properties (services view s) else service_attributes (services view s))"
      for b n m
    proof -
      obtain cs cs' mid where run: "publish_member view cat diags path b (n, m) cs = Inr cs'"
        "ordered (pub_routes (fst cs))" "grows (fst cs') mid" "grows mid pub'"
      proof (cases b)
        case True
        with mem obtain cs cs' where "publish_member view cat diags path b (n, m) cs = Inr cs'"
          "ordered (pub_routes (fst cs))" "grows (fst cs') (fst st2)" using s2(3) [of "(n, m)"] by auto
        with g2 that show ?thesis by blast
      next
        case False
        with mem obtain cs cs' where "publish_member view cat diags path b (n, m) cs = Inr cs'"
          "ordered (pub_routes (fst cs))" "grows (fst cs') (fst st3)" using s3(3) [of "(n, m)"] by auto
        with g3 that show ?thesis by blast
      qed
      show ?thesis by (rule valued [OF run(1,2) grows_trans [OF run(3,4)]])
    qed
    then show "list_all (\<lambda>b. list_all (\<lambda>(n, m). \<exists>href src.
        child_route (path @ CHR ''/'' # category_of b) n = Inr href \<and> Option.bind m member_source = Some src
        \<and> ?routes href = Some (value_resource view cat src))
       (if b then service_properties (services view s) else service_attributes (services view s))) [True, False]"
      unfolding list_all_iff by blast
  qed
  moreover have "\<exists>h d1 pub1 pub2. child_route (path @ ''/services'') n = Inr h \<and> ordered (pub_routes pub1)
        \<and> describe_service view cat diags pub1 (Some c) n h (insert s ancestry) (level + 1) = Inr (d1, pub2)
        \<and> grows pub2 pub'" if p: "(n, Some c) \<in> set (service_providers (services view s))" "n \<noteq> ''this''" for n c
  proof -
    obtain cs cs' where run: "publish_child view path (\<lambda>pub child n h.
        describe_service view cat diags pub child n h (insert s ancestry) (level + 1)) (n, Some c) cs = Inr cs'"
      "ordered (pub_routes (fst cs))" "grows (fst cs') (fst st1)" using s1(3) [OF p(1)] by blast
    show ?thesis using child_step(2) [OF run(1) refl p(2)] run(2) grows_trans [OF run(3) g1] by blast
  qed
  ultimately show ?thesis using that 1(1) by blast
qed


lemma described_child:
  assumes "describe_service view cat diags pub (Some s) name path ancestry level = Inr (d, pub')"
    and "ordered (pub_routes pub)" "(n, Some c) \<in> set (service_providers (services view s))" "n \<noteq> ''this''"
  obtains h d1 pub1 pub2 where "child_route (path @ ''/services'') n = Inr h" "ordered (pub_routes pub1)"
    "describe_service view cat diags pub1 (Some c) n h (insert s ancestry) (level + 1) = Inr (d1, pub2)"
    "grows pub2 pub'"
  using assms(1,2) by (rule described_all) (use assms(3,4) in blast)

lemma described_publishes:
  assumes "describe_service view cat diags pub (Some s) name path ancestry level = Inr (d, pub')"
    and "ordered (pub_routes pub)"
  shows "publishes_all view cat s path (map_of (pub_routes pub'))"
  using assms by (rule described_all) blast

lemma mounted_described:
  assumes "mounted view s path t p"
    and "describe_service view cat diags pub (Some s) name path ancestry level = Inr (d, pub')"
    and "ordered (pub_routes pub)"
  shows "\<exists>n anc lvl d1 pub1 pub2. ordered (pub_routes pub1) \<and> grows pub2 pub'
    \<and> describe_service view cat diags pub1 (Some t) n p anc lvl = Inr (d1, pub2)"
  using assms(1)
proof (induction rule: mounted.induct)
  case mounted_here
  show ?case using assms(2,3) grows_refl by blast
next
  case (mounted_child t p n c h)
  then obtain n0 anc lvl d1 pub1 pub2 where 1: "ordered (pub_routes pub1)" "grows pub2 pub'"
    "describe_service view cat diags pub1 (Some t) n0 p anc lvl = Inr (d1, pub2)" by blast
  obtain h' d2 pub3 pub4 where 2: "child_route (p @ ''/services'') n = Inr h'" "ordered (pub_routes pub3)"
    "describe_service view cat diags pub3 (Some c) n h' (insert t anc) (lvl + 1) = Inr (d2, pub4)" "grows pub4 pub2"
    using 1(3,1) mounted_child(2,3) by (rule described_child)
  have "grows pub4 pub'" using 2(4) 1(2) by (rule grows_trans)
  moreover have "h' = h" using 2(1) mounted_child(4) by simp
  ultimately show ?case using 2(2,3) by blast
qed

lemma publishes_all_mono:
  assumes "publishes_all view cat s path R" "R \<subseteq>\<^sub>m R'"
  shows "publishes_all view cat s path R'"
proof -
  have R: "R p = Some r \<Longrightarrow> R' p = Some r" for p r using assms(2) by (auto simp: map_le_def dom_def)
  from assms(1) show ?thesis unfolding publishes_all_def
    by (elim conjE, intro conjI) ((erule list.pred_mono_strong)?; (clarsimp split: if_splits; meson R) | (auto dest: R elim!: list.pred_mono_strong))+
qed

text \<open>
  C33: a publication leaves nothing out: for every service mounted at any depth it has a
  description, its five collections, every property and attribute, every operation, every
  input port and every output port that retains its last sample.
\<close>

theorem stage_complete:
  assumes "stage view cat diags owner = Inr pub" "child_route root (component_name owner) = Inr path"
    and "mounted view (component_service owner) path s p"
  shows "publishes_all view cat s p (map_of (pub_routes pub))"
  using assms(1)
proof (rule stageE)
  fix path' pub0 d
  assume run: "child_route root (component_name owner) = Inr path'"
    "describe_service view cat diags
        \<lparr>pub_component = component_id owner, pub_summary = [], pub_routes = [], pub_diagnostics = [],
         pub_observers = []\<rparr> (Some (component_service owner)) (component_name owner) path' {} 0 = Inr (d, pub0)"
    "pub_routes pub = pub_routes pub0"
  with assms(2,3) mounted_described [of view "component_service owner" path s p cat diags _ "component_name owner" "{}" 0 d pub0]
  obtain n anc lvl d1 pub1 pub2 where 1: "ordered (pub_routes pub1)" "grows pub2 pub0"
    "describe_service view cat diags pub1 (Some s) n p anc lvl = Inr (d1, pub2)" by fastforce
  have "ordered (pub_routes pub2)"
    using describe_steps [OF 1(3), THEN publish_steps_grow] 1(1) by (simp add: grows_def)
  then have "map_of (pub_routes pub2) \<subseteq>\<^sub>m map_of (pub_routes pub)" using 1(2) run(3) by (simp add: grows_def)
  with described_publishes [OF 1(3,1)] show ?thesis by (rule publishes_all_mono)
qed
end
