(* ===== verification/Publication_Map.thy ===== *)
theory Publication_Map
  imports Publication_Routes
begin

text \<open>
  The publications of all components, as \<open>commit\<close> builds them: what a path resolves to, and a
  small component on which the publication is evaluated.
\<close>

section \<open>The map of publications\<close>

inductive committed :: "'c type_catalog \<Rightarrow> type_diagnostics \<Rightarrow> 'c publications \<Rightarrow> bool" for cat diags where
  committed_none: "committed cat diags []"
| committed_more: "committed cat diags pubs \<Longrightarrow> stage view cat diags owner = Inr pub \<Longrightarrow>
    commit (component_name owner) pub pubs = (ok, e, pubs') \<Longrightarrow> committed cat diags pubs'"

lemma committed_staged:
  "committed cat diags pubs \<Longrightarrow> ordered pubs \<and> (\<forall>name pub. (name, pub) \<in> set pubs \<longrightarrow>
     (\<exists>view owner. component_name owner = name \<and> stage view cat diags owner = Inr pub))"
proof (induction rule: committed.induct)
  case (committed_more pubs view owner pub ok e pubs')
  have "pubs' = pubs \<or> pubs' = map_emplace (component_name owner) pub pubs"
    using committed_more(3) by (auto simp: commit_def split: option.splits if_splits)
  with committed_more(2,4) show ?case by (auto dest!: set_emplace)
qed simp

lemma stage_route_below:
  assumes "stage view cat diags owner = Inr pub" "map_of (pub_routes pub) p = Some r"
  shows "\<exists>names. p = route ([''api'', ''v1'', ''components'', component_name owner] @ names)"
proof -
  obtain path where path: "child_route root (component_name owner) = Inr path" "length path \<le> 4096"
    "placed view cat diags path (pub_routes pub)" using assms(1) by (rule stage_placed)
  obtain sp where sp: "service_place path sp" "belongs view cat diags sp p r"
    using path(3) map_of_SomeD [OF assms(2)] unfolding placed_def by blast
  have "below path p"
    using service_place_path [OF sp(1) path(2)] belongs_path [OF sp(2)] by (auto intro: below_trans)
  then show ?thesis using child_routeD [OF path(1)] by (auto simp: below_def root_route route_append)
qed

lemma find_route_Some: "find_route pubs p = Some r \<Longrightarrow> \<exists>name pub. (name, pub) \<in> set pubs \<and> map_of (pub_routes pub) p = Some r"
  by (induction pubs p rule: find_route.induct) (auto split: option.splits)

lemma find_route_mem: "(name, pub) \<in> set pubs \<Longrightarrow> map_of (pub_routes pub) p = Some r \<Longrightarrow> find_route pubs p \<noteq> None"
  by (induction pubs p rule: find_route.induct) (auto split: option.splits)

lemma resolve_published:
  assumes "committed cat diags pubs" "path \<noteq> root"
  shows "resolve pubs path = Some r \<longleftrightarrow>
    (\<exists>name pub. map_of pubs name = Some pub \<and> map_of (pub_routes pub) path = Some r)"
proof
  assume "resolve pubs path = Some r"
  then show "\<exists>name pub. map_of pubs name = Some pub \<and> map_of (pub_routes pub) path = Some r"
    using committed_staged [OF assms(1)] assms(2) find_route_Some ordered_mem by (fastforce simp: resolve_def)
next
  assume "\<exists>name pub. map_of pubs name = Some pub \<and> map_of (pub_routes pub) path = Some r"
  then obtain name pub where 1: "map_of pubs name = Some pub" "map_of (pub_routes pub) path = Some r" by blast
  then obtain r' where "find_route pubs path = Some r'" using find_route_mem map_of_SomeD by fastforce
  then obtain name' pub' where 2: "(name', pub') \<in> set pubs" "map_of (pub_routes pub') path = Some r'"
    using find_route_Some by blast
  note st = committed_staged [OF assms(1), THEN conjunct2, rule_format]
  obtain view owner where v: "component_name owner = name" "stage view cat diags owner = Inr pub"
    using st [OF map_of_SomeD [OF 1(1)]] by blast
  obtain view' owner' where v': "component_name owner' = name'" "stage view' cat diags owner' = Inr pub'"
    using st [OF 2(1)] by blast
  obtain ns ns' where "path = route ([''api'', ''v1'', ''components'', name] @ ns)"
    "path = route ([''api'', ''v1'', ''components'', name'] @ ns')"
    using stage_route_below [OF v(2) 1(2)] stage_route_below [OF v'(2) 2(2)] v(1) v'(1) by metis
  then have "[''api'', ''v1'', ''components'', name] @ ns = [''api'', ''v1'', ''components'', name'] @ ns'"
    by (metis url.join_path_inject)
  then have "name' = name" by simp
  with 1 2 committed_staged [OF assms(1)] ordered_mem have "pub' = pub" by fastforce
  with 1 2 \<open>find_route pubs path = Some r'\<close> assms(2) show "resolve pubs path = Some r" by (simp add: resolve_def)
qed

text \<open>
  C34: a path resolves exactly to the resource that some published component holds under it:
  routes of different components never clash, so the first match of \<open>resolve\<close> is the only
  one, whatever services, names and types the components have.
\<close>

theorem resolve_exact:
  assumes "committed cat diags pubs" "path \<noteq> root"
  shows "resolve pubs path = Some r \<longleftrightarrow>
    (\<exists>name pub. map_of pubs name = Some pub \<and> map_of (pub_routes pub) path = Some r)"
  using assms by (rule resolve_published)

text \<open>
  Committing keeps every earlier publication; it succeeds exactly if the name is free or
  already belongs to the same component, which is then published, and fails with a message
  and no change otherwise.
\<close>

theorem commit_first_wins:
  assumes "ordered pubs" "commit name pub pubs = (ok, e, pubs')"
  shows "map_of pubs \<subseteq>\<^sub>m map_of pubs' \<and> (ok \<longleftrightarrow> e = []) \<and> (\<not> ok \<longrightarrow> pubs' = pubs)
    \<and> (ok \<longleftrightarrow> (case map_of pubs name of None \<Rightarrow> True | Some p \<Rightarrow> pub_component p = pub_component pub))
    \<and> (ok \<longrightarrow> contains pubs' (pub_component pub))"
proof (cases "map_of pubs name")
  case None
  moreover from None assms have "map_of pubs' name = Some pub" by (auto simp: commit_def)
  then have "(name, pub) \<in> set pubs'" by (rule map_of_SomeD)
  ultimately show ?thesis
    using assms by (auto simp: commit_def contains_def list_ex_iff map_le_def)
next
  case (Some p)
  then have "(name, p) \<in> set pubs" by (rule map_of_SomeD)
  with Some assms show ?thesis
    by (auto simp: commit_def contains_def list_ex_iff name_taken_def split: if_splits)
qed

section \<open>A small component\<close>

definition sample_view :: "nat rtt_view" where
  "sample_view = \<lparr>type_name = (\<lambda>t. if t = 3 then ''Int32'' else if t = 0 then ''Void'' else ''Array''),
     services = (\<lambda>s. if s = 1 then \<lparr>service_doc = ''root'', service_providers = [(''this'', Some 1), (''sub'', Some 2)],
         service_properties = [(''p q'', Some \<lparr>member_doc = [], member_source =
            Some \<lparr>source_id = 5, source_type = Some 3, source_assignable = True\<rparr>\<rparr>)],
         service_attributes = [], service_operations = [], service_ports = []\<rparr>
       else \<lparr>service_doc = [], service_providers = [], service_properties = [], service_attributes = [],
         service_operations = [(''run'', Some \<lparr>part_id = 8, part_description = [], part_arguments = [],
           part_arity = 1, part_argument_type = (\<lambda>i. Some 3), part_collect_arity = 1,
           part_collect_type = (\<lambda>i. Some 3), part_own_thread = True\<rparr>)],
         service_ports = [(''out'', Some \<lparr>port_id = 9, port_doc = [], port_type = Some 3, port_output = True,
           port_input = False, port_keeps_last = True, port_connects = True\<rparr>)]\<rparr>),
     supports_port_value = (\<lambda>c. True)\<rparr>"

definition sample_catalog :: "nat type_catalog" where
  "sample_catalog = \<lparr>catalog_types = [(''Int32'', \<lparr>bound = registration sample_integer, bound_codec = Some 4\<rparr>)],
    catalog_identities = [(3, ''Int32'')]\<rparr>"

definition sample_owner :: component_view where
  "sample_owner = \<lparr>component_id = 20, component_name = ''c'', component_service = 1\<rparr>"

lemma sample_stage:
  "case stage sample_view sample_catalog [] sample_owner of
     Inl e \<Rightarrow> False
   | Inr pub \<Rightarrow> map_of (pub_routes pub) ''/api/v1/components/c/properties/p%20q'' \<noteq> None \<and> pub_component pub = 20"
  by code_simp

lemma sample_staged:
  obtains pub r where "stage sample_view sample_catalog [] sample_owner = Inr pub"
    "map_of (pub_routes pub) ''/api/v1/components/c/properties/p%20q'' = Some r" "pub_component pub = 20"
  using sample_stage by (auto split: sum.splits)

lemma stage_routes_canonical_witness:
  "canonicalRequestPath ''/api/v1/components/c/properties/p%20q'' = Some ''/api/v1/components/c/properties/p%20q''"
proof -
  obtain pub r where "stage sample_view sample_catalog [] sample_owner = Inr pub"
    "map_of (pub_routes pub) ''/api/v1/components/c/properties/p%20q'' = Some r" by (rule sample_staged)
  with stage_routes_canonical [OF this(1)] show ?thesis by (auto simp: list_all_iff dest!: map_of_SomeD)
qed

lemma stage_resources_ok_witness:
  "case stage sample_view sample_catalog [] sample_owner of
     Inl e \<Rightarrow> False | Inr pub \<Rightarrow> list_all (\<lambda>(p, r). resource_ok sample_view r) (pub_routes pub)"
proof -
  obtain pub where pub: "stage sample_view sample_catalog [] sample_owner = Inr pub" by (rule sample_staged)
  have "list_all (\<lambda>(n, reason). reason \<noteq> []) ([] :: type_diagnostics)" by simp
  moreover have "coded sample_catalog" by (simp add: coded_def sample_catalog_def)
  ultimately show ?thesis using stage_resources_ok [OF pub] by (simp add: pub)
qed

lemma stage_complete_witness:
  "case stage sample_view sample_catalog [] sample_owner of
     Inl e \<Rightarrow> False
   | Inr pub \<Rightarrow> publishes_all sample_view sample_catalog 2 ''/api/v1/components/c/services/sub'' (map_of (pub_routes pub))"
proof -
  obtain pub where pub: "stage sample_view sample_catalog [] sample_owner = Inr pub" by (rule sample_staged)
  have path: "child_route root (component_name sample_owner) = Inr ''/api/v1/components/c''"
    "child_route (''/api/v1/components/c'' @ ''/services'') ''sub'' = Inr ''/api/v1/components/c/services/sub''"
    by code_simp+
  have "mounted sample_view (component_service sample_owner) ''/api/v1/components/c'' 2 ''/api/v1/components/c/services/sub''"
    by (rule mounted_child [OF mounted_here _ _ path(2)]) (simp_all add: sample_view_def sample_owner_def)
  with stage_complete [OF pub path(1)] show ?thesis by (simp add: pub)
qed

lemma resolve_exact_witness:
  "case stage sample_view sample_catalog [] sample_owner of
     Inl e \<Rightarrow> False
   | Inr pub \<Rightarrow> resolve [(''c'', pub)] ''/api/v1/components/c/properties/p%20q'' \<noteq> None"
proof -
  obtain pub r where pub: "stage sample_view sample_catalog [] sample_owner = Inr pub"
    "map_of (pub_routes pub) ''/api/v1/components/c/properties/p%20q'' = Some r" by (rule sample_staged)
  have "commit (component_name sample_owner) pub [] = (True, [], [(''c'', pub)])"
    by (simp add: commit_def sample_owner_def)
  then have "committed sample_catalog [] [(''c'', pub)]"
    by (rule committed_more [OF committed_none pub(1)])
  then have "resolve [(''c'', pub)] ''/api/v1/components/c/properties/p%20q'' = Some r"
    by (subst resolve_exact) (auto simp: root_def pub(2))
  then show ?thesis by (simp add: pub(1))
qed

lemma commit_first_wins_witness:
  "case stage sample_view sample_catalog [] sample_owner of
     Inl e \<Rightarrow> False | Inr pub \<Rightarrow> contains (snd (snd (commit ''c'' pub []))) 20"
proof -
  obtain pub r where pub: "stage sample_view sample_catalog [] sample_owner = Inr pub" "pub_component pub = 20"
    by (rule sample_staged)
  have run: "commit ''c'' pub [] = (True, [], [(''c'', pub)])" by (simp add: commit_def)
  with commit_first_wins [OF _ run] pub show ?thesis by simp
qed

end
