(* ===== verification/Codec_Object.thy ===== *)
theory Codec_Object
  imports Typed_Codec
begin

text \<open>
  The codec objects of the library and the dispatch of the virtual functions of \<open>TypeCodec\<close>:
  \<open>TypedTypeCodec\<close> (\<open>typed_codec.hpp\<close>), \<open>VoidCodec\<close> (\<open>canonical_types.cpp\<close>) and \<open>ReflectedCodec\<close>
  (\<open>reflected_codec.cpp\<close>), with a constructor for the codecs that other code supplies.

  A reflected codec is one of two constructors, by its flag \<open>sequence_\<close>; a sequence has exactly
  one member.  Data sources, type objects and ports belong to RTT: \<open>rtt_sources\<close> is what the
  codecs use of them, over a state \<open>'w\<close> of RTT and handles \<open>'s\<close> of data sources.  RTT's calls
  return in this model; allocation failures and exceptions of RTT are not part of it.
\<close>

section \<open>Codec objects\<close>

datatype codec_object =
    TypedCodec cpp_type
  | VoidCodec
  | SequenceCodec nat "nat option" nat codec_object "nat option"
  | StructureCodec nat "(string \<times> nat \<times> codec_object) list" "nat option"
  | OtherCodec nat

section \<open>What the codecs use of RTT\<close>

text \<open>
  \<open>source_view t\<close> is a source as the codec of the C++ type \<open>t\<close> sees it, \<open>source_store t\<close> the
  assignment through \<open>set()\<close> and \<open>updated()\<close>, \<open>source_int\<close> the value of a \<open>DataSource<int>\<close>,
  \<open>own_value\<close> the allocation of an \<open>OwnedValue\<close>; \<open>part_of\<close>, \<open>new_value\<close> and \<open>set_length\<close> are
  \<open>getMember\<close>, \<open>buildValue\<close> and \<open>resize\<close> of a type object; \<open>retained\<close> is a \<open>RetainedSampleReader\<close>.
\<close>

record ('w, 's) rtt_sources =
  source_type :: "'s \<Rightarrow> nat option"
  source_evaluates :: "'w \<Rightarrow> 's \<Rightarrow> bool"
  source_assignable :: "'s \<Rightarrow> bool"
  source_view :: "cpp_type \<Rightarrow> 'w \<Rightarrow> 's \<Rightarrow> cpp_value data_source"
  source_store :: "cpp_type \<Rightarrow> 's \<Rightarrow> cpp_value \<Rightarrow> 'w \<Rightarrow> 'w"
  source_update :: "'s \<Rightarrow> 's \<Rightarrow> 'w \<Rightarrow> bool \<times> 'w"
  source_int :: "'w \<Rightarrow> 's \<Rightarrow> int option"
  own_value :: "cpp_type \<Rightarrow> cpp_value \<Rightarrow> 'w \<Rightarrow> 's \<times> 'w"
  part_of :: "nat \<Rightarrow> 'w \<Rightarrow> 's \<Rightarrow> string \<Rightarrow> 's option"
  new_value :: "nat \<Rightarrow> 'w \<Rightarrow> 's option \<times> 'w"
  set_length :: "nat \<Rightarrow> 's \<Rightarrow> int \<Rightarrow> 'w \<Rightarrow> bool \<times> 'w"
  port_sample :: "cpp_type \<Rightarrow> 'w \<Rightarrow> nat \<Rightarrow> cpp_value option option"
  retained :: "nat \<Rightarrow> nat \<Rightarrow> 'w \<Rightarrow> (port_value_status \<times> 's option \<times> codec_error option) \<times> 'w"
  other_toJson :: "nat \<Rightarrow> 'w \<Rightarrow> 's option \<Rightarrow> json_result \<Rightarrow> codec_context \<Rightarrow> unit res \<times> json_result \<times> codec_context"
  other_make :: "nat \<Rightarrow> json \<Rightarrow> codec_context \<Rightarrow> 'w \<Rightarrow> 's res \<times> codec_context \<times> 'w"
  other_assign :: "nat \<Rightarrow> 's option \<Rightarrow> 's option \<Rightarrow> 'w \<Rightarrow> unit res \<times> 'w"
  other_portValue :: "nat \<Rightarrow> nat \<Rightarrow> json_result \<Rightarrow> codec_context \<Rightarrow> 'w \<Rightarrow>
    (port_value_status \<times> codec_error option \<times> json_result \<times> codec_context) \<times> 'w"
  other_supports :: "nat \<Rightarrow> bool"

section \<open>toJson\<close>

text \<open>The result is written when the whole conversion has succeeded (\<open>result->swap(staged)\<close>).\<close>

definition deliver :: "json codec \<Rightarrow> json_result \<Rightarrow> codec_context \<Rightarrow> unit res \<times> json_result \<times> codec_context" where
  "deliver m result c =
     (case m c of
        (Ok j, c') \<Rightarrow> (Ok (), map_option (\<lambda>(store, old). (store, j)) result, c')
      | (Fail e, c') \<Rightarrow> (Fail e, result, c'))"

text \<open>The call of a member's codec with a fresh value of the context's resource.\<close>

definition staged_json ::
  "(json_result \<Rightarrow> codec_context \<Rightarrow> unit res \<times> json_result \<times> codec_context) \<Rightarrow> json codec" where
  "staged_json f c =
     (case f (Some (storage c, JNull)) c of
        (Ok _, result, c') \<Rightarrow> (Ok (snd (the result)), c')
      | (Fail e, result, c') \<Rightarrow> (Fail e, c'))"

definition void_toJson :: "json_result \<Rightarrow> codec_context \<Rightarrow> unit res \<times> json_result \<times> codec_context" where
  "void_toJson result c =
     (if result = None then (Fail None, result, c)
      else deliver (bind_codec (account 4) (\<lambda>_. return JNull)) result c)"

definition object_emplace :: "string \<Rightarrow> json \<Rightarrow> (string \<times> json) list \<Rightarrow> (string \<times> json) list" where
  "object_emplace k v ms = (if k \<in> fst ` set ms then ms else ms @ [(k, v)])"

definition reflected_guard :: "('w, 's) rtt_sources \<Rightarrow> 'w \<Rightarrow> nat \<Rightarrow> 's option \<Rightarrow> json_result \<Rightarrow> codec_context \<Rightarrow> bool" where
  "reflected_guard rtt w ty src result c \<longleftrightarrow>
     (case src of
        None \<Rightarrow> False
      | Some s \<Rightarrow> source_type rtt s = Some ty \<and> source_evaluates rtt w s) \<and> usable_result c result"

definition reflected_json ::
  "('w, 's) rtt_sources \<Rightarrow> 'w \<Rightarrow> nat \<Rightarrow> ('s \<Rightarrow> json codec) \<Rightarrow> 's option \<Rightarrow> json_result \<Rightarrow> codec_context \<Rightarrow>
     unit res \<times> json_result \<times> codec_context" where
  "reflected_json rtt w ty body src result =
     deliver (scoped (\<lambda>c.
       if \<not> reflected_guard rtt w ty src result c then (codecFailure InvalidDataSource, c)
       else bind_codec (account 2) (\<lambda>_. body (the src)) c)) result"

text \<open>One member: it must exist and have the type seen at registration.\<close>

definition part_json ::
  "('w, 's) rtt_sources \<Rightarrow> 'w \<Rightarrow> nat \<Rightarrow> 's \<Rightarrow> string \<Rightarrow> nat \<Rightarrow>
     ('s option \<Rightarrow> json_result \<Rightarrow> codec_context \<Rightarrow> unit res \<times> json_result \<times> codec_context) \<Rightarrow> json codec" where
  "part_json rtt w ty s name mty f =
     (case part_of rtt ty w s name of
        None \<Rightarrow> failing (Fail None)
      | Some m \<Rightarrow> if source_type rtt m \<noteq> Some mty then failing (Fail None) else staged_json (f (Some m)))"

definition sequence_json ::
  "('w, 's) rtt_sources \<Rightarrow> 'w \<Rightarrow> nat \<Rightarrow> nat option \<Rightarrow> nat \<Rightarrow>
     ('s option \<Rightarrow> json_result \<Rightarrow> codec_context \<Rightarrow> unit res \<times> json_result \<times> codec_context) \<Rightarrow> 's \<Rightarrow> json codec" where
  "sequence_json rtt w ty len ety f s =
     (case Option.bind (part_of rtt ty w s ''size'') (source_int rtt w) of
        None \<Rightarrow> failing (codecFailure InvalidDataSource)
      | Some count \<Rightarrow>
          if count < 0 \<or> (len \<noteq> None \<and> len \<noteq> Some (nat count)) then failing (codecFailure InvalidDataSource)
          else bind_codec (account (nat count)) (\<lambda>_.
            bind_codec (map_codec (\<lambda>i. part_json rtt w ty s (to_chars (int i)) ety f) [0..<nat count])
              (\<lambda>js. return (JArray js))))"

fun toJson :: "('w, 's) rtt_sources \<Rightarrow> 'w \<Rightarrow> codec_object \<Rightarrow>
    's option \<Rightarrow> json_result \<Rightarrow> codec_context \<Rightarrow> unit res \<times> json_result \<times> codec_context"
  and members_json :: "('w, 's) rtt_sources \<Rightarrow> 'w \<Rightarrow> nat \<Rightarrow> (string \<times> nat \<times> codec_object) list \<Rightarrow>
    's \<Rightarrow> (string \<times> json) list \<Rightarrow> (string \<times> json) list codec" where
  "toJson rtt w (TypedCodec t) =
     (\<lambda>src. typed_toJson (encode_value t) (map_option (source_view rtt t w) src))"
| "toJson rtt w VoidCodec = (\<lambda>src. void_toJson)"
| "toJson rtt w (SequenceCodec ty len ety cd rd) =
     reflected_json rtt w ty (sequence_json rtt w ty len ety (toJson rtt w cd))"
| "toJson rtt w (StructureCodec ty ms rd) =
     reflected_json rtt w ty
       (\<lambda>s. bind_codec (members_json rtt w ty ms s []) (\<lambda>obj. return (JObject obj)))"
| "toJson rtt w (OtherCodec n) = other_toJson rtt n w"
| "members_json rtt w ty [] = (\<lambda>s built. return built)"
| "members_json rtt w ty ((name, mty, cd) # ms) =
     (\<lambda>s built.
        bind_codec (accountJsonString name) (\<lambda>_.
        bind_codec (account 2) (\<lambda>_.
        bind_codec (part_json rtt w ty s name mty (toJson rtt w cd)) (\<lambda>j.
        members_json rtt w ty ms s (object_emplace name j built)))))"

section \<open>assign\<close>

definition reflected_assign ::
  "('w, 's) rtt_sources \<Rightarrow> nat \<Rightarrow> 's option \<Rightarrow> 's option \<Rightarrow> 'w \<Rightarrow> unit res \<times> 'w" where
  "reflected_assign rtt ty staged destination w =
     (case (staged, destination) of
        (Some s, Some d) \<Rightarrow>
          if \<not> source_assignable rtt d \<or> source_type rtt s \<noteq> Some ty \<or> source_type rtt d \<noteq> Some ty
          then (codecFailure InvalidDataSource, w)
          else (case source_update rtt d s w of
              (True, w') \<Rightarrow> (Ok (), w')
            | (False, w') \<Rightarrow> (codecFailure InvalidDataSource, w'))
      | _ \<Rightarrow> (codecFailure InvalidDataSource, w))"

definition stored_assign ::
  "('w, 's) rtt_sources \<Rightarrow> cpp_type \<Rightarrow> 's option \<Rightarrow> 's option \<Rightarrow> 'w \<Rightarrow> unit res \<times> 'w" where
  "stored_assign rtt t staged destination w =
     (case typed_assign (map_option (source_view rtt t w) staged) (map_option (source_view rtt t w) destination) of
        (Ok _, d') \<Rightarrow> (Ok (), source_store rtt t (the destination) (the (typed_content d')) w)
      | (Fail e, d') \<Rightarrow> (Fail e, w))"

fun codec_assign ::
  "('w, 's) rtt_sources \<Rightarrow> codec_object \<Rightarrow> 's option \<Rightarrow> 's option \<Rightarrow> 'w \<Rightarrow> unit res \<times> 'w" where
  "codec_assign rtt (TypedCodec t) staged destination w = stored_assign rtt t staged destination w"
| "codec_assign rtt VoidCodec staged destination w = (codecFailure TypeMismatch, w)"
| "codec_assign rtt (SequenceCodec ty len ety cd rd) staged destination w =
     reflected_assign rtt ty staged destination w"
| "codec_assign rtt (StructureCodec ty ms rd) staged destination w =
     reflected_assign rtt ty staged destination w"
| "codec_assign rtt (OtherCodec n) staged destination w = other_assign rtt n staged destination w"

section \<open>makeDataSource\<close>

text \<open>Computations that thread the context and RTT's state.\<close>

type_synonym ('w, 'a) maker = "codec_context \<Rightarrow> 'w \<Rightarrow> 'a res \<times> codec_context \<times> 'w"

definition make_bind :: "('w, 'a) maker \<Rightarrow> ('a \<Rightarrow> ('w, 'b) maker) \<Rightarrow> ('w, 'b) maker" where
  "make_bind m f c w = (case m c w of (Ok x, c', w') \<Rightarrow> f x c' w' | (Fail e, c', w') \<Rightarrow> (Fail e, c', w'))"

definition make_return :: "'a res \<Rightarrow> ('w, 'a) maker" where
  "make_return r c w = (r, c, w)"

definition make_codec :: "'a codec \<Rightarrow> ('w, 'a) maker" where
  "make_codec m c w = (case m c of (r, c') \<Rightarrow> (r, c', w))"

definition make_do :: "('w \<Rightarrow> 'a \<times> 'w) \<Rightarrow> ('w, 'a) maker" where
  "make_do f c w = (case f w of (x, w') \<Rightarrow> (Ok x, c, w'))"

definition make_try :: "('w \<Rightarrow> 'a res \<times> 'w) \<Rightarrow> ('w, 'a) maker" where
  "make_try f c w = (case f w of (r, w') \<Rightarrow> (r, c, w'))"

definition make_read :: "('w \<Rightarrow> 'a) \<Rightarrow> ('w, 'a) maker" where
  "make_read f c w = (Ok (f w), c, w)"

definition make_scoped :: "('w, 'a) maker \<Rightarrow> ('w, 'a) maker" where
  "make_scoped m c w =
     (case enter c of
        (Ok _, c1) \<Rightarrow> (case m c1 w of (r, c2, w') \<Rightarrow> (r, leave c2, w'))
      | (Fail e, c1) \<Rightarrow> (Fail e, c1, w))"

definition int_max :: nat where
  "int_max = 2147483647"

text \<open>The element at an index; the destination is looked up before the element is decoded.\<close>

fun fill_elements ::
  "('w, 's) rtt_sources \<Rightarrow> nat \<Rightarrow> 's \<Rightarrow> codec_object \<Rightarrow> (json \<Rightarrow> ('w, 's) maker) \<Rightarrow> nat \<Rightarrow> json list \<Rightarrow> ('w, unit) maker" where
  "fill_elements rtt ty staged cd mk i [] = make_return (Ok ())"
| "fill_elements rtt ty staged cd mk i (j # js) =
     make_bind (make_read (\<lambda>w. part_of rtt ty w staged (to_chars (int i)))) (\<lambda>destination.
     make_bind (mk j) (\<lambda>decoded.
     make_bind (make_try (codec_assign rtt cd (Some decoded) destination)) (\<lambda>_.
     fill_elements rtt ty staged cd mk (Suc i) js)))"

text \<open>The staged value of a type, then its content.\<close>

definition staged_value ::
  "('w, 's) rtt_sources \<Rightarrow> nat \<Rightarrow> ('s \<Rightarrow> ('w, unit) maker) \<Rightarrow> ('w, 's) maker" where
  "staged_value rtt ty fill =
     make_bind (make_do (new_value rtt ty)) (\<lambda>staged.
       case staged of
         None \<Rightarrow> make_return (codecFailure InvalidDataSource)
       | Some s \<Rightarrow>
           if \<not> source_assignable rtt s then make_return (codecFailure InvalidDataSource)
           else make_bind (fill s) (\<lambda>_. make_return (Ok s)))"

definition resize_staged :: "('w, 's) rtt_sources \<Rightarrow> nat \<Rightarrow> nat option \<Rightarrow> 's \<Rightarrow> nat \<Rightarrow> ('w, unit) maker" where
  "resize_staged rtt ty len s n =
     (if len \<noteq> None then make_return (Ok ())
      else make_bind (make_do (set_length rtt ty s (int n))) (\<lambda>ok.
        make_return (if ok then Ok () else codecFailure InvalidDataSource)))"

definition make_sequence ::
  "('w, 's) rtt_sources \<Rightarrow> nat \<Rightarrow> nat option \<Rightarrow> codec_object \<Rightarrow> (json \<Rightarrow> ('w, 's) maker) \<Rightarrow> json \<Rightarrow> ('w, 's) maker" where
  "make_sequence rtt ty len cd mk j = make_scoped
     (case j of
        JArray js \<Rightarrow>
          if (len \<noteq> None \<and> len \<noteq> Some (length js)) \<or> int_max < length js then make_return (codecFailure TypeMismatch)
          else make_bind (make_codec (account (length js))) (\<lambda>_.
            staged_value rtt ty (\<lambda>s.
              make_bind (resize_staged rtt ty len s (length js)) (\<lambda>_. fill_elements rtt ty s cd mk 0 js)))
      | _ \<Rightarrow> make_return (codecFailure TypeMismatch))"

definition check_members :: "string list \<Rightarrow> json \<Rightarrow> (string \<times> json) list res" where
  "check_members names j =
     (case j of
        JObject obj \<Rightarrow>
          if length obj \<noteq> length names then codecFailure TypeMismatch
          else (case find (\<lambda>name. member obj name = None) names of
              Some name \<Rightarrow> codecFailureAt TypeMismatch name
            | None \<Rightarrow> Ok obj)
      | _ \<Rightarrow> codecFailure TypeMismatch)"

fun makeDataSource :: "('w, 's) rtt_sources \<Rightarrow> codec_object \<Rightarrow> json \<Rightarrow> ('w, 's) maker"
  and fill_members :: "('w, 's) rtt_sources \<Rightarrow> nat \<Rightarrow> (string \<times> nat \<times> codec_object) list \<Rightarrow>
    (string \<times> json) list \<Rightarrow> 's \<Rightarrow> ('w, unit) maker" where
  "makeDataSource rtt (TypedCodec t) =
     (\<lambda>j. make_bind (make_codec (decode_value t j)) (\<lambda>v. make_do (own_value rtt t v)))"
| "makeDataSource rtt VoidCodec = (\<lambda>j. make_return (codecFailure TypeMismatch))"
| "makeDataSource rtt (SequenceCodec ty len ety cd rd) =
     make_sequence rtt ty len cd (makeDataSource rtt cd)"
| "makeDataSource rtt (StructureCodec ty ms rd) =
     (\<lambda>j. make_scoped
       (make_bind (make_return (check_members (map fst ms) j)) (\<lambda>obj.
          staged_value rtt ty (fill_members rtt ty ms obj))))"
| "makeDataSource rtt (OtherCodec n) = other_make rtt n"
| "fill_members rtt ty [] = (\<lambda>obj staged. make_return (Ok ()))"
| "fill_members rtt ty ((name, mty, cd) # ms) =
     (\<lambda>obj staged.
        make_bind (makeDataSource rtt cd (the (member obj name))) (\<lambda>decoded.
        make_bind (make_read (\<lambda>w. part_of rtt ty w staged name)) (\<lambda>destination.
        make_bind (make_try (codec_assign rtt cd (Some decoded) destination)) (\<lambda>_.
        fill_members rtt ty ms obj staged))))"

section \<open>Retained samples of ports\<close>

definition reflected_portValue ::
  "('w, 's) rtt_sources \<Rightarrow> nat option \<Rightarrow>
     ('w \<Rightarrow> 's option \<Rightarrow> json_result \<Rightarrow> codec_context \<Rightarrow> unit res \<times> json_result \<times> codec_context) \<Rightarrow>
     nat \<Rightarrow> json_result \<Rightarrow> codec_context \<Rightarrow> 'w \<Rightarrow>
     (port_value_status \<times> codec_error option \<times> json_result \<times> codec_context) \<times> 'w" where
  "reflected_portValue rtt rd f port result c w =
     (case rd of
        None \<Rightarrow> ((PortError, Some \<lparr>code = Unavailable, location = []\<rparr>, result, c), w)
      | Some reader \<Rightarrow>
          (case retained rtt reader port w of
             ((status, sample, e), w') \<Rightarrow>
               if status \<noteq> PortValue then ((status, e, result, c), w')
               else (case f w' sample result c of
                   (Ok _, result', c') \<Rightarrow> ((PortValue, None, result', c'), w')
                 | (Fail e', result', c') \<Rightarrow> ((PortError, e', result', c'), w'))))"

fun portValue ::
  "('w, 's) rtt_sources \<Rightarrow> codec_object \<Rightarrow> nat \<Rightarrow> json_result \<Rightarrow> codec_context \<Rightarrow> 'w \<Rightarrow>
     (port_value_status \<times> codec_error option \<times> json_result \<times> codec_context) \<times> 'w" where
  "portValue rtt (TypedCodec t) port result c w =
     (typed_portValue (encode_value t) (port_sample rtt t w port) result c, w)"
| "portValue rtt VoidCodec port result c w =
     ((PortError, Some \<lparr>code = Unavailable, location = []\<rparr>, result, c), w)"
| "portValue rtt (SequenceCodec ty len ety cd rd) port result c w =
     reflected_portValue rtt rd (\<lambda>w. toJson rtt w (SequenceCodec ty len ety cd rd)) port result c w"
| "portValue rtt (StructureCodec ty ms rd) port result c w =
     reflected_portValue rtt rd (\<lambda>w. toJson rtt w (StructureCodec ty ms rd)) port result c w"
| "portValue rtt (OtherCodec n) port result c w = other_portValue rtt n port result c w"

fun supportsPortValue :: "('w, 's) rtt_sources \<Rightarrow> codec_object \<Rightarrow> bool" where
  "supportsPortValue rtt (TypedCodec t) = True"
| "supportsPortValue rtt VoidCodec = False"
| "supportsPortValue rtt (SequenceCodec ty len ety cd rd) = (rd \<noteq> None)"
| "supportsPortValue rtt (StructureCodec ty ms rd) = (rd \<noteq> None)"
| "supportsPortValue rtt (OtherCodec n) = other_supports rtt n"

text \<open>
  The reader that the typed overload of \<open>makeReflectedTypeProtocol\<close> supplies, for a C++ type
  with values \<open>'v\<close>: \<open>sample\<close> is the last value of an \<open>OutputPort<T>\<close>, \<open>own\<close> allocates its copy.
\<close>

definition typed_reader ::
  "('w \<Rightarrow> nat \<Rightarrow> 'v option option) \<Rightarrow> ('v \<Rightarrow> 'w \<Rightarrow> 's \<times> 'w) \<Rightarrow> nat \<Rightarrow> 'w \<Rightarrow>
     (port_value_status \<times> 's option \<times> codec_error option) \<times> 'w" where
  "typed_reader sample own port w =
     (case sample w port of
        None \<Rightarrow> ((PortError, None, Some \<lparr>code = InvalidDataSource, location = []\<rparr>), w)
      | Some None \<Rightarrow> ((WaitingForInitialData, None, None), w)
      | Some (Some v) \<Rightarrow> (case own v w of (s, w') \<Rightarrow> ((PortValue, Some s, None), w')))"

text \<open>
  A member that is missing, or that changed its type, is a failure that writes no error, and so is
  a call of \<open>VoidCodec\<close> without a result.
\<close>

lemma missing_member_silent:
  "part_of rtt ty w s name = None \<Longrightarrow> part_json rtt w ty s name mty f c = (Fail None, c)"
  by (simp add: part_json_def failing_eq)

section \<open>What every codec keeps\<close>

text \<open>
  The contract of \<open>TypeCodec\<close>: a conversion to JSON keeps the context balanced, writes its result
  only on success and never moves it to another resource; a conversion from JSON keeps the
  context balanced.  The codecs of other code are taken to satisfy it (\<open>others_ok\<close>).
\<close>

definition contained :: "(json_result \<Rightarrow> codec_context \<Rightarrow> unit res \<times> json_result \<times> codec_context) \<Rightarrow> bool" where
  "contained f \<longleftrightarrow> (\<forall>result c r result' c'. f result c = (r, result', c') \<longrightarrow> kept c c' \<and>
     (case r of Ok u \<Rightarrow> map_option fst result' = map_option fst result | Fail e \<Rightarrow> result' = result))"

definition make_kept :: "('w, 'a) maker \<Rightarrow> bool" where
  "make_kept m \<longleftrightarrow> (\<forall>c w r c' w'. m c w = (r, c', w') \<longrightarrow> kept c c')"

definition others_ok :: "('w, 's) rtt_sources \<Rightarrow> bool" where
  "others_ok rtt \<longleftrightarrow> (\<forall>n w src. contained (other_toJson rtt n w src)) \<and> (\<forall>n j. make_kept (other_make rtt n j))"

lemma containedD: "contained f \<Longrightarrow> f result c = (r, result', c') \<Longrightarrow> kept c c' \<and>
     (case r of Ok u \<Rightarrow> map_option fst result' = map_option fst result | Fail e \<Rightarrow> result' = result)"
  unfolding contained_def by blast

lemma fst_replaced [simp]: "map_option fst (map_option (\<lambda>(store, old). (store, j)) result) = map_option fst result"
  by (cases result) auto

lemma contained_deliver: "balanced m \<Longrightarrow> contained (deliver m)"
  by (auto simp: contained_def deliver_def split: prod.splits res.splits dest: balancedD)

lemma balanced_staged_json [depth_intros]: "contained f \<Longrightarrow> balanced (staged_json f)"
  by (rule balancedI) (auto simp: staged_json_def split: prod.splits res.splits dest: containedD)

lemma balanced_part_json [depth_intros]:
  "(\<And>src. contained (f src)) \<Longrightarrow> balanced (part_json rtt w ty s name mty f)"
  unfolding part_json_def by (auto intro!: depth_intros split: option.splits)

lemma balanced_sequence_json [depth_intros]:
  "(\<And>src. contained (f src)) \<Longrightarrow> balanced (sequence_json rtt w ty len ety f s)"
  unfolding sequence_json_def by (auto intro!: depth_intros split: option.splits)

lemma contained_reflected:
  assumes "\<And>s. balanced (body s)"
  shows "contained (reflected_json rtt w ty body src)"
proof -
  have "balanced (scoped (\<lambda>c. if \<not> reflected_guard rtt w ty src result c then (codecFailure InvalidDataSource, c)
       else bind_codec (account 2) (\<lambda>_. body (the src)) c))" for result
  proof (intro depth_intros)
    have "balanced (bind_codec (account 2) (\<lambda>_. body (the src)))" by (intro depth_intros assms)
    then show "balanced (\<lambda>c. if \<not> reflected_guard rtt w ty src result c then (codecFailure InvalidDataSource, c)
       else bind_codec (account 2) (\<lambda>_. body (the src)) c)"
      by (intro balancedI) (auto dest: balancedD split: if_splits)
  qed
  from containedD [OF contained_deliver [OF this]] show ?thesis
    by (simp add: contained_def reflected_json_def)
qed

lemma contained_typed:
  assumes "\<And>v. balanced (enc v)"
  shows "contained (typed_toJson enc src)"
proof -
  have "kept c c' \<and> (case r of Ok u \<Rightarrow> map_option fst result' = map_option fst result | Fail e \<Rightarrow> result' = result)"
    if "typed_toJson enc src result c = (r, result', c')" for result c r result' c'
    using that
    by (auto simp: typed_toJson_def split: option.splits if_splits prod.splits res.splits
        dest: balancedD [OF assms])
  then show ?thesis by (simp add: contained_def)
qed

lemma balanced_encode_value: "balanced (encode_value t v)"
  by (induction t arbitrary: v) (auto intro!: depth_intros split: cpp_value.split)

lemma toJson_contained:
  "others_ok rtt \<longrightarrow> (\<forall>src. contained (toJson rtt w cd src))"
  "others_ok rtt \<longrightarrow> (\<forall>s built. balanced (members_json rtt w ty ms s built))"
proof (induction rtt w cd and rtt w ty ms rule: toJson_members_json.induct)
  case (1 rtt w t)
  show ?case by (simp add: contained_typed balanced_encode_value)
next
  case (2 rtt w)
  have "contained (deliver (bind_codec (account 4) (\<lambda>_. return JNull)))"
    by (intro contained_deliver depth_intros)
  then show ?case by (auto simp: contained_def void_toJson_def)
next
  case (3 rtt w ty len ety cd rd)
  then show ?case by (auto intro!: contained_reflected depth_intros)
next
  case (4 rtt w ty ms rd)
  then show ?case by (auto intro!: contained_reflected depth_intros)
next
  case (5 rtt w n)
  show ?case by (simp add: others_ok_def)
next
  case (6 rtt w ty)
  show ?case by simp
next
  case (7 rtt w ty name mty cd ms)
  then show ?case by (auto intro!: depth_intros)
qed

lemma make_kept_bind [intro]: "make_kept m \<Longrightarrow> (\<And>x. make_kept (f x)) \<Longrightarrow> make_kept (make_bind m f)"
  unfolding make_kept_def make_bind_def
  by (fastforce split: prod.splits res.splits intro: kept_trans)

lemma make_kept_simps [simp]:
  "make_kept (make_return r)" "make_kept (make_do g)" "make_kept (make_try h)" "make_kept (make_read k)"
  by (auto simp: make_kept_def make_return_def make_do_def make_try_def make_read_def split: prod.splits)

lemma make_kept_codec [intro]: "balanced m \<Longrightarrow> make_kept (make_codec m)"
  by (auto simp: make_kept_def make_codec_def split: prod.splits dest: balancedD)

lemma make_kept_scoped [intro]: "make_kept m \<Longrightarrow> make_kept (make_scoped m)"
  by (fastforce simp: make_kept_def make_scoped_def enter_def leave_def codecFailure_def codecFailureAt_def
        kept_def split: prod.splits res.splits if_splits)

lemma make_kept_elements: "(\<And>j. make_kept (mk j)) \<Longrightarrow> make_kept (fill_elements rtt ty s cd mk i js)"
  by (induction js arbitrary: i) (auto intro!: make_kept_bind)

lemma make_kept_staged [intro]: "(\<And>s. make_kept (fill s)) \<Longrightarrow> make_kept (staged_value rtt ty fill)"
  unfolding staged_value_def by (auto intro!: make_kept_bind split: option.split)

lemma make_kept_sequence: "(\<And>j. make_kept (mk j)) \<Longrightarrow> make_kept (make_sequence rtt ty len cd mk j)"
  unfolding make_sequence_def resize_staged_def
  by (auto intro!: make_kept_scoped make_kept_staged make_kept_codec make_kept_bind make_kept_elements
      split: json.split)

lemma makeDataSource_kept:
  "others_ok rtt \<longrightarrow> (\<forall>j. make_kept (makeDataSource rtt cd j))"
  "others_ok rtt \<longrightarrow> (\<forall>obj s. make_kept (fill_members rtt ty ms obj s))"
proof (induction rtt cd and rtt ty ms rule: makeDataSource_fill_members.induct)
  case (1 rtt t)
  have "balanced (decode_value t j)" for j
    by (induction t arbitrary: j) (auto intro!: depth_intros simp: wrapped_def)
  then show ?case by (auto intro!: make_kept_bind make_kept_codec)
next
  case (3 rtt ty len ety cd rd)
  then show ?case by (auto intro: make_kept_sequence)
next
  case (4 rtt ty ms rd)
  then show ?case by (auto intro!: make_kept_scoped make_kept_bind make_kept_staged)
next
  case (5 rtt n)
  show ?case by (simp add: others_ok_def)
next
  case (7 rtt ty name mty cd ms)
  then show ?case by (auto intro!: make_kept_bind)
qed simp_all

lemma find_all_present:
  assumes "find (\<lambda>name. member obj name = None) names = None"
  shows "set names \<subseteq> fst ` set obj"
proof
  fix name assume "name \<in> set names"
  with assms have "member obj name \<noteq> None" by (auto simp: find_None_iff)
  then show "name \<in> fst ` set obj" by (simp add: map_of_eq_None_iff)
qed

lemma check_members_Ok:
  assumes "distinct names" "check_members names j = Ok obj"
  shows "j = JObject obj \<and> fst ` set obj = set names"
proof -
  from assms(2) have obj: "j = JObject obj" "length obj = length names"
    "find (\<lambda>name. member obj name = None) names = None"
    by (auto simp: check_members_def codecFailure_def codecFailureAt_def
        split: json.splits if_splits option.splits)
  have "card (fst ` set obj) \<le> card (set names)"
    using card_image_le [of "set obj" fst] card_length [of obj] obj(2) distinct_card [OF assms(1)]
    by simp
  with find_all_present [OF obj(3)] have "set names = fst ` set obj"
    by (intro card_seteq) auto
  with obj(1) show ?thesis by simp
qed

section \<open>A small RTT\<close>

text \<open>
  A structure type 5 with the member \<open>x\<close> of the type 3: the live value 0 with its part 1, the
  staged value 10 with its part 11, and the cell 20 for an owned number.
\<close>

definition small_rtt :: "(nat \<Rightarrow> cpp_value, nat) rtt_sources" where
  "small_rtt =
     \<lparr>source_type = (\<lambda>s. Some (if s = 0 \<or> s = 10 then 5 else 3)), source_evaluates = (\<lambda>w s. True),
      source_assignable = (\<lambda>s. True),
      source_view = (\<lambda>t w s. \<lparr>content = (if s = 0 \<or> s = 10 then None else Some (w s)), evaluates = True, writable = True\<rparr>),
      source_store = (\<lambda>t s v w. w(s := v)), source_update = (\<lambda>d s w. (True, w(Suc d := w (Suc s)))),
      source_int = (\<lambda>w s. None), own_value = (\<lambda>t v w. (20, w(20 := v))),
      part_of = (\<lambda>ty w s name. if ty = 5 \<and> name = ''x'' then Some (Suc s) else None),
      new_value = (\<lambda>ty w. (Some 10, w)), set_length = (\<lambda>ty s n w. (False, w)), port_sample = (\<lambda>t w p. None),
      retained = (\<lambda>r p w. ((PortValue, Some 0, None), w)),
      other_toJson = (\<lambda>n w src result c. (Fail None, result, c)), other_make = (\<lambda>n j c w. (Fail None, c, w)),
      other_assign = (\<lambda>n s d w. (Fail None, w)), other_portValue = (\<lambda>n p result c w. ((PortError, None, result, c), w)),
      other_supports = (\<lambda>n. False)\<rparr>"

definition point_codec :: codec_object where
  "point_codec = StructureCodec 5 [(''x'', 3, TypedCodec (IntType \<lparr>bits = 32, signed = True\<rparr>))] None"

lemma small_others: "others_ok small_rtt"
  by (simp add: others_ok_def small_rtt_def contained_def make_kept_def)

section \<open>Properties of the codecs\<close>

text \<open>
  C26: whatever the codec, built in or composed by reflection, and whatever RTT's sources hold, a
  conversion to JSON ends at the nesting depth it started at with no more budget, and it writes
  its result only when it succeeds as a whole; a conversion from JSON keeps the context likewise.
\<close>

theorem conversions_contained:
  assumes "others_ok rtt"
  shows "(case toJson rtt w cd src result c of (r, result', c') \<Rightarrow>
      kept c c' \<and> (case r of Ok u \<Rightarrow> map_option fst result' = map_option fst result | Fail e \<Rightarrow> result' = result))
    \<and> (case makeDataSource rtt cd j c w of (r, c', w') \<Rightarrow> kept c c')"
proof -
  have "kept c c' \<and> (case r of Ok u \<Rightarrow> map_option fst result' = map_option fst result | Fail e \<Rightarrow> result' = result)"
    if "toJson rtt w cd src result c = (r, result', c')" for r result' c'
    using that toJson_contained(1) [of rtt w cd] assms by (auto dest: containedD)
  moreover have "kept c c'" if "makeDataSource rtt cd j c w = (r, c', w')" for r c' w'
    using that makeDataSource_kept(1) [of rtt cd] assms unfolding make_kept_def by blast
  ultimately show ?thesis by (simp split: prod.split)
qed

lemma conversions_contained_witness:
  "toJson small_rtt (\<lambda>_. VInt 7) point_codec (Some 0) (Some (1, JNull)) roomy_context =
     (Ok (), Some (1, JObject [(''x'', JInt64 7)]), roomy_context\<lparr>remaining := 92\<rparr>)
   \<and> kept roomy_context (roomy_context\<lparr>remaining := 92\<rparr>)"
proof -
  have run: "toJson small_rtt (\<lambda>_. VInt 7) point_codec (Some 0) (Some (1, JNull)) roomy_context =
     (Ok (), Some (1, JObject [(''x'', JInt64 7)]), roomy_context\<lparr>remaining := 92\<rparr>)"
    by code_simp
  then show ?thesis
    using conversions_contained [OF small_others, where w = "\<lambda>_. VInt 7" and cd = point_codec
        and src = "Some 0" and result = "Some (1, JNull)" and c = roomy_context]
    by simp
qed

text \<open>
  A structure is decoded from an object with exactly its members: any other body is refused
  before RTT is asked for a value, and leaves RTT's state alone.
\<close>

theorem structure_members_exact:
  assumes "distinct (map fst ms)"
  shows "(\<exists>obj. j = JObject obj \<and> fst ` set obj = set (map fst ms))
    \<or> (\<exists>e c'. makeDataSource rtt (StructureCodec ty ms rd) j c w = (Fail e, c', w))"
proof (cases "check_members (map fst ms) j")
  case (Ok obj)
  with check_members_Ok [OF assms] show ?thesis by blast
next
  case (Fail e)
  then show ?thesis
    by (auto simp: make_scoped_def make_bind_def make_return_def enter_def codecFailure_def codecFailureAt_def)
qed

lemma structure_members_exact_witness:
  "\<forall>w. \<exists>e c'. makeDataSource small_rtt (StructureCodec 5 [(''x'', 3, VoidCodec)] None)
     (JObject [(''y'', JNull)]) roomy_context w = (Fail e, c', w)"
proof
  fix w
  show "\<exists>e c'. makeDataSource small_rtt (StructureCodec 5 [(''x'', 3, VoidCodec)] None)
     (JObject [(''y'', JNull)]) roomy_context w = (Fail e, c', w)"
    using structure_members_exact [of "[(''x'', 3, VoidCodec)]" "JObject [(''y'', JNull)]" small_rtt 5 None
        roomy_context w]
    by simp
qed

end
