(* ===== verification/Codec_Roundtrip.thy ===== *)
theory Codec_Roundtrip
  imports Codec_Object
begin

text \<open>
  What a codec has read it can write back: the JSON that \<open>toJson\<close> gives for a value is accepted
  by \<open>makeDataSource\<close> of the same codec, which builds the value apart from everything that exists,
  and after \<open>assign\<close> the destination shows what the source showed.

  RTT's values are trees of named parts, and a data source denotes a place in one of them.
  \<open>rtt_memory\<close> states what the codecs rely on of that memory: \<open>getMember\<close> gives the place of a
  part, reads depend on the value at the place, a write replaces that value and nothing else, and
  an allocation gives a place of its own.
\<close>

section \<open>Values and places\<close>

text \<open>
  A value has a type, the content that the codec of a C++ type sees, and its parts; the flag of a
  part says whether RTT lets it be assigned (the size of a sequence it does not).
\<close>

datatype rtt_value =
  RttValue (rtt_type: nat) (rtt_scalar: "(cpp_type \<times> cpp_value) option") (rtt_parts: "(string \<times> bool \<times> rtt_value) list")

definition part :: "rtt_value \<Rightarrow> string \<Rightarrow> rtt_value option" where
  "part v name = map_option snd (map_of (rtt_parts v) name)"

definition set_part :: "string \<Rightarrow> rtt_value \<Rightarrow> rtt_value \<Rightarrow> rtt_value" where
  "set_part name u v = RttValue (rtt_type v) (rtt_scalar v)
     (map (\<lambda>(n, b, p). if n = name then (n, b, u) else (n, b, p)) (rtt_parts v))"

definition set_scalar :: "cpp_type \<Rightarrow> cpp_value \<Rightarrow> rtt_value \<Rightarrow> rtt_value" where
  "set_scalar t x v = RttValue (rtt_type v) (Some (t, x)) (rtt_parts v)"

fun at :: "string list \<Rightarrow> rtt_value \<Rightarrow> rtt_value option" where
  "at [] v = Some v"
| "at (name # path) v = Option.bind (part v name) (at path)"

fun put_at :: "string list \<Rightarrow> rtt_value \<Rightarrow> rtt_value \<Rightarrow> rtt_value" where
  "put_at [] u v = u"
| "put_at (name # path) u v =
     (case part v name of None \<Rightarrow> v | Some p \<Rightarrow> set_part name (put_at path u p) v)"

fun well_typed :: "rtt_value \<Rightarrow> bool" where
  "well_typed (RttValue ty x ps) \<longleftrightarrow>
     (case x of None \<Rightarrow> True | Some (t, y) \<Rightarrow> has_type t y) \<and> list_all (\<lambda>(name, b, p). well_typed p) ps"

definition scalar_as :: "cpp_type \<Rightarrow> rtt_value \<Rightarrow> cpp_value option" where
  "scalar_as t v = (case rtt_scalar v of None \<Rightarrow> None | Some (t', x) \<Rightarrow> if t' = t then Some x else None)"

definition int_content :: "rtt_value \<Rightarrow> int option" where
  "int_content v = (case rtt_scalar v of
     Some (IntType t, VInt n) \<Rightarrow> if bits t = 32 \<and> signed t then Some n else None
   | _ \<Rightarrow> None)"

lemma set_part_keeps [simp]: "rtt_type (set_part name u v) = rtt_type v" "rtt_scalar (set_part name u v) = rtt_scalar v"
  by (simp_all add: set_part_def)

lemma map_of_set_part:
  "map_of (map (\<lambda>(n, b, p). if n = name then (n, b, u) else (n, b, p)) ps) n =
     (if n = name then map_option (\<lambda>(b, p). (b, u)) (map_of ps n) else map_of ps n)"
  by (induction ps) auto

lemma lookup_set_part: "map_of (rtt_parts (set_part name u v)) n =
     (if n = name then map_option (\<lambda>(b, p). (b, u)) (map_of (rtt_parts v) n) else map_of (rtt_parts v) n)"
  by (simp add: set_part_def map_of_set_part)

lemma part_set_part:
  "part (set_part name u v) n = (if n = name then map_option (\<lambda>p. u) (part v n) else part v n)"
  by (auto simp: part_def lookup_set_part option.map_comp o_def split_beta intro!: option.map_cong)

lemma at_put: "at path v \<noteq> None \<Longrightarrow> at path (put_at path u v) = Some u"
  by (induction path arbitrary: v) (auto simp: part_set_part split: option.splits bind_splits)

lemma well_typed_part: "well_typed v \<Longrightarrow> part v name = Some p \<Longrightarrow> well_typed p"
  by (cases v) (fastforce simp: part_def list_all_iff dest: map_of_SomeD)

lemma well_typed_scalar: "well_typed v \<Longrightarrow> scalar_as t v = Some x \<Longrightarrow> has_type t x"
  by (cases v) (auto simp: scalar_as_def split: option.splits if_splits)

lemma int_content_bound: "well_typed v \<Longrightarrow> int_content v = Some n \<Longrightarrow> n \<le> int int_max"
  by (cases v) (auto simp: int_content_def in_range_def imax_def int_max_def split: option.splits cpp_type.splits cpp_value.splits if_splits)

section \<open>What is relied on of RTT\<close>

text \<open>
  \<open>memory_of\<close> is the value of each allocated object, \<open>place_of\<close> the object and the path that a
  source denotes, \<open>built_of\<close> the default value of a type, \<open>resized\<close> a value after a change of its
  length.
\<close>

record ('w, 's) memory_view =
  memory_of :: "'w \<Rightarrow> nat \<Rightarrow> rtt_value option"
  place_of :: "'s \<Rightarrow> nat \<times> string list"
  built_of :: "nat \<Rightarrow> rtt_value option"
  resized :: "rtt_value \<Rightarrow> nat \<Rightarrow> rtt_value option"

definition denotes :: "('w, 's) rtt_sources \<Rightarrow> ('w, 's) memory_view \<Rightarrow> 'w \<Rightarrow> 's \<Rightarrow> rtt_value \<Rightarrow> bool" where
  "denotes rtt mv w s v \<longleftrightarrow>
     Option.bind (memory_of mv w (fst (place_of mv s))) (at (snd (place_of mv s))) = Some v
     \<and> source_type rtt s = Some (rtt_type v)"

text \<open>The object of a source after its place was written, the other objects being as before.\<close>

definition written :: "('w, 's) memory_view \<Rightarrow> 'w \<Rightarrow> 's \<Rightarrow> rtt_value \<Rightarrow> 'w \<Rightarrow> bool" where
  "written mv w d u w' \<longleftrightarrow> (case place_of mv d of (r, path) \<Rightarrow>
     memory_of mv w' = (memory_of mv w)(r := map_option (put_at path u) (memory_of mv w r)))"

definition allocated :: "('w, 's) rtt_sources \<Rightarrow> ('w, 's) memory_view \<Rightarrow> 'w \<Rightarrow> 's \<Rightarrow> rtt_value \<Rightarrow> 'w \<Rightarrow> bool" where
  "allocated rtt mv w s u w' \<longleftrightarrow>
     (\<exists>r. place_of mv s = (r, []) \<and> memory_of mv w r = None \<and> memory_of mv w' = (memory_of mv w)(r \<mapsto> u))
     \<and> source_type rtt s = Some (rtt_type u) \<and> source_assignable rtt s"

definition reads_ok :: "('w, 's) rtt_sources \<Rightarrow> ('w, 's) memory_view \<Rightarrow> bool" where
  "reads_ok rtt mv \<longleftrightarrow> (\<forall>w s v. denotes rtt mv w s v \<longrightarrow>
     source_evaluates rtt w s \<and> source_int rtt w s = int_content v
     \<and> (\<forall>t. source_view rtt t w s =
          \<lparr>content = scalar_as t v, evaluates = True, writable = source_assignable rtt s\<rparr>)
     \<and> (\<forall>name. case map_of (rtt_parts v) name of
          None \<Rightarrow> part_of rtt (rtt_type v) w s name = None
        | Some (b, p) \<Rightarrow> \<exists>m. part_of rtt (rtt_type v) w s name = Some m
            \<and> place_of mv m = (fst (place_of mv s), snd (place_of mv s) @ [name])
            \<and> source_type rtt m = Some (rtt_type p)
            \<and> source_assignable rtt m = (b \<and> source_assignable rtt s)))"

definition writes_ok :: "('w, 's) rtt_sources \<Rightarrow> ('w, 's) memory_view \<Rightarrow> bool" where
  "writes_ok rtt mv \<longleftrightarrow> (\<forall>w d u. denotes rtt mv w d u \<longrightarrow> source_assignable rtt d \<longrightarrow>
     (\<forall>t x. scalar_as t u \<noteq> None \<longrightarrow> written mv w d (set_scalar t x u) (source_store rtt t d x w))
     \<and> (\<forall>s v. denotes rtt mv w s v \<longrightarrow> rtt_type v = rtt_type u \<longrightarrow>
          (\<exists>w'. source_update rtt d s w = (True, w') \<and> written mv w d v w'))
     \<and> (\<forall>n v. resized mv u n = Some v \<longrightarrow>
          (\<exists>w'. set_length rtt (rtt_type u) d (int n) w = (True, w') \<and> written mv w d v w')))"

definition allocates_ok :: "('w, 's) rtt_sources \<Rightarrow> ('w, 's) memory_view \<Rightarrow> bool" where
  "allocates_ok rtt mv \<longleftrightarrow>
     (\<forall>t x w. \<exists>s w' u. own_value rtt t x w = (s, w') \<and> allocated rtt mv w s u w' \<and> rtt_scalar u = Some (t, x))
     \<and> (\<forall>ty w u. built_of mv ty = Some u \<longrightarrow> rtt_type u = ty \<longrightarrow>
          (\<exists>s w'. new_value rtt ty w = (Some s, w') \<and> allocated rtt mv w s u w'))"

definition rtt_memory :: "('w, 's) rtt_sources \<Rightarrow> ('w, 's) memory_view \<Rightarrow> bool" where
  "rtt_memory rtt mv \<longleftrightarrow> reads_ok rtt mv \<and> writes_ok rtt mv \<and> allocates_ok rtt mv"

text \<open>
  A codec fits the types it was registered for when the default value of a type has the members
  with their types, or the elements of its length or of every length it can be given.
\<close>

fun suits :: "codec_object \<Rightarrow> rtt_value \<Rightarrow> bool" where
  "suits (TypedCodec t) v \<longleftrightarrow> scalar_as t v \<noteq> None"
| "suits (SequenceCodec ty len ety cd rd) v \<longleftrightarrow> rtt_type v = ty"
| "suits (StructureCodec ty ms rd) v \<longleftrightarrow> rtt_type v = ty"
| "suits cd v \<longleftrightarrow> False"

definition ready_part :: "rtt_value \<Rightarrow> string \<Rightarrow> nat \<Rightarrow> codec_object \<Rightarrow> bool" where
  "ready_part v name mty cd \<longleftrightarrow> (case map_of (rtt_parts v) name of
     Some (True, p) \<Rightarrow> rtt_type p = mty \<and> suits cd p
   | _ \<Rightarrow> False)"

definition ready_elements :: "rtt_value \<Rightarrow> nat \<Rightarrow> codec_object \<Rightarrow> nat \<Rightarrow> bool" where
  "ready_elements v ety cd n \<longleftrightarrow> Option.bind (part v ''size'') int_content = Some (int n)
     \<and> (\<forall>i < n. ready_part v (to_chars (int i)) ety cd)"

definition ready_sequence :: "('w, 's) memory_view \<Rightarrow> nat \<Rightarrow> nat option \<Rightarrow> nat \<Rightarrow> codec_object \<Rightarrow> rtt_value \<Rightarrow> bool" where
  "ready_sequence mv ty len ety cd v \<longleftrightarrow> rtt_type v = ty \<and> (case len of
     Some n \<Rightarrow> ready_elements v ety cd n
   | None \<Rightarrow> (\<forall>n \<le> int_max. case resized mv v n of
         None \<Rightarrow> False
       | Some v' \<Rightarrow> rtt_type v' = ty \<and> ready_elements v' ety cd n))"

fun fits :: "('w, 's) memory_view \<Rightarrow> codec_object \<Rightarrow> bool" where
  "fits mv (TypedCodec t) \<longleftrightarrow> cpp_type_ok t"
| "fits mv (SequenceCodec ty len ety cd rd) \<longleftrightarrow> fits mv cd
     \<and> (case built_of mv ty of None \<Rightarrow> False | Some v \<Rightarrow> ready_sequence mv ty len ety cd v)"
| "fits mv (StructureCodec ty ms rd) \<longleftrightarrow> list_all (\<lambda>(name, mty, cd). fits mv cd) ms \<and> distinct (map fst ms)
     \<and> (case built_of mv ty of None \<Rightarrow> False
        | Some v \<Rightarrow> rtt_type v = ty \<and> list_all (\<lambda>(name, mty, cd). ready_part v name mty cd) ms)"
| "fits mv cd \<longleftrightarrow> False"

section \<open>The JSON of a value\<close>

text \<open>\<open>toJson\<close> as a function of the value alone.\<close>

definition part_value :: "rtt_value \<Rightarrow> string \<Rightarrow> nat \<Rightarrow> (rtt_value \<Rightarrow> json codec) \<Rightarrow> json codec" where
  "part_value v name mty f = (case part v name of
     None \<Rightarrow> failing (Fail None)
   | Some p \<Rightarrow> if rtt_type p \<noteq> mty then failing (Fail None) else f p)"

definition reflected_value :: "nat \<Rightarrow> (rtt_value \<Rightarrow> json codec) \<Rightarrow> rtt_value \<Rightarrow> json codec" where
  "reflected_value ty body v = scoped
     (if rtt_type v \<noteq> ty then failing (codecFailure InvalidDataSource)
      else bind_codec (account 2) (\<lambda>_. body v))"

definition sequence_value :: "nat option \<Rightarrow> nat \<Rightarrow> (rtt_value \<Rightarrow> json codec) \<Rightarrow> rtt_value \<Rightarrow> json codec" where
  "sequence_value len ety f v =
     (case Option.bind (part v ''size'') int_content of
        None \<Rightarrow> failing (codecFailure InvalidDataSource)
      | Some count \<Rightarrow>
          if count < 0 \<or> (len \<noteq> None \<and> len \<noteq> Some (nat count)) then failing (codecFailure InvalidDataSource)
          else bind_codec (account (nat count)) (\<lambda>_.
            bind_codec (map_codec (\<lambda>i. part_value v (to_chars (int i)) ety f) [0..<nat count])
              (\<lambda>js. return (JArray js))))"

fun value_json :: "codec_object \<Rightarrow> rtt_value \<Rightarrow> json codec"
  and value_members :: "(string \<times> nat \<times> codec_object) list \<Rightarrow> rtt_value \<Rightarrow> (string \<times> json) list \<Rightarrow> (string \<times> json) list codec" where
  "value_json (TypedCodec t) = (\<lambda>v. case scalar_as t v of
     None \<Rightarrow> failing (codecFailure InvalidDataSource)
   | Some x \<Rightarrow> encode_value t x)"
| "value_json VoidCodec = (\<lambda>v. bind_codec (account 4) (\<lambda>_. return JNull))"
| "value_json (SequenceCodec ty len ety cd rd) = reflected_value ty (sequence_value len ety (value_json cd))"
| "value_json (StructureCodec ty ms rd) =
     reflected_value ty (\<lambda>v. bind_codec (value_members ms v []) (\<lambda>obj. return (JObject obj)))"
| "value_json (OtherCodec n) = (\<lambda>v. failing (Fail None))"
| "value_members [] = (\<lambda>v built. return built)"
| "value_members ((name, mty, cd) # ms) = (\<lambda>v built.
     bind_codec (accountJsonString name) (\<lambda>_.
     bind_codec (account 2) (\<lambda>_.
     bind_codec (part_value v name mty (value_json cd)) (\<lambda>j.
     value_members ms v (object_emplace name j built)))))"

section \<open>Reading\<close>

lemma readsD:
  assumes "reads_ok rtt mv" "denotes rtt mv w s v"
  shows "source_evaluates rtt w s" "source_int rtt w s = int_content v"
    "source_view rtt t w s = \<lparr>content = scalar_as t v, evaluates = True, writable = source_assignable rtt s\<rparr>"
  using assms unfolding reads_ok_def by blast+

lemma at_append: "at (path @ [name]) v = Option.bind (at path v) (\<lambda>u. part u name)"
  by (induction path arbitrary: v) (auto split: bind_splits)

lemma part_denotes:
  assumes "reads_ok rtt mv" "denotes rtt mv w s v" "map_of (rtt_parts v) name = Some (b, p)"
  obtains m where "part_of rtt (rtt_type v) w s name = Some m" "denotes rtt mv w m p"
    "place_of mv m = (fst (place_of mv s), snd (place_of mv s) @ [name])"
    "source_assignable rtt m = (b \<and> source_assignable rtt s)"
proof -
  from assms obtain m where m: "part_of rtt (rtt_type v) w s name = Some m"
    "place_of mv m = (fst (place_of mv s), snd (place_of mv s) @ [name])"
    "source_type rtt m = Some (rtt_type p)" "source_assignable rtt m = (b \<and> source_assignable rtt s)"
    unfolding reads_ok_def by (fastforce split: option.splits prod.splits)
  moreover have "denotes rtt mv w m p"
    using assms(2,3) m by (auto simp: denotes_def at_append part_def bind_eq_Some_conv)
  ultimately show ?thesis using that by blast
qed

lemma part_missing:
  assumes "reads_ok rtt mv" "denotes rtt mv w s v" "map_of (rtt_parts v) name = None"
  shows "part_of rtt (rtt_type v) w s name = None"
  using assms unfolding reads_ok_def by (fastforce split: option.splits)

text \<open>A conversion that depends on the value only.\<close>

definition reads_value :: "('w, 's) rtt_sources \<Rightarrow> ('w, 's) memory_view \<Rightarrow> 'w \<Rightarrow>
    ('s option \<Rightarrow> json_result \<Rightarrow> codec_context \<Rightarrow> unit res \<times> json_result \<times> codec_context) \<Rightarrow>
    (rtt_value \<Rightarrow> json codec) \<Rightarrow> bool" where
  "reads_value rtt mv w f g \<longleftrightarrow> (\<forall>s v c result. denotes rtt mv w s v \<longrightarrow> usable_result c result \<longrightarrow>
     f (Some s) result c = deliver (g v) result c)"

lemma reads_valueD:
  "reads_value rtt mv w f g \<Longrightarrow> denotes rtt mv w s v \<Longrightarrow> usable_result c result \<Longrightarrow>
     f (Some s) result c = deliver (g v) result c"
  unfolding reads_value_def by blast

lemma fresh_usable [simp]: "usable_result c (Some (storage c, j))"
  by (simp add: usable_result_def)

lemma staged_value_json:
  assumes "reads_value rtt mv w f g" "denotes rtt mv w s v"
  shows "staged_json (f (Some s)) = g v"
proof
  fix c
  show "staged_json (f (Some s)) c = g v c"
    by (auto simp: staged_json_def reads_valueD [OF assms] deliver_def split: prod.splits res.splits)
qed

lemma part_json_value:
  assumes "reads_ok rtt mv" "reads_value rtt mv w f g" "denotes rtt mv w s v"
  shows "part_json rtt w (rtt_type v) s name mty f = part_value v name mty g"
proof (cases "map_of (rtt_parts v) name")
  case None
  then show ?thesis using part_missing [OF assms(1,3)] by (simp add: part_json_def part_value_def part_def)
next
  case (Some x)
  obtain b p where x: "map_of (rtt_parts v) name = Some (b, p)" using Some by (cases x) simp
  obtain m where m: "part_of rtt (rtt_type v) w s name = Some m" "denotes rtt mv w m p"
    by (rule part_denotes [OF assms(1,3) x])
  have "source_type rtt m = Some (rtt_type p)" using m(2) by (simp add: denotes_def)
  with m x staged_value_json [OF assms(2) m(2)] show ?thesis
    by (simp add: part_json_def part_value_def part_def)
qed

lemma sequence_json_value:
  assumes "reads_ok rtt mv" "reads_value rtt mv w f g" "denotes rtt mv w s v"
  shows "sequence_json rtt w (rtt_type v) len ety f s = sequence_value len ety g v"
proof -
  have "Option.bind (part_of rtt (rtt_type v) w s ''size'') (source_int rtt w) = Option.bind (part v ''size'') int_content"
  proof (cases "map_of (rtt_parts v) ''size''")
    case None
    then show ?thesis using part_missing [OF assms(1,3)] by (simp add: part_def)
  next
    case (Some x)
    obtain b p where x: "map_of (rtt_parts v) ''size'' = Some (b, p)" using Some by (cases x) simp
    obtain m where "part_of rtt (rtt_type v) w s ''size'' = Some m" "denotes rtt mv w m p"
      by (rule part_denotes [OF assms(1,3) x])
    with x readsD(2) [OF assms(1)] show ?thesis by (simp add: part_def)
  qed
  then show ?thesis
    by (auto simp: sequence_json_def sequence_value_def part_json_value [OF assms] split: option.split)
qed

lemma reflected_json_value:
  assumes "reads_ok rtt mv" "\<And>s v. denotes rtt mv w s v \<Longrightarrow> rtt_type v = ty \<Longrightarrow> body s = body' v"
  shows "reads_value rtt mv w (reflected_json rtt w ty body) (reflected_value ty body')"
proof -
  have "reflected_json rtt w ty body (Some s) result c = deliver (reflected_value ty body' v) result c"
    if s: "denotes rtt mv w s v" and usable: "usable_result c result" for s v c result
  proof -
    have usable': "usable_result c1 result" if "enter c = (Ok u, c1)" for u c1
      using that usable by (auto simp: codec_simps usable_result_def split: option.splits)
    have "source_type rtt s = Some (rtt_type v)" "source_evaluates rtt w s"
      using s readsD(1) [OF assms(1) s] by (auto simp: denotes_def)
    then have "scoped (\<lambda>c. if \<not> reflected_guard rtt w ty (Some s) result c then (codecFailure InvalidDataSource, c)
         else bind_codec (account 2) (\<lambda>_. body (the (Some s))) c) c = reflected_value ty body' v c"
      using assms(2) [OF s] usable'
      by (auto simp: scoped_def reflected_value_def reflected_guard_def failing_def split: prod.splits res.splits)
    then show ?thesis by (simp add: reflected_json_def deliver_def)
  qed
  then show ?thesis by (simp add: reads_value_def)
qed

fun own_codec :: "codec_object \<Rightarrow> bool" where
  "own_codec (SequenceCodec ty len ety cd rd) = own_codec cd"
| "own_codec (StructureCodec ty ms rd) = list_all (\<lambda>(name, mty, cd). own_codec cd) ms"
| "own_codec (OtherCodec n) = False"
| "own_codec cd = True"

lemma toJson_reads_value:
  "reads_ok rtt mv \<longrightarrow> own_codec cd \<longrightarrow> reads_value rtt mv w (toJson rtt w cd) (value_json cd)"
  "reads_ok rtt mv \<longrightarrow> list_all (\<lambda>(name, mty, cd). own_codec cd) ms \<longrightarrow>
     (\<forall>s v built. denotes rtt mv w s v \<longrightarrow> rtt_type v = ty \<longrightarrow> members_json rtt w ty ms s built = value_members ms v built)"
proof (induction rtt w cd and rtt w ty ms rule: toJson_members_json.induct)
  case (1 rtt w t)
  show ?case
    by (auto simp: reads_value_def typed_toJson_def typed_content_def deliver_def failing_def codecFailure_def
        codecFailureAt_def dest!: readsD(3) [of _ _ _ _ _ t] split: option.splits prod.splits res.splits)
next
  case (2 rtt w)
  show ?case by (auto simp: reads_value_def void_toJson_def usable_result_def)
next
  case (3 rtt w ty len ety cd rd)
  then show ?case using sequence_json_value by (auto intro!: reflected_json_value)
next
  case (4 rtt w ty ms rd)
  then show ?case by (auto intro!: reflected_json_value)
next
  case (5 rtt w n)
  show ?case by simp
next
  case (6 rtt w ty)
  show ?case by simp
next
  case (7 rtt w ty name mty cd ms)
  then show ?case using part_json_value by fastforce
qed

section \<open>Writing\<close>

definition extends :: "('w, 's) memory_view \<Rightarrow> 'w \<Rightarrow> 'w \<Rightarrow> bool" where
  "extends mv w w' \<longleftrightarrow> (\<forall>r. memory_of mv w r \<noteq> None \<longrightarrow> memory_of mv w' r = memory_of mv w r)"

definition extends_but :: "('w, 's) memory_view \<Rightarrow> nat \<Rightarrow> 'w \<Rightarrow> 'w \<Rightarrow> bool" where
  "extends_but mv r w w' \<longleftrightarrow>
     (\<forall>r'. r' \<noteq> r \<longrightarrow> memory_of mv w r' \<noteq> None \<longrightarrow> memory_of mv w' r' = memory_of mv w r')"

lemma extends_but_refl [simp]: "extends_but mv r w w"
  by (simp add: extends_but_def)

lemma extends_but_trans: "extends_but mv r w w1 \<Longrightarrow> extends_but mv r w1 w2 \<Longrightarrow> extends_but mv r w w2"
  unfolding extends_but_def by (intro allI impI) simp

lemma extends_but [intro]: "extends mv w w1 \<Longrightarrow> extends_but mv r w w1"
  by (simp add: extends_def extends_but_def)

lemma extends_denotes: "extends mv w w1 \<Longrightarrow> denotes rtt mv w s v \<Longrightarrow> denotes rtt mv w1 s v"
  unfolding extends_def denotes_def by (auto simp: bind_eq_Some_conv)

lemma written_denotes:
  assumes "denotes rtt mv w d u" "written mv w d q w'" "rtt_type q = rtt_type u"
  shows "denotes rtt mv w' d q"
proof -
  obtain r path where d: "place_of mv d = (r, path)" by fastforce
  with assms(1) obtain t where "memory_of mv w r = Some t" "at path t = Some u"
    by (auto simp: denotes_def bind_eq_Some_conv)
  with assms d at_put [of path t q] show ?thesis by (simp add: denotes_def written_def)
qed

lemma written_extends_but: "written mv w d q w' \<Longrightarrow> extends_but mv (fst (place_of mv d)) w w'"
  by (auto simp: written_def extends_but_def)

lemma scalar_set_scalar [simp]: "scalar_as t (set_scalar t x u) = Some x" "rtt_type (set_scalar t x u) = rtt_type u"
  by (simp_all add: scalar_as_def set_scalar_def)

text \<open>A source that suits a codec can be assigned to a destination that suits it.\<close>

lemma assigned:
  assumes rtt: "rtt_memory rtt mv" and x: "denotes rtt mv w x v" "suits cd v"
    and d: "denotes rtt mv w d u" "suits cd u" "source_assignable rtt d"
  shows "\<exists>w' q. codec_assign rtt cd (Some x) (Some d) w = (Ok (), w') \<and> written mv w d q w'
    \<and> rtt_type q = rtt_type u \<and> suits cd q \<and> value_json cd q = value_json cd v"
proof (cases cd)
  case (TypedCodec t)
  then obtain y where y: "scalar_as t v = Some y" using x(2) by auto
  have reads: "reads_ok rtt mv" using rtt by (simp add: rtt_memory_def)
  have "codec_assign rtt cd (Some x) (Some d) w = (Ok (), source_store rtt t d y w)"
    using TypedCodec y d(2,3) readsD(3) [OF reads x(1)] readsD(3) [OF reads d(1)]
    by (auto simp: stored_assign_def typed_assign_def typed_content_def)
  moreover have "written mv w d (set_scalar t y u) (source_store rtt t d y w)"
    using rtt d TypedCodec unfolding rtt_memory_def writes_ok_def by (metis suits.simps(1))
  ultimately show ?thesis using TypedCodec y by (intro exI conjI) (assumption, assumption, simp_all)
next
  case (SequenceCodec ty len ety cd' rd)
  then have ty: "rtt_type v = ty" "rtt_type u = ty" using x(2) d(2) by simp_all
  with rtt x d obtain w' where w': "source_update rtt d x w = (True, w')" "written mv w d v w'"
    unfolding rtt_memory_def writes_ok_def by metis
  have "source_type rtt x = Some ty" "source_type rtt d = Some ty" using x(1) d(1) ty by (auto simp: denotes_def)
  with w' d(3) SequenceCodec have "codec_assign rtt cd (Some x) (Some d) w = (Ok (), w')"
    by (simp add: reflected_assign_def)
  with w' ty x(2) show ?thesis by auto
next
  case (StructureCodec ty ms rd)
  then have ty: "rtt_type v = ty" "rtt_type u = ty" using x(2) d(2) by simp_all
  with rtt x d obtain w' where w': "source_update rtt d x w = (True, w')" "written mv w d v w'"
    unfolding rtt_memory_def writes_ok_def by metis
  have "source_type rtt x = Some ty" "source_type rtt d = Some ty" using x(1) d(1) ty by (auto simp: denotes_def)
  with w' d(3) StructureCodec have "codec_assign rtt cd (Some x) (Some d) w = (Ok (), w')"
    by (simp add: reflected_assign_def)
  with w' ty x(2) show ?thesis by auto
qed (use x in simp_all)

text \<open>Any other destination is refused and nothing is written.\<close>

lemma assign_refused:
  assumes rtt: "reads_ok rtt mv" and x: "denotes rtt mv w x v" "suits cd v"
    and d: "denotes rtt mv w d u" "\<not> (source_assignable rtt d \<and> suits cd u)"
  shows "codec_assign rtt cd (Some x) (Some d) w = (codecFailure InvalidDataSource, w)"
  using readsD(3) [OF rtt d(1)] readsD(3) [OF rtt x(1)] d x
  by (cases cd) (auto simp: stored_assign_def typed_assign_def typed_content_def reflected_assign_def denotes_def
      codecFailure_def codecFailureAt_def split: option.splits)

lemma assign_nowhere:
  "suits cd v \<Longrightarrow> codec_assign rtt cd (Some x) None w = (codecFailure InvalidDataSource, w)"
  by (cases cd) (auto simp: stored_assign_def typed_assign_def reflected_assign_def codecFailure_def codecFailureAt_def
      split: option.splits)

lemma assigned_exactly:
  assumes "rtt_memory rtt mv" "denotes rtt mv w x v" "suits cd v" "denotes rtt mv w d u"
  shows "if source_assignable rtt d \<and> suits cd u
    then \<exists>w' q. codec_assign rtt cd (Some x) (Some d) w = (Ok (), w') \<and> written mv w d q w'
      \<and> denotes rtt mv w' d q \<and> value_json cd q = value_json cd v
    else codec_assign rtt cd (Some x) (Some d) w = (codecFailure InvalidDataSource, w)"
proof (cases "source_assignable rtt d \<and> suits cd u")
  case True
  with assigned [OF assms] obtain w' q where
    "codec_assign rtt cd (Some x) (Some d) w = (Ok (), w')" "written mv w d q w'" "rtt_type q = rtt_type u"
    "value_json cd q = value_json cd v" by blast
  with True written_denotes [OF assms(4)] show ?thesis by auto
next
  case False
  moreover have "reads_ok rtt mv" using assms(1) by (simp add: rtt_memory_def)
  ultimately show ?thesis using assign_refused [OF _ assms(2-4)] by auto
qed

definition made_from :: "('w, 's) rtt_sources \<Rightarrow> ('w, 's) memory_view \<Rightarrow> codec_object \<Rightarrow> rtt_value \<Rightarrow> 'w \<Rightarrow> 's \<Rightarrow> 'w \<Rightarrow> bool" where
  "made_from rtt mv cd v w x w1 \<longleftrightarrow> extends mv w w1
     \<and> (\<exists>r v'. place_of mv x = (r, []) \<and> memory_of mv w r = None \<and> denotes rtt mv w1 x v' \<and> suits cd v'
          \<and> value_json cd v' = value_json cd v)"

text \<open>\<open>mk\<close> makes, of the JSON of a value, a source that shows the same.\<close>

definition copies :: "('w, 's) rtt_sources \<Rightarrow> ('w, 's) memory_view \<Rightarrow> codec_object \<Rightarrow> (json \<Rightarrow> ('w, 's) maker) \<Rightarrow> bool" where
  "copies rtt mv cd mk \<longleftrightarrow> (\<forall>v c j c1 d w. well_typed v \<longrightarrow> value_json cd v c = (Ok j, c1) \<longrightarrow> roomy c d \<longrightarrow>
     (\<exists>x d1 w1. mk j d w = (Ok x, d1, w1) \<and> roomy c1 d1 \<and> kept d d1 \<and> made_from rtt mv cd v w x w1))"

lemma copiesD:
  assumes "copies rtt mv cd mk" "well_typed v" "value_json cd v c = (Ok j, c1)" "roomy c d"
  obtains x d1 w1 where "mk j d w = (Ok x, d1, w1)" "roomy c1 d1" "kept d d1" "made_from rtt mv cd v w x w1"
  using assms unfolding copies_def by blast

lemma copies_typed:
  assumes "rtt_memory rtt mv" "cpp_type_ok t"
  shows "copies rtt mv (TypedCodec t) (makeDataSource rtt (TypedCodec t))"
proof -
  have "\<exists>x d1 w1. makeDataSource rtt (TypedCodec t) j d w = (Ok x, d1, w1) \<and> roomy c1 d1 \<and> kept d d1
      \<and> made_from rtt mv (TypedCodec t) v w x w1"
    if v: "well_typed v" and enc: "value_json (TypedCodec t) v c = (Ok j, c1)" and room: "roomy c d" for v c j c1 d w
  proof -
    from enc obtain y where y: "scalar_as t v = Some y" "encode_value t y c = (Ok j, c1)"
      by (auto simp: failing_eq split: option.splits)
    note conv = conversion_value [OF assms(2)]
    from conversion.roundtrip [OF conv well_typed_scalar [OF v y(1)] y(2) room] obtain d1 where
      d1: "decode_value t j d = (Ok y, d1)" "roomy c1 d1" by blast
    have "kept d d1" using balancedD [OF conversion.decode_balanced [OF conv] d1(1)] .
    moreover obtain x w1 u where x: "own_value rtt t y w = (x, w1)" "allocated rtt mv w x u w1" "rtt_scalar u = Some (t, y)"
      using assms(1) unfolding rtt_memory_def allocates_ok_def by blast
    have "scalar_as t u = Some y" using x(3) by (simp add: scalar_as_def)
    then have "made_from rtt mv (TypedCodec t) v w x w1"
      using x(2) y(1) by (auto simp: made_from_def allocated_def extends_def denotes_def)
    ultimately show ?thesis using d1 x(1)
      by (simp add: make_bind_def make_codec_def make_do_def)
  qed
  then show ?thesis unfolding copies_def by blast
qed

section \<open>Filling a staged value\<close>

text \<open>
  The assignment of the staged part \<open>x\<close> to \<open>dest\<close>, the part \<open>name\<close> of the staged value \<open>u\<close> at \<open>s\<close>: the part
  then shows what it shows in the original \<open>v\<close>, and the other parts are as before.
\<close>

definition stores_part :: "('w, 's) rtt_sources \<Rightarrow> ('w, 's) memory_view \<Rightarrow> codec_object \<Rightarrow> nat \<Rightarrow> string \<Rightarrow> rtt_value \<Rightarrow>
    rtt_value \<Rightarrow> 's \<Rightarrow> 'w \<Rightarrow> 's \<Rightarrow> 'w \<Rightarrow> 's \<Rightarrow> bool" where
  "stores_part rtt mv cd mty name v u s w x w1 dest \<longleftrightarrow>
     (\<exists>w2 u2. codec_assign rtt cd (Some x) (Some dest) w1 = (Ok (), w2) \<and> denotes rtt mv w2 s u2
        \<and> (\<forall>n. n \<noteq> name \<longrightarrow> map_of (rtt_parts u2) n = map_of (rtt_parts u) n)
        \<and> part_value u2 name mty (value_json cd) = part_value v name mty (value_json cd)
        \<and> extends_but mv (fst (place_of mv s)) w w2)"

lemma fill_step:
  assumes rtt: "rtt_memory rtt mv" and mk: "copies rtt mv cd mk" and v: "well_typed v"
    and shown: "part_value v name mty (value_json cd) c = (Ok j, c1)" and room: "roomy c d"
    and s: "denotes rtt mv w s u" "place_of mv s = (r, [])" "source_assignable rtt s" "ready_part u name mty cd"
  obtains x d1 w1 m m1 where "mk j d w = (Ok x, d1, w1)" "roomy c1 d1" "kept d d1"
    "part_of rtt (rtt_type u) w s name = Some m" "part_of rtt (rtt_type u) w1 s name = Some m1"
    "stores_part rtt mv cd mty name v u s w x w1 m" "stores_part rtt mv cd mty name v u s w x w1 m1"
proof -
  have reads: "reads_ok rtt mv" using rtt by (simp add: rtt_memory_def)
  from shown obtain pv where pv: "part v name = Some pv" "rtt_type pv = mty" "value_json cd pv c = (Ok j, c1)"
    by (auto simp: part_value_def failing_eq split: option.splits if_splits)
  from s(4) obtain p where p: "map_of (rtt_parts u) name = Some (True, p)" "rtt_type p = mty" "suits cd p"
    by (auto simp: ready_part_def split: option.splits prod.splits bool.splits)
  obtain x d1 w1 where x: "mk j d w = (Ok x, d1, w1)" "roomy c1 d1" "kept d d1" "made_from rtt mv cd pv w x w1"
    by (rule copiesD [OF mk well_typed_part [OF v pv(1)] pv(3) room])
  have ext: "extends mv w w1" using x(4) by (simp add: made_from_def)
  have s1: "denotes rtt mv w1 s u" by (rule extends_denotes [OF ext s(1)])
  obtain m where m: "part_of rtt (rtt_type u) w s name = Some m" "denotes rtt mv w m p"
    "place_of mv m = (r, [name])" "source_assignable rtt m"
    by (rule part_denotes [OF reads s(1) p(1)]) (use s(2,3) in auto)
  obtain m1 where m1: "part_of rtt (rtt_type u) w1 s name = Some m1" "denotes rtt mv w1 m1 p"
    "place_of mv m1 = (r, [name])" "source_assignable rtt m1"
    by (rule part_denotes [OF reads s1 p(1)]) (use s(2,3) in auto)
  have "stores_part rtt mv cd mty name v u s w x w1 dest" if "dest \<in> {m, m1}" for dest
  proof -
    have dest: "denotes rtt mv w1 dest p" "place_of mv dest = (r, [name])" "source_assignable rtt dest"
      using that m m1 extends_denotes [OF ext] by auto
    from x(4) obtain v' where v': "denotes rtt mv w1 x v'" "suits cd v'" "value_json cd v' = value_json cd pv"
      by (auto simp: made_from_def)
    from assigned [OF rtt v'(1,2) dest(1) p(3) dest(3)] obtain w2 q where
      q: "codec_assign rtt cd (Some x) (Some dest) w1 = (Ok (), w2)" "written mv w1 dest q w2"
        "rtt_type q = rtt_type p" "value_json cd q = value_json cd v'" by blast
    have part: "part u name = Some p" using p(1) by (simp add: part_def)
    have "memory_of mv w1 r = Some u" using s1 s(2) by (auto simp: denotes_def bind_eq_Some_conv)
    then have "memory_of mv w2 r = Some (set_part name q u)"
      using q(2) dest(2) part by (simp add: written_def)
    then have "denotes rtt mv w2 s (set_part name q u)" using s(1,2) by (simp add: denotes_def)
    moreover have "part_value (set_part name q u) name mty (value_json cd) = part_value v name mty (value_json cd)"
      using part pv(1,2) p(2) q(3,4) v'(3) by (simp add: part_value_def part_set_part)
    moreover have "extends_but mv r w w2"
      using written_extends_but [OF q(2)] dest(2) extends_but [OF ext] by (auto intro: extends_but_trans)
    ultimately show ?thesis using q(1) s(2) by (auto simp: stores_part_def lookup_set_part)
  qed
  with x m(1) m1(1) show ?thesis using that by blast
qed

lemma ready_part_cong:
  "map_of (rtt_parts u') name = map_of (rtt_parts u) name \<Longrightarrow> ready_part u' name mty cd = ready_part u name mty cd"
  by (simp add: ready_part_def)

lemma part_value_cong:
  "map_of (rtt_parts u') name = map_of (rtt_parts u) name \<Longrightarrow> part_value u' name mty f = part_value u name mty f"
  by (simp add: part_value_def part_def)

lemma roomy_less: "roomy c d \<Longrightarrow> roomy (c\<lparr>remaining := remaining c - n\<rparr>) d"
  by (auto simp: roomy_def intro: le_trans [OF diff_le_self])

lemma value_members_entries:
  "value_members ms v built c = (Ok obj, c1) \<Longrightarrow> distinct (map fst ms) \<Longrightarrow> fst ` set ms \<inter> fst ` set built = {} \<Longrightarrow>
     \<exists>rest. obj = built @ rest \<and> map fst rest = map fst ms"
proof (induction ms arbitrary: built c)
  case Nil
  then show ?case by (simp add: codec_simps)
next
  case (Cons x ms)
  obtain name mty cd where x: "x = (name, mty, cd)" by (cases x)
  with Cons.prems obtain j c' where j: "value_members ms v (object_emplace name j built) c' = (Ok obj, c1)"
    by (auto simp: codec_simps)
  have "object_emplace name j built = built @ [(name, j)]" using Cons.prems(3) x by (auto simp: object_emplace_def)
  with j Cons.IH [of "built @ [(name, j)]" c'] Cons.prems(2,3) x show ?case by auto
qed

text \<open>What \<open>fill_members\<close> leaves: each of the members shows what it showed in the original.\<close>

lemma fill_members_copies:
  assumes rtt: "rtt_memory rtt mv" and "list_all (\<lambda>(name, mty, cd). copies rtt mv cd (makeDataSource rtt cd)) ms"
    and v: "well_typed v" and "distinct (map fst ms)" and "fst ` set ms \<inter> fst ` set built = {}"
    and "value_members ms v built c = (Ok obj, c1)" and "roomy c d"
    and "denotes rtt mv w s u" and s: "place_of mv s = (r, [])" "source_assignable rtt s"
    and "rtt_type u = ty" "list_all (\<lambda>(name, mty, cd). ready_part u name mty cd) ms"
  shows "\<exists>d1 w1 u1. fill_members rtt ty ms obj s d w = (Ok (), d1, w1) \<and> roomy c1 d1 \<and> kept d d1
    \<and> denotes rtt mv w1 s u1 \<and> rtt_type u1 = ty
    \<and> (\<forall>n. n \<notin> fst ` set ms \<longrightarrow> map_of (rtt_parts u1) n = map_of (rtt_parts u) n)
    \<and> list_all (\<lambda>(name, mty, cd). part_value u1 name mty (value_json cd) = part_value v name mty (value_json cd)) ms
    \<and> extends_but mv r w w1"
  using assms(2,4-8,11,12)
proof (induction ms arbitrary: built c d w u)
  case Nil
  then show ?case by (auto simp: make_return_def codec_simps)
next
  case (Cons x ms)
  obtain name mty cd where x: "x = (name, mty, cd)" by (cases x)
  have new: "name \<notin> fst ` set built" "name \<notin> fst ` set ms" using Cons.prems(2,3) x by auto
  with Cons.prems(4) x obtain j c2 c3 where acc: "accountJsonString name c = (Ok (), c2)" "2 \<le> remaining c2"
    and shown: "part_value v name mty (value_json cd) (c2\<lparr>remaining := remaining c2 - 2\<rparr>) = (Ok j, c3)"
    and rest: "value_members ms v (built @ [(name, j)]) c3 = (Ok obj, c1)"
    by (auto simp: codec_simps object_emplace_def)
  have room: "roomy (c2\<lparr>remaining := remaining c2 - 2\<rparr>) d"
    using acc(1) by (intro roomy_less) (simp add: accountJsonString_exact roomy_less Cons.prems(5))
  have tail: "distinct (map fst ms)" "fst ` set ms \<inter> fst ` set (built @ [(name, j)]) = {}"
    using Cons.prems(2,3) x by auto
  obtain tl where "obj = (built @ [(name, j)]) @ tl" using value_members_entries [OF rest tail] by blast
  moreover have "member built name = None" using new(1) by (simp add: map_of_eq_None_iff)
  ultimately have obj: "member obj name = Some j" by (auto simp: map_add_def)
  have ready: "ready_part u name mty cd" and mk: "copies rtt mv cd (makeDataSource rtt cd)"
    using Cons.prems(1,8) x by auto
  obtain y d2 w1 m m1 where y: "makeDataSource rtt cd j d w = (Ok y, d2, w1)" "roomy c3 d2" "kept d d2"
      "part_of rtt (rtt_type u) w s name = Some m" "part_of rtt (rtt_type u) w1 s name = Some m1"
    and step: "stores_part rtt mv cd mty name v u s w y w1 m" "stores_part rtt mv cd mty name v u s w y w1 m1"
    by (rule fill_step [OF rtt mk v shown room Cons.prems(6) s ready])
  from step(2) s(1) obtain w2 u2 where w2: "codec_assign rtt cd (Some y) (Some m1) w1 = (Ok (), w2)"
    "denotes rtt mv w2 s u2" "\<forall>n. n \<noteq> name \<longrightarrow> map_of (rtt_parts u2) n = map_of (rtt_parts u) n"
    "part_value u2 name mty (value_json cd) = part_value v name mty (value_json cd)" "extends_but mv r w w2"
    by (auto simp: stores_part_def)
  have ty: "rtt_type u2 = ty" using w2(2) Cons.prems(6,7) by (simp add: denotes_def)
  have "ready_part u2 name' mty' cd' = ready_part u name' mty' cd'" if "name' \<in> fst ` set ms" for name' mty' cd'
    using that new(2) w2(3) by (intro ready_part_cong) auto
  then have ready': "list_all (\<lambda>(name, mty, cd). ready_part u2 name mty cd) ms"
    using Cons.prems(8) by (force simp: list_all_iff)
  from Cons.IH [OF _ tail rest y(2) w2(2) ty ready'] Cons.prems(1) obtain d3 w3 u3 where
    w3: "fill_members rtt ty ms obj s d2 w2 = (Ok (), d3, w3)" "roomy c1 d3" "kept d2 d3" "denotes rtt mv w3 s u3"
      "rtt_type u3 = ty" "\<forall>n. n \<notin> fst ` set ms \<longrightarrow> map_of (rtt_parts u3) n = map_of (rtt_parts u2) n"
      "list_all (\<lambda>(name, mty, cd). part_value u3 name mty (value_json cd) = part_value v name mty (value_json cd)) ms"
      "extends_but mv r w2 w3"
    by auto
  have "fill_members rtt ty (x # ms) obj s d w = (Ok (), d3, w3)"
    using x y(1,5) w2(1) w3(1) obj Cons.prems(7) by (simp add: make_bind_def make_read_def make_try_def)
  moreover have "part_value u3 name mty (value_json cd) = part_value v name mty (value_json cd)"
    using w3(6) new(2) w2(4) part_value_cong [of u3 name u2] by simp
  moreover have "\<forall>n. n \<notin> fst ` set (x # ms) \<longrightarrow> map_of (rtt_parts u3) n = map_of (rtt_parts u) n"
    using w3(6) w2(3) x by simp
  moreover have "kept d d3" "extends_but mv r w w3"
    using kept_trans [OF y(3) w3(3)] extends_but_trans [OF w2(5) w3(8)] by simp_all
  ultimately show ?case using w3 x by (intro exI conjI) (assumption+, auto)
qed

lemma to_chars_nat_inj: "to_chars (int i) = to_chars (int k) \<longleftrightarrow> i = k"
  by (auto simp: to_chars_def dest: arg_cong [where f = digits_value])

lemma to_chars_not_size: "to_chars (int i) \<noteq> ''size''"
proof
  assume "to_chars (int i) = ''size''"
  then have "list_all is_digit ''size''" using nat_chars_digits [of i] by (simp add: to_chars_def)
  then show False by (simp add: is_digit_def)
qed

lemma fill_elements_copies:
  assumes rtt: "rtt_memory rtt mv" and mk: "copies rtt mv cd (makeDataSource rtt cd)" and v: "well_typed v"
    and "map_codec (\<lambda>i. part_value v (to_chars (int i)) ety (value_json cd)) [i..<n] c = (Ok js, c1)" and "roomy c d"
    and "denotes rtt mv w s u" and s: "place_of mv s = (r, [])" "source_assignable rtt s"
    and "rtt_type u = ty" "\<forall>k. i \<le> k \<and> k < n \<longrightarrow> ready_part u (to_chars (int k)) ety cd"
  shows "\<exists>d1 w1 u1. fill_elements rtt ty s cd (makeDataSource rtt cd) i js d w = (Ok (), d1, w1) \<and> roomy c1 d1 \<and> kept d d1
    \<and> denotes rtt mv w1 s u1 \<and> rtt_type u1 = ty
    \<and> (\<forall>name. (\<forall>k. i \<le> k \<and> k < n \<longrightarrow> name \<noteq> to_chars (int k)) \<longrightarrow> map_of (rtt_parts u1) name = map_of (rtt_parts u) name)
    \<and> (\<forall>k. i \<le> k \<and> k < n \<longrightarrow>
         part_value u1 (to_chars (int k)) ety (value_json cd) = part_value v (to_chars (int k)) ety (value_json cd))
    \<and> extends_but mv r w w1"
  using assms(4-6,9,10)
proof (induction "n - i" arbitrary: i js c d w u)
  case 0
  then have "js = []" "c1 = c" by (auto simp: codec_simps)
  with 0 show ?case by (auto simp: make_return_def intro!: exI [of _ u])
next
  case (Suc k)
  let ?name = "to_chars (int i)"
  have i: "i < n" "k = n - Suc i" using Suc.hyps(2) by auto
  with Suc.prems(1) obtain j js' c2 where shown: "part_value v ?name ety (value_json cd) c = (Ok j, c2)"
    and rest: "map_codec (\<lambda>i. part_value v (to_chars (int i)) ety (value_json cd)) [Suc i..<n] c2 = (Ok js', c1)"
    and js: "js = j # js'"
    by (auto simp: upt_conv_Cons codec_simps)
  have ready: "ready_part u ?name ety cd" using Suc.prems(5) i(1) by simp
  obtain y d2 w1 m m1 where y: "makeDataSource rtt cd j d w = (Ok y, d2, w1)" "roomy c2 d2" "kept d d2"
      "part_of rtt (rtt_type u) w s ?name = Some m" "part_of rtt (rtt_type u) w1 s ?name = Some m1"
    and step: "stores_part rtt mv cd ety ?name v u s w y w1 m" "stores_part rtt mv cd ety ?name v u s w y w1 m1"
    by (rule fill_step [OF rtt mk v shown Suc.prems(2,3) s ready])
  from step(1) s(1) obtain w2 u2 where w2: "codec_assign rtt cd (Some y) (Some m) w1 = (Ok (), w2)"
    "denotes rtt mv w2 s u2" "\<forall>n. n \<noteq> ?name \<longrightarrow> map_of (rtt_parts u2) n = map_of (rtt_parts u) n"
    "part_value u2 ?name ety (value_json cd) = part_value v ?name ety (value_json cd)" "extends_but mv r w w2"
    by (auto simp: stores_part_def)
  have ty: "rtt_type u2 = ty" using w2(2) Suc.prems(3,4) by (simp add: denotes_def)
  have ready': "\<forall>k. Suc i \<le> k \<and> k < n \<longrightarrow> ready_part u2 (to_chars (int k)) ety cd"
    using Suc.prems(5) w2(3) ready_part_cong [of u2 _ u] to_chars_nat_inj by (metis Suc_le_eq less_imp_le less_irrefl)
  from Suc.hyps(1) [OF i(2) rest y(2) w2(2) ty ready'] obtain d3 w3 u3 where
    w3: "fill_elements rtt ty s cd (makeDataSource rtt cd) (Suc i) js' d2 w2 = (Ok (), d3, w3)" "roomy c1 d3" "kept d2 d3"
      "denotes rtt mv w3 s u3" "rtt_type u3 = ty"
      "\<forall>name. (\<forall>k. Suc i \<le> k \<and> k < n \<longrightarrow> name \<noteq> to_chars (int k)) \<longrightarrow> map_of (rtt_parts u3) name = map_of (rtt_parts u2) name"
      "\<forall>k. Suc i \<le> k \<and> k < n \<longrightarrow>
         part_value u3 (to_chars (int k)) ety (value_json cd) = part_value v (to_chars (int k)) ety (value_json cd)"
      "extends_but mv r w2 w3"
    by blast
  have "fill_elements rtt ty s cd (makeDataSource rtt cd) i js d w = (Ok (), d3, w3)"
    using js y(1,4) w2(1) w3(1) Suc.prems(4) by (simp add: make_bind_def make_read_def make_try_def)
  moreover have "map_of (rtt_parts u3) ?name = map_of (rtt_parts u2) ?name"
    using w3(6) to_chars_nat_inj by (metis Suc_n_not_le_n)
  then have "part_value u3 ?name ety (value_json cd) = part_value v ?name ety (value_json cd)"
    using w2(4) part_value_cong [of u3 ?name u2] by simp
  then have "\<forall>k. i \<le> k \<and> k < n \<longrightarrow>
         part_value u3 (to_chars (int k)) ety (value_json cd) = part_value v (to_chars (int k)) ety (value_json cd)"
    using w3(7) by (metis Suc_leI le_neq_implies_less)
  moreover have "map_of (rtt_parts u3) name = map_of (rtt_parts u) name"
    if "\<forall>k. i \<le> k \<and> k < n \<longrightarrow> name \<noteq> to_chars (int k)" for name
    using that w3(6) w2(3) i(1) by simp
  moreover have "kept d d3" "extends_but mv r w w3"
    using kept_trans [OF y(3) w3(3)] extends_but_trans [OF w2(5) w3(8)] by simp_all
  ultimately show ?case using w3 by blast
qed

section \<open>Making a source\<close>

lemma balanced_part_value [depth_intros]: "(\<And>u. balanced (f u)) \<Longrightarrow> balanced (part_value v name mty f)"
  unfolding part_value_def by (auto intro!: depth_intros split: option.splits)

lemma balanced_reflected_value: "(\<And>u. balanced (body u)) \<Longrightarrow> balanced (reflected_value ty body v)"
  unfolding reflected_value_def by (auto intro!: depth_intros)

lemma balanced_sequence_value: "(\<And>u. balanced (f u)) \<Longrightarrow> balanced (sequence_value len ety f v)"
  unfolding sequence_value_def by (auto intro!: depth_intros split: option.splits)

lemma balanced_value_json [depth_intros]:
  "balanced (value_json cd v)" "balanced (value_members ms v built)"
proof (induction cd and ms arbitrary: v and v built rule: value_json_value_members.induct)
  case (1 t)
  show ?case by (auto intro!: depth_intros balanced_encode_value split: option.split)
next
  case (3 ty len ety cd rd)
  have "balanced (sequence_value len ety (value_json cd) u)" for u by (intro balanced_sequence_value 3)
  then show ?case by (simp add: balanced_reflected_value)
next
  case (4 ty ms rd)
  have "balanced (bind_codec (value_members ms u []) (\<lambda>obj. return (JObject obj)))" for u
    by (intro depth_intros 4)
  then show ?case by (simp add: balanced_reflected_value)
qed (auto intro!: depth_intros)

text \<open>
  The frame that the two reflected codecs share: a staged value is made and filled.  \<open>fill\<close> turns
  the default value into one with \<open>Q\<close>, with the room of \<open>c1\<close> left.
\<close>

definition fills :: "('w, 's) rtt_sources \<Rightarrow> ('w, 's) memory_view \<Rightarrow> rtt_value \<Rightarrow> ('s \<Rightarrow> ('w, unit) maker) \<Rightarrow>
    codec_context \<Rightarrow> codec_context \<Rightarrow> (rtt_value \<Rightarrow> bool) \<Rightarrow> bool" where
  "fills rtt mv u0 fill c1 d Q \<longleftrightarrow> (\<forall>s w r. denotes rtt mv w s u0 \<longrightarrow> place_of mv s = (r, []) \<longrightarrow> source_assignable rtt s \<longrightarrow>
      (\<exists>d1 w1 u1. fill s d w = (Ok (), d1, w1) \<and> roomy c1 d1 \<and> kept d d1 \<and> denotes rtt mv w1 s u1
        \<and> Q u1 \<and> extends_but mv r w w1))"

lemma staged_copies:
  assumes rtt: "rtt_memory rtt mv" and "built_of mv ty = Some u0" "rtt_type u0 = ty"
    and fill: "fills rtt mv u0 fill c1 d Q"
  shows "\<exists>s d1 w1 u1. staged_value rtt ty fill d w = (Ok s, d1, w1) \<and> roomy c1 d1 \<and> kept d d1
    \<and> denotes rtt mv w1 s u1 \<and> Q u1 \<and> extends mv w w1
    \<and> (\<exists>r. place_of mv s = (r, []) \<and> memory_of mv w r = None)"
proof -
  from rtt assms(2,3) obtain s w0 where new: "new_value rtt ty w = (Some s, w0)" "allocated rtt mv w s u0 w0"
    unfolding rtt_memory_def allocates_ok_def by blast
  then obtain r0 where r0: "place_of mv s = (r0, [])" "memory_of mv w r0 = None" "memory_of mv w0 = (memory_of mv w)(r0 \<mapsto> u0)"
    and s: "source_type rtt s = Some (rtt_type u0)" "source_assignable rtt s"
    by (auto simp: allocated_def)
  have "denotes rtt mv w0 s u0" using r0 s by (simp add: denotes_def)
  with fill r0(1) s(2) obtain d1 w1 u1 where f: "fill s d w0 = (Ok (), d1, w1)" "roomy c1 d1" "kept d d1"
    "denotes rtt mv w1 s u1" "Q u1" "extends_but mv r0 w0 w1"
    unfolding fills_def by blast
  have "memory_of mv w1 r = memory_of mv w r" if "memory_of mv w r \<noteq> None" for r
    using f(6) r0(2,3) that unfolding extends_but_def by (metis fun_upd_apply)
  then have "extends mv w w1" by (simp add: extends_def)
  moreover have "staged_value rtt ty fill d w = (Ok s, d1, w1)"
    using new(1) f(1) s(2) by (simp add: staged_value_def make_bind_def make_do_def make_return_def)
  ultimately show ?thesis using f r0 by blast
qed

text \<open>The two levels of nesting are entered and left together.\<close>

lemma leave_together:
  assumes "roomy c1 d1" "kept c' c1" "kept d' d1" "depth c' = Suc n" "depth d' = Suc m"
  shows "roomy (leave c1) (leave d1)"
  using assms by (intro roomy_leave) (auto simp: kept_def)

lemma make_scoped_Ok:
  assumes "depth d \<noteq> maxDepth (limits d)" "m (d\<lparr>depth := Suc (depth d)\<rparr>) w = (Ok x, d1, w1)"
  shows "make_scoped m d w = (Ok x, leave d1, w1)"
proof -
  have "enter d = (Ok (), d\<lparr>depth := Suc (depth d)\<rparr>)" using assms(1) by (simp add: codec_simps)
  with assms(2) show ?thesis by (simp add: make_scoped_def)
qed

lemma kept_leave: "kept (d\<lparr>depth := Suc (depth d)\<rparr>) d1 \<Longrightarrow> kept d (leave d1)"
  by (simp add: kept_def leave_def)

lemma reflected_value_Ok:
  "reflected_value ty body v c = (Ok j, c1) \<longleftrightarrow> depth c \<noteq> maxDepth (limits c) \<and> rtt_type v = ty \<and> 2 \<le> remaining c
     \<and> (\<exists>c2. body v (c\<lparr>depth := Suc (depth c), remaining := remaining c - 2\<rparr>) = (Ok j, c2) \<and> c1 = leave c2)"
  by (auto simp: reflected_value_def codec_simps)

lemma value_members_cong:
  assumes "list_all (\<lambda>(name, mty, cd). part_value u name mty (value_json cd) = part_value v name mty (value_json cd)) ms"
  shows "value_members ms u built = value_members ms v built"
  using assms by (induction ms arbitrary: built) auto

lemma copies_structure:
  assumes rtt: "rtt_memory rtt mv" and fits: "fits mv (StructureCodec ty ms rd)"
    and parts: "list_all (\<lambda>(name, mty, cd). copies rtt mv cd (makeDataSource rtt cd)) ms"
  shows "copies rtt mv (StructureCodec ty ms rd) (makeDataSource rtt (StructureCodec ty ms rd))"
proof -
  let ?cd = "StructureCodec ty ms rd"
  have "\<exists>x d1 w1. makeDataSource rtt ?cd j d w = (Ok x, d1, w1) \<and> roomy c1 d1 \<and> kept d d1 \<and> made_from rtt mv ?cd v w x w1"
    if v: "well_typed v" and enc: "value_json ?cd v c = (Ok j, c1)" and room: "roomy c d" for v c j c1 d w
  proof -
    let ?c = "c\<lparr>depth := Suc (depth c), remaining := remaining c - 2\<rparr>" and ?d = "d\<lparr>depth := Suc (depth d)\<rparr>"
    from fits obtain u0 where u0: "built_of mv ty = Some u0" "rtt_type u0 = ty"
      "list_all (\<lambda>(name, mty, cd). ready_part u0 name mty cd) ms" "distinct (map fst ms)"
      by (auto split: option.splits)
    from enc obtain obj c2 where obj: "depth c \<noteq> maxDepth (limits c)" "rtt_type v = ty" "j = JObject obj" "c1 = leave c2"
      "value_members ms v [] ?c = (Ok obj, c2)"
      by (auto simp: reflected_value_Ok codec_simps)
    have "roomy (c\<lparr>depth := Suc (depth c)\<rparr>) ?d" and deep: "depth d \<noteq> maxDepth (limits d)"
      using roomy_enter [OF room obj(1)] by auto
    then have room': "roomy ?c ?d" using roomy_less [of "c\<lparr>depth := Suc (depth c)\<rparr>" ?d 2] by simp
    have names: "map fst obj = map fst ms" using value_members_entries [OF obj(5) u0(4)] by auto
    have "find (\<lambda>name. member obj name = None) (map fst ms) = None"
      using names by (auto simp: find_None_iff map_of_eq_None_iff) (metis fst_conv image_eqI image_set)
    moreover have "length obj = length (map fst ms)" using names by (metis length_map)
    ultimately have checked: "check_members (map fst ms) j = Ok obj" by (simp add: check_members_def obj(3))
    have "\<exists>d1 w1 u1. fill_members rtt ty ms obj s ?d w = (Ok (), d1, w1) \<and> roomy c2 d1 \<and> kept ?d d1 \<and> denotes rtt mv w1 s u1
        \<and> (rtt_type u1 = ty \<and> value_members ms u1 = value_members ms v) \<and> extends_but mv r w w1"
      if s: "denotes rtt mv w s u0" "place_of mv s = (r, [])" "source_assignable rtt s" for s w r
    proof -
      from fill_members_copies [OF rtt parts v u0(4) _ obj(5) room' s u0(2,3)] obtain d1 w1 u1 where
        f: "fill_members rtt ty ms obj s ?d w = (Ok (), d1, w1)" "roomy c2 d1" "kept ?d d1" "denotes rtt mv w1 s u1"
          "rtt_type u1 = ty" "extends_but mv r w w1"
        and "list_all (\<lambda>(name, mty, cd). part_value u1 name mty (value_json cd) = part_value v name mty (value_json cd)) ms"
        by auto
      then have "value_members ms u1 = value_members ms v" by (intro ext value_members_cong)
      with f show ?thesis by blast
    qed
    then have "fills rtt mv u0 (fill_members rtt ty ms obj) c2 ?d (\<lambda>u. rtt_type u = ty \<and> value_members ms u = value_members ms v)"
      unfolding fills_def by blast
    from staged_copies [OF rtt u0(1,2) this] obtain s d1 w1 u1 where
      s: "staged_value rtt ty (fill_members rtt ty ms obj) ?d w = (Ok s, d1, w1)" "roomy c2 d1" "kept ?d d1"
        "denotes rtt mv w1 s u1" "rtt_type u1 = ty" "value_members ms u1 = value_members ms v" "extends mv w w1"
        "\<exists>r. place_of mv s = (r, []) \<and> memory_of mv w r = None"
      by blast
    have "makeDataSource rtt ?cd j d w = (Ok s, leave d1, w1)"
      using make_scoped_Ok [OF deep, of _ w s d1 w1] s(1) checked by (simp add: make_bind_def make_return_def)
    moreover have "roomy c1 (leave d1)"
      using leave_together [OF s(2) balancedD [OF balanced_value_json(2) obj(5)] s(3)] obj(4) by simp
    moreover have "value_json ?cd u1 = value_json ?cd v"
      using s(5,6) obj(2) by (auto simp: reflected_value_def)
    ultimately show ?thesis using s kept_leave [OF s(3)] by (auto simp: made_from_def)
  qed
  then show ?thesis unfolding copies_def by blast
qed

lemma map_codec_cong: "(\<And>x. x \<in> set xs \<Longrightarrow> f x = g x) \<Longrightarrow> map_codec f xs = map_codec g xs"
  by (induction xs) auto

lemma map_codec_length: "map_codec f xs c = (Ok ys, c1) \<Longrightarrow> length ys = length xs"
  by (induction xs arbitrary: c ys) (auto simp: codec_simps)

lemma sequence_value_Ok:
  assumes "sequence_value len ety f v c = (Ok j, c1)" "well_typed v"
  obtains n js where "Option.bind (part v ''size'') int_content = Some (int n)" "len = None \<or> len = Some n" "n \<le> int_max"
    "n \<le> remaining c" "j = JArray js" "length js = n"
    "map_codec (\<lambda>i. part_value v (to_chars (int i)) ety f) [0..<n] (c\<lparr>remaining := remaining c - n\<rparr>) = (Ok js, c1)"
proof -
  from assms(1) obtain count js where n: "Option.bind (part v ''size'') int_content = Some count" "0 \<le> count"
    "len = None \<or> len = Some (nat count)" "nat count \<le> remaining c" "j = JArray js"
    "map_codec (\<lambda>i. part_value v (to_chars (int i)) ety f) [0..<nat count] (c\<lparr>remaining := remaining c - nat count\<rparr>) = (Ok js, c1)"
    by (auto simp: sequence_value_def failing_eq bind_codec_Ok return_eq account_Ok split: option.splits if_splits)
  from n(1) obtain p where "part v ''size'' = Some p" "int_content p = Some count" by (auto simp: bind_eq_Some_conv)
  then have "count \<le> int int_max" using well_typed_part [OF assms(2)] int_content_bound by blast
  then have "nat count \<le> int_max" by simp
  with n map_codec_length [OF n(6)] that [of "nat count" js] show ?thesis by simp
qed

text \<open>A staged sequence of the length of the JSON array, ready to be filled.\<close>

lemma resize_copies:
  assumes rtt: "rtt_memory rtt mv" and "denotes rtt mv w s u" "place_of mv s = (r, [])" "source_assignable rtt s"
    and "ready_sequence mv ty len ety cd u" "len = None \<or> len = Some n" "n \<le> int_max"
  obtains w1 u1 where "resize_staged rtt ty len s n d w = (Ok (), d, w1)" "denotes rtt mv w1 s u1" "rtt_type u1 = ty"
    "ready_elements u1 ety cd n" "extends_but mv r w w1"
proof (cases len)
  case (Some n')
  then have "resize_staged rtt ty len s n d w = (Ok (), d, w)" "ready_elements u ety cd n" "rtt_type u = ty"
    using assms(5,6) by (auto simp: resize_staged_def make_return_def ready_sequence_def)
  with that [of w u] assms(2) show ?thesis by simp
next
  case None
  with assms(5,7) obtain u1 where u1: "resized mv u n = Some u1" "rtt_type u1 = ty" "ready_elements u1 ety cd n" "rtt_type u = ty"
    by (auto simp: ready_sequence_def split: option.splits)
  have "writes_ok rtt mv" using rtt by (simp add: rtt_memory_def)
  with assms(2,4) u1(1) obtain w1 where "set_length rtt (rtt_type u) s (int n) w = (True, w1)" and
    w1': "written mv w s u1 w1" unfolding writes_ok_def by blast
  with u1(4) have w1: "set_length rtt ty s (int n) w = (True, w1)" "written mv w s u1 w1" by simp_all
  have "denotes rtt mv w1 s u1" using written_denotes [OF assms(2) w1(2)] u1(2,4) by simp
  moreover have "resize_staged rtt ty len s n d w = (Ok (), d, w1)"
    using None w1(1) by (simp add: resize_staged_def make_bind_def make_do_def make_return_def)
  moreover have "extends_but mv r w w1" using written_extends_but [OF w1(2)] assms(3) by simp
  ultimately show ?thesis using that u1 by blast
qed

lemma sequence_value_cong:
  assumes "Option.bind (part u ''size'') int_content = Some (int n)" "Option.bind (part v ''size'') int_content = Some (int n)"
    "\<forall>k. 0 \<le> k \<and> k < n \<longrightarrow> part_value u (to_chars (int k)) ety f = part_value v (to_chars (int k)) ety f"
  shows "sequence_value len ety f u = sequence_value len ety f v"
proof -
  have "map_codec (\<lambda>i. part_value u (to_chars (int i)) ety f) [0..<n] = map_codec (\<lambda>i. part_value v (to_chars (int i)) ety f) [0..<n]"
    using assms(3) by (intro map_codec_cong) simp
  then show ?thesis using assms(1,2) by (simp add: sequence_value_def)
qed

lemma copies_sequence:
  assumes rtt: "rtt_memory rtt mv" and fits: "fits mv (SequenceCodec ty len ety cd rd)"
    and parts: "copies rtt mv cd (makeDataSource rtt cd)"
  shows "copies rtt mv (SequenceCodec ty len ety cd rd) (makeDataSource rtt (SequenceCodec ty len ety cd rd))"
proof -
  let ?cd = "SequenceCodec ty len ety cd rd" and ?mk = "makeDataSource rtt cd"
  have "\<exists>x d1 w1. makeDataSource rtt ?cd j d w = (Ok x, d1, w1) \<and> roomy c1 d1 \<and> kept d d1 \<and> made_from rtt mv ?cd v w x w1"
    if v: "well_typed v" and enc: "value_json ?cd v c = (Ok j, c1)" and room: "roomy c d" for v c j c1 d w
  proof -
    let ?c = "c\<lparr>depth := Suc (depth c), remaining := remaining c - 2\<rparr>" and ?d = "d\<lparr>depth := Suc (depth d)\<rparr>"
    from fits obtain u0 where u0: "built_of mv ty = Some u0" "ready_sequence mv ty len ety cd u0"
      by (auto split: option.splits)
    from enc obtain c2 where shown: "depth c \<noteq> maxDepth (limits c)" "rtt_type v = ty" "c1 = leave c2"
      "sequence_value len ety (value_json cd) v ?c = (Ok j, c2)"
      by (auto simp: reflected_value_Ok)
    obtain n js where n: "Option.bind (part v ''size'') int_content = Some (int n)" "len = None \<or> len = Some n" "n \<le> int_max"
      "n \<le> remaining ?c" "j = JArray js" "length js = n"
      "map_codec (\<lambda>i. part_value v (to_chars (int i)) ety (value_json cd)) [0..<n] (?c\<lparr>remaining := remaining ?c - n\<rparr>) = (Ok js, c2)"
      by (rule sequence_value_Ok [OF shown(4) v])
    have "roomy (c\<lparr>depth := Suc (depth c)\<rparr>) ?d" and deep: "depth d \<noteq> maxDepth (limits d)"
      using roomy_enter [OF room shown(1)] by auto
    then have room': "roomy ?c ?d" using roomy_less [of "c\<lparr>depth := Suc (depth c)\<rparr>" ?d 2] by simp
    let ?d' = "?d\<lparr>remaining := remaining ?d - n\<rparr>"
    have charged: "n \<le> remaining ?d" and room2: "roomy (?c\<lparr>remaining := remaining ?c - n\<rparr>) ?d'"
      by (rule roomy_account [OF room' le_refl n(4)])+
    let ?fill = "\<lambda>s. make_bind (resize_staged rtt ty len s n) (\<lambda>_. fill_elements rtt ty s cd ?mk 0 js)"
    let ?Q = "\<lambda>u. rtt_type u = ty \<and> sequence_value len ety (value_json cd) u = sequence_value len ety (value_json cd) v"
    have "\<exists>d1 w1 u1. ?fill s ?d' w = (Ok (), d1, w1) \<and> roomy c2 d1 \<and> kept ?d' d1 \<and> denotes rtt mv w1 s u1 \<and> ?Q u1
        \<and> extends_but mv r w w1"
      if s: "denotes rtt mv w s u0" "place_of mv s = (r, [])" "source_assignable rtt s" for s w r
    proof -
      obtain w1 u1 where r: "resize_staged rtt ty len s n ?d' w = (Ok (), ?d', w1)" "denotes rtt mv w1 s u1" "rtt_type u1 = ty"
        "ready_elements u1 ety cd n" "extends_but mv r w w1"
        by (rule resize_copies [OF rtt s u0(2) n(2,3)])
      have ready: "\<forall>k. 0 \<le> k \<and> k < n \<longrightarrow> ready_part u1 (to_chars (int k)) ety cd"
        using r(4) by (simp add: ready_elements_def)
      from fill_elements_copies [OF rtt parts v n(7) room2 r(2) s(2,3) r(3) ready] obtain d2 w2 u2 where
        f: "fill_elements rtt ty s cd ?mk 0 js ?d' w1 = (Ok (), d2, w2)" "roomy c2 d2" "kept ?d' d2" "denotes rtt mv w2 s u2"
          "rtt_type u2 = ty" "extends_but mv r w1 w2"
        and others: "\<forall>name. (\<forall>k. 0 \<le> k \<and> k < n \<longrightarrow> name \<noteq> to_chars (int k)) \<longrightarrow> map_of (rtt_parts u2) name = map_of (rtt_parts u1) name"
        and elements: "\<forall>k. 0 \<le> k \<and> k < n \<longrightarrow>
          part_value u2 (to_chars (int k)) ety (value_json cd) = part_value v (to_chars (int k)) ety (value_json cd)"
        by blast
      have "part u2 ''size'' = part u1 ''size''"
        using others [rule_format, of "''size''"] to_chars_not_size [symmetric] by (simp add: part_def)
      then have "Option.bind (part u2 ''size'') int_content = Some (int n)" using r(4) by (simp add: ready_elements_def)
      then have "sequence_value len ety (value_json cd) u2 = sequence_value len ety (value_json cd) v"
        by (rule sequence_value_cong [OF _ n(1) elements])
      moreover have "?fill s ?d' w = (Ok (), d2, w2)" using r(1) f(1) by (simp add: make_bind_def)
      ultimately show ?thesis using f extends_but_trans [OF r(5) f(6)] by blast
    qed
    then have "fills rtt mv u0 ?fill c2 ?d' ?Q" unfolding fills_def by blast
    moreover have "rtt_type u0 = ty" using u0(2) by (simp add: ready_sequence_def)
    ultimately obtain s d1 w1 u1 where
      s: "staged_value rtt ty ?fill ?d' w = (Ok s, d1, w1)" "roomy c2 d1" "kept ?d' d1"
        "denotes rtt mv w1 s u1" "?Q u1" "extends mv w w1" "\<exists>r. place_of mv s = (r, []) \<and> memory_of mv w r = None"
      using staged_copies [OF rtt u0(1)] by blast
    have k: "kept ?d d1" using s(3) by (auto simp: kept_def)
    have "account n ?d = (Ok (), ?d')" using charged by (simp add: account_Ok)
    then have "makeDataSource rtt ?cd j d w = (Ok s, leave d1, w1)"
      using s(1) n(2,3,5,6)
      by (auto simp: make_sequence_def make_bind_def make_codec_def intro!: make_scoped_Ok [OF deep])
    moreover have "kept ?c c2"
      by (rule balancedD [OF balanced_sequence_value [OF balanced_value_json(1)] shown(4)])
    then have "roomy c1 (leave d1)"
      using leave_together [OF s(2) _ k] shown(3) by simp
    moreover have "value_json ?cd u1 = value_json ?cd v"
      using s(5) shown(2) by (auto simp: reflected_value_def)
    moreover have "suits ?cd u1" using s(5) by simp
    ultimately show ?thesis using s(4,6,7) kept_leave [OF k] unfolding made_from_def by blast
  qed
  then show ?thesis unfolding copies_def by blast
qed

lemma makeDataSource_copies: "rtt_memory rtt mv \<Longrightarrow> fits mv cd \<Longrightarrow> copies rtt mv cd (makeDataSource rtt cd)"
proof (induction mv cd rule: fits.induct)
  case (1 mv t)
  then show ?case using copies_typed by simp
next
  case (2 mv ty len ety cd rd)
  then have "copies rtt mv cd (makeDataSource rtt cd)" by simp
  then show ?case by (rule copies_sequence [OF 2(2,3)])
next
  case (3 mv ty ms rd)
  have "list_all (\<lambda>(name, mty, cd). copies rtt mv cd (makeDataSource rtt cd)) ms"
    using 3 by (fastforce simp: list_all_iff)
  then show ?case by (rule copies_structure [OF 3(2,3)])
qed simp_all

lemma fits_own: "fits mv cd \<Longrightarrow> own_codec cd"
  by (induction mv cd rule: fits.induct) (fastforce simp: list_all_iff)+

lemma shows_value:
  assumes "rtt_memory rtt mv" "fits mv cd" "denotes rtt mv w s v" "usable_result c result"
  shows "toJson rtt w cd (Some s) result c = deliver (value_json cd v) result c"
  using reads_valueD [OF toJson_reads_value(1) [rule_format] assms(3,4)] assms(1,2) fits_own
  by (auto simp: rtt_memory_def)

section \<open>Writing back what was read\<close>

text \<open>Two sources that a codec cannot tell apart.\<close>

definition same_reading :: "('w, 's) rtt_sources \<Rightarrow> codec_object \<Rightarrow> 'w \<Rightarrow> 's \<Rightarrow> 'w \<Rightarrow> 's \<Rightarrow> bool" where
  "same_reading rtt cd w s w' s' \<longleftrightarrow> (\<forall>c result. usable_result c result \<longrightarrow>
     toJson rtt w cd (Some s) result c = toJson rtt w' cd (Some s') result c)"

text \<open>
  C25: the JSON that a codec of the library, however deep, gives for a value is a JSON it accepts,
  in every context with at least the room of the reader's: the source it makes shows the same in
  every context, and nothing that existed before is written.  The source can be assigned exactly
  to the assignable destinations of the codec's type; the assignment writes the place of the
  destination and no other, and the destination then shows what the source had shown.  At every
  other destination it fails and writes nothing.
\<close>

theorem read_value_written_back:
  assumes "rtt_memory rtt mv" "fits mv cd" "denotes rtt mv w0 s v" "well_typed v"
    and "toJson rtt w0 cd (Some s) (Some (storage c, old)) c = (Ok u, Some (n, j), c1)" "roomy c d"
  shows "\<exists>x d1 w1. makeDataSource rtt cd j d w = (Ok x, d1, w1) \<and> same_reading rtt cd w1 x w0 s
    \<and> (\<forall>r. memory_of mv w r \<noteq> None \<longrightarrow> memory_of mv w1 r = memory_of mv w r)
    \<and> codec_assign rtt cd (Some x) None w1 = (codecFailure InvalidDataSource, w1)
    \<and> (\<forall>dest t. denotes rtt mv w dest t \<longrightarrow>
         (if source_assignable rtt dest \<and> suits cd t
          then \<exists>w2 q. codec_assign rtt cd (Some x) (Some dest) w1 = (Ok (), w2)
            \<and> written mv w1 dest q w2 \<and> same_reading rtt cd w2 dest w0 s
          else codec_assign rtt cd (Some x) (Some dest) w1 = (codecFailure InvalidDataSource, w1)))"
proof -
  note reading = shows_value [OF assms(1,2)]
  have same: "same_reading rtt cd w' s' w0 s" if "denotes rtt mv w' s' q" "value_json cd q = value_json cd v" for w' s' q
    using reading [OF that(1)] reading [OF assms(3)] that(2) by (simp add: same_reading_def)
  have "value_json cd v c = (Ok j, c1)"
    using assms(5) reading [OF assms(3)] by (auto simp: deliver_def split: prod.splits res.splits)
  from copiesD [OF makeDataSource_copies [OF assms(1,2)] assms(4) this assms(6)] obtain x d1 w1 where
    x: "makeDataSource rtt cd j d w = (Ok x, d1, w1)" "made_from rtt mv cd v w x w1" by blast
  then obtain v' where v': "denotes rtt mv w1 x v'" "suits cd v'" "value_json cd v' = value_json cd v" and ext: "extends mv w w1"
    by (auto simp: made_from_def)
  have dests: "\<forall>dest t. denotes rtt mv w dest t \<longrightarrow>
         (if source_assignable rtt dest \<and> suits cd t
          then \<exists>w2 q. codec_assign rtt cd (Some x) (Some dest) w1 = (Ok (), w2)
            \<and> written mv w1 dest q w2 \<and> same_reading rtt cd w2 dest w0 s
          else codec_assign rtt cd (Some x) (Some dest) w1 = (codecFailure InvalidDataSource, w1))"
    (is "\<forall>dest t. _ \<longrightarrow> ?exact dest t")
  proof (intro allI impI)
    fix dest t assume "denotes rtt mv w dest t"
    note exact = assigned_exactly [OF assms(1) v'(1,2) extends_denotes [OF ext this]]
    show "?exact dest t"
    proof (cases "source_assignable rtt dest \<and> suits cd t")
      case True
      with exact obtain w2 q where "codec_assign rtt cd (Some x) (Some dest) w1 = (Ok (), w2)" "written mv w1 dest q w2"
        "denotes rtt mv w2 dest q" "value_json cd q = value_json cd v'" by auto
      with True same [of w2 dest q] v'(3) show ?thesis by auto
    qed (use exact in auto)
  qed
  have kept: "\<forall>r. memory_of mv w r \<noteq> None \<longrightarrow> memory_of mv w1 r = memory_of mv w r"
    using ext by (simp add: extends_def)
  show ?thesis
    by (intro exI conjI, rule x(1), rule same [OF v'(1,3)], rule kept, rule assign_nowhere [OF v'(2)], rule dests)
qed

section \<open>A memory of RTT\<close>

text \<open>
  A memory that satisfies the contract: a list of values, to which an allocation appends, with
  sources as an index, a path, their type and whether they can be assigned.  It has a structure
  type 10, of a flag and a sequence, and the type 20 of sequences of flags.
\<close>

type_synonym place = "nat \<times> string list \<times> nat \<times> bool"

definition int32 :: int_type where
  "int32 = \<lparr>bits = 32, signed = True\<rparr>"

definition flag_value :: "bool \<Rightarrow> rtt_value" where
  "flag_value b = RttValue 1 (Some (BoolType, VBool b)) []"

definition flags_value :: "bool list \<Rightarrow> rtt_value" where
  "flags_value bs = RttValue 20 None
     ((''size'', False, RttValue 2 (Some (IntType int32, VInt (int (length bs)))) []) #
      map (\<lambda>i. (to_chars (int i), True, flag_value (bs ! i))) [0..<length bs])"

definition pair_value :: "bool \<Rightarrow> bool list \<Rightarrow> rtt_value" where
  "pair_value b bs = RttValue 10 None [(''on'', True, flag_value b), (''flags'', True, flags_value bs)]"

fun content_at :: "rtt_value list \<Rightarrow> place \<Rightarrow> rtt_value option" where
  "content_at w (r, path, ty, b) = (if r < length w then at path (w ! r) else None)"

fun write_at :: "rtt_value list \<Rightarrow> place \<Rightarrow> rtt_value \<Rightarrow> rtt_value list" where
  "write_at w (r, path, ty, b) u = w[r := put_at path u (w ! r)]"

definition flags_memory :: "(rtt_value list, place) memory_view" where
  "flags_memory = \<lparr>memory_of = \<lambda>w r. if r < length w then Some (w ! r) else None,
     place_of = \<lambda>(r, path, ty, b). (r, path),
     built_of = \<lambda>ty. if ty = 10 then Some (pair_value False []) else if ty = 20 then Some (flags_value []) else None,
     resized = \<lambda>u n. if rtt_type u = 20 then Some (flags_value (replicate n False)) else None\<rparr>"

definition flags_rtt :: "(rtt_value list, place) rtt_sources" where
  "flags_rtt = \<lparr>source_type = \<lambda>(r, path, ty, b). Some ty,
     source_evaluates = \<lambda>w s. True,
     source_assignable = \<lambda>(r, path, ty, b). b,
     source_view = \<lambda>t w s. \<lparr>content = Option.bind (content_at w s) (scalar_as t), evaluates = True,
       writable = snd (snd (snd s))\<rparr>,
     source_store = \<lambda>t s x w. case content_at w s of None \<Rightarrow> w | Some u \<Rightarrow> write_at w s (set_scalar t x u),
     source_update = \<lambda>d s w. case content_at w s of None \<Rightarrow> (False, w) | Some v \<Rightarrow> (True, write_at w d v),
     source_int = \<lambda>w s. Option.bind (content_at w s) int_content,
     own_value = \<lambda>t x w. ((length w, [], 1, True), w @ [RttValue 1 (Some (t, x)) []]),
     part_of = \<lambda>ty w (r, path, ty', b) name.
       case Option.bind (content_at w (r, path, ty', b)) (\<lambda>v. map_of (rtt_parts v) name) of
         None \<Rightarrow> None
       | Some (b', p) \<Rightarrow> Some (r, path @ [name], rtt_type p, b' \<and> b),
     new_value = \<lambda>ty w. case built_of flags_memory ty of
         None \<Rightarrow> (None, w)
       | Some u \<Rightarrow> (Some (length w, [], ty, True), w @ [u]),
     set_length = \<lambda>ty s n w. case Option.bind (content_at w s) (\<lambda>u. resized flags_memory u (nat n)) of
         None \<Rightarrow> (False, w)
       | Some v \<Rightarrow> (True, write_at w s v),
     port_sample = \<lambda>t w port. None,
     retained = \<lambda>reader port w. ((PortError, None, None), w),
     other_toJson = \<lambda>k w s result c. (Fail None, result, c),
     other_make = \<lambda>k j c w. (Fail None, c, w),
     other_assign = \<lambda>k staged destination w. (Fail None, w),
     other_portValue = \<lambda>k port result c w. ((PortError, None, result, c), w),
     other_supports = \<lambda>k. False\<rparr>"

lemma flags_denotes:
  "denotes flags_rtt flags_memory w s v \<longleftrightarrow> content_at w s = Some v \<and> source_type flags_rtt s = Some (rtt_type v)"
  by (cases s) (auto simp: denotes_def flags_memory_def)

lemma flags_written:
  assumes "content_at w d = Some u"
  shows "written flags_memory w d v (write_at w d v)"
proof -
  obtain r path ty b where d: "d = (r, path, ty, b)" by (metis prod_cases4)
  with assms have "r < length w" by (auto split: if_splits)
  with d show ?thesis by (auto simp: written_def flags_memory_def fun_eq_iff)
qed

lemma flags_rtt_memory: "rtt_memory flags_rtt flags_memory"
proof -
  have "reads_ok flags_rtt flags_memory"
    unfolding reads_ok_def flags_denotes
    by (auto simp: flags_rtt_def flags_memory_def split: option.splits)
  moreover have "writes_ok flags_rtt flags_memory"
    unfolding writes_ok_def flags_denotes
    by (auto simp: flags_rtt_def flags_written split: option.splits)
  moreover have "allocates_ok flags_rtt flags_memory"
    unfolding allocates_ok_def allocated_def
    by (auto simp: flags_rtt_def flags_memory_def fun_eq_iff nth_append split: option.splits if_splits)
  ultimately show ?thesis by (simp add: rtt_memory_def)
qed

definition flags_codec :: codec_object where
  "flags_codec = SequenceCodec 20 None 1 (TypedCodec BoolType) None"

definition pair_codec :: codec_object where
  "pair_codec = StructureCodec 10 [(''on'', 1, TypedCodec BoolType), (''flags'', 20, flags_codec)] None"

lemma map_of_elements: "k < n \<Longrightarrow> map_of (map (\<lambda>i. (to_chars (int i), g i)) [0..<n]) (to_chars (int k)) = Some (g k)"
  by (induction n) (auto simp: to_chars_nat_inj less_Suc_eq map_add_Some_iff dest!: map_of_SomeD)

lemma flags_elements:
  "ready_elements (flags_value bs) 1 (TypedCodec BoolType) (length bs)" "rtt_type (flags_value bs) = 20"
  by (auto simp: ready_elements_def ready_part_def flags_value_def part_def int_content_def int32_def map_of_elements
      to_chars_not_size flag_value_def scalar_as_def)

lemma pair_codec_fits: "fits flags_memory pair_codec"
proof -
  have "ready_sequence flags_memory 20 None 1 (TypedCodec BoolType) (flags_value [])"
    using flags_elements(1) [of "replicate n False" for n] flags_elements(2)
    by (simp add: ready_sequence_def flags_memory_def)
  then show ?thesis
    by (simp add: pair_codec_def flags_codec_def flags_memory_def ready_part_def pair_value_def flags_elements(2)
        flag_value_def scalar_as_def)
qed

lemma flags_parts:
  "part (flags_value bs) ''size'' = Some (RttValue 2 (Some (IntType int32, VInt (int (length bs)))) [])"
  "k < length bs \<Longrightarrow> part (flags_value bs) (to_chars (int k)) = Some (flag_value (bs ! k))"
  by (simp_all add: part_def flags_value_def map_of_elements to_chars_not_size)

lemma pair_parts: "part (pair_value b bs) ''on'' = Some (flag_value b)" "part (pair_value b bs) ''flags'' = Some (flags_value bs)"
  by (simp_all add: part_def pair_value_def)

lemma flag_json:
  "value_json (TypedCodec BoolType) (flag_value b) c = (Ok j, c1) \<longleftrightarrow>
     j = JBool b \<and> (if b then 4 else 5) \<le> remaining c \<and> c1 = c\<lparr>remaining := remaining c - (if b then 4 else 5)\<rparr>"
  by (auto simp: flag_value_def scalar_as_def bool_encode_def codec_simps)

lemma flags_json:
  "value_json flags_codec (flags_value [True, False]) (roomy_context\<lparr>depth := 1, remaining := 79\<rparr>) =
     (Ok (JArray [JBool True, JBool False]), roomy_context\<lparr>depth := 1, remaining := 66\<rparr>)"
proof -
  have "part (flags_value [True, False]) (to_chars 0) = Some (flag_value True)"
    "part (flags_value [True, False]) (to_chars 1) = Some (flag_value False)"
    using flags_parts(2) [of 0 "[True, False]"] flags_parts(2) [of 1 "[True, False]"] by simp_all
  moreover have "[0..<2] = [0, Suc 0]" by (simp add: upt_rec)
  ultimately show ?thesis
    by (simp add: flags_codec_def reflected_value_Ok sequence_value_def flags_parts(1) flags_elements(2) int_content_def int32_def
        codec_simps part_value_def flag_json del: value_json.simps(1))
      (simp add: flag_value_def roomy_context_def leave_def)
qed

lemma pair_shown:
  "\<exists>c1. toJson flags_rtt [pair_value True [True, False]] pair_codec (Some (0, [], 10, True)) (Some (1, JNull)) roomy_context =
     (Ok (), Some (1, JObject [(''on'', JBool True), (''flags'', JArray [JBool True, JBool False])]), c1)"
proof -
  let ?v = "pair_value True [True, False]"
  have names: "accountJsonString ''on'' c = (Ok (), c\<lparr>remaining := remaining c - 4\<rparr>)"
    "accountJsonString ''flags'' c = (Ok (), c\<lparr>remaining := remaining c - 7\<rparr>)" if "10 \<le> remaining c" for c
  proof -
    have "validUtf8 ''on''" "validUtf8 ''flags''" by code_simp+
    moreover have "sum_list (map char_size ''on'') = 2" "sum_list (map char_size ''flags'') = 5" by code_simp+
    ultimately show "accountJsonString ''on'' c = (Ok (), c\<lparr>remaining := remaining c - 4\<rparr>)"
      "accountJsonString ''flags'' c = (Ok (), c\<lparr>remaining := remaining c - 7\<rparr>)"
      using that by (simp_all add: accountJsonString_exact)
  qed
  have "value_json (StructureCodec 10 [(''on'', 1, TypedCodec BoolType), (''flags'', 20, flags_codec)] None) ?v roomy_context =
    (Ok (JObject [(''on'', JBool True), (''flags'', JArray [JBool True, JBool False])]), roomy_context\<lparr>remaining := 66\<rparr>)"
  proof -
    let ?c = "roomy_context\<lparr>depth := 1, remaining := 92\<rparr>"
    have "part_value ?v ''on'' 1 (value_json (TypedCodec BoolType)) ?c = (Ok (JBool True), ?c\<lparr>remaining := 88\<rparr>)"
      "part_value ?v ''flags'' 20 (value_json flags_codec) (?c\<lparr>remaining := 79\<rparr>) =
         (Ok (JArray [JBool True, JBool False]), ?c\<lparr>remaining := 66\<rparr>)"
      using flags_json
      by (simp_all add: part_value_def pair_parts flag_json flags_elements(2) del: value_json.simps(1))
        (simp add: flag_value_def)
    then have "value_members [(''on'', 1, TypedCodec BoolType), (''flags'', 20, flags_codec)] ?v []
        (roomy_context\<lparr>depth := 1, remaining := 98\<rparr>) =
      (Ok [(''on'', JBool True), (''flags'', JArray [JBool True, JBool False])], ?c\<lparr>remaining := 66\<rparr>)"
      by (simp add: bind_codec_def return_def account_def names object_emplace_def del: value_json.simps(1))
    moreover have "roomy_context\<lparr>depth := Suc (depth roomy_context), remaining := remaining roomy_context - 2\<rparr> =
        roomy_context\<lparr>depth := 1, remaining := 98\<rparr>" "leave (?c\<lparr>remaining := 66\<rparr>) = roomy_context\<lparr>remaining := 66\<rparr>"
      "depth roomy_context \<noteq> maxDepth (limits roomy_context)" "2 \<le> remaining roomy_context" "rtt_type ?v = 10"
      by (simp_all add: roomy_context_def leave_def pair_value_def)
    ultimately show ?thesis
      unfolding value_json.simps(4) reflected_value_Ok by (auto simp: bind_codec_Ok return_eq)
  qed
  then show ?thesis
    using shows_value [OF flags_rtt_memory pair_codec_fits, of "[?v]" "(0, [], 10, True)" ?v roomy_context "Some (1, JNull)"]
    by (simp add: pair_codec_def deliver_def usable_result_def roomy_context_def flags_denotes) (simp add: flags_rtt_def pair_value_def)
qed

lemma read_value_written_back_witness:
  "\<exists>x d1 w1 w2. makeDataSource flags_rtt pair_codec
       (JObject [(''on'', JBool True), (''flags'', JArray [JBool True, JBool False])]) roomy_context [pair_value False []] =
       (Ok x, d1, w1)
     \<and> codec_assign flags_rtt pair_codec (Some x) (Some (0, [], 10, True)) w1 = (Ok (), w2)
     \<and> same_reading flags_rtt pair_codec w2 (0, [], 10, True) [pair_value True [True, False]] (0, [], 10, True)"
proof -
  let ?s = "(0, [], 10, True) :: place"
  have s: "denotes flags_rtt flags_memory [pair_value b bs] ?s (pair_value b bs)" for b bs
    unfolding flags_denotes by (simp add: flags_rtt_def pair_value_def)
  have typed: "well_typed (pair_value True [True, False])"
    by (simp add: pair_value_def flags_value_def flag_value_def int32_def in_range_def imin_def imax_def list_all_iff)
  obtain c1 where "toJson flags_rtt [pair_value True [True, False]] pair_codec (Some ?s) (Some (storage roomy_context, JNull))
      roomy_context = (Ok (), Some (1, JObject [(''on'', JBool True), (''flags'', JArray [JBool True, JBool False])]), c1)"
    using pair_shown by (auto simp: roomy_context_def)
  moreover have "roomy roomy_context roomy_context" by (simp add: roomy_def roomy_context_def)
  ultimately obtain x d1 w1 where made: "makeDataSource flags_rtt pair_codec
       (JObject [(''on'', JBool True), (''flags'', JArray [JBool True, JBool False])]) roomy_context [pair_value False []] =
       (Ok x, d1, w1)"
    and assign: "\<forall>dest t. denotes flags_rtt flags_memory [pair_value False []] dest t \<longrightarrow>
         (if source_assignable flags_rtt dest \<and> suits pair_codec t
          then \<exists>w2 q. codec_assign flags_rtt pair_codec (Some x) (Some dest) w1 = (Ok (), w2)
            \<and> written flags_memory w1 dest q w2
            \<and> same_reading flags_rtt pair_codec w2 dest [pair_value True [True, False]] ?s
          else codec_assign flags_rtt pair_codec (Some x) (Some dest) w1 = (codecFailure InvalidDataSource, w1))"
    using read_value_written_back [OF flags_rtt_memory pair_codec_fits s typed, where w = "[pair_value False []]"] by metis
  have "source_assignable flags_rtt ?s \<and> suits pair_codec (pair_value False [])"
    by (simp add: flags_rtt_def pair_codec_def pair_value_def)
  with assign s [of False "[]"] made show ?thesis by metis
qed

end
