(* ===== verification/Network_Pool.thy ===== *)
theory Network_Pool
  imports Prelude
begin

text \<open>
  The thread pool behind the HTTP listener (\<open>NetworkPool\<close> of \<open>server.cpp\<close>): construction,
  \<open>enqueue\<close>, \<open>work\<close> and \<open>shutdown\<close>.

  One step is one critical section of the pool's mutex or one action between two of them (the
  start of a thread, the end of a task, the callback of \<open>shutdown\<close>, a join).  A task is an
  accepted connection, identified by a number; whether it throws makes no difference, because
  \<open>work\<close> swallows what it throws.

  \<open>accepted\<close>, \<open>begun\<close>, \<open>dropped\<close> and \<open>notified\<close> are history variables: the tasks taken in, those
  given to a thread, those destroyed unused, and the calls of the callback.
\<close>

section \<open>State\<close>

datatype pool_pc = PoolWait | PoolTask nat | PoolExit

text \<open>
  The thread that owns the pool: in the constructor, between constructor and shutdown, at the
  callback, at the critical section, at the joins, and past them.
\<close>

datatype pool_owner = Building | Built | Notifying | Closing | JoiningPool | JoinedPool

record pool =
  pool_cap :: u32
  pool_width :: nat
  has_callback :: bool
  closing :: bool
  waiting :: "nat list"
  threads :: nat
  thread_pc :: "nat \<Rightarrow> pool_pc"
  pool_thread :: pool_owner
  accepted :: "nat list"
  begun :: "nat list"
  dropped :: "nat list"
  notified :: nat

definition new_pool :: "u32 \<Rightarrow> u32 \<Rightarrow> bool \<Rightarrow> pool" where
  "new_pool w cap callback = \<lparr>pool_cap = cap, pool_width = unat w, has_callback = callback, closing = False,
     waiting = [], threads = 0, thread_pc = (\<lambda>_. PoolWait), pool_thread = Building, accepted = [],
     begun = [], dropped = [], notified = 0\<rparr>"

section \<open>Operations\<close>

text \<open>
  The constructor's loop: \<open>spawned\<close> says whether the next thread could be started; if not, the
  pool is shut down before the exception goes on.
\<close>

definition build_step :: "bool \<Rightarrow> pool \<Rightarrow> pool option" where
  "build_step spawned st =
     (if pool_thread st \<noteq> Building then None
      else if pool_width st \<le> threads st then Some (st\<lparr>pool_thread := Built\<rparr>)
      else if spawned then Some (st\<lparr>threads := Suc (threads st)\<rparr>)
      else Some (st\<lparr>pool_thread := Notifying\<rparr>))"

definition enqueue :: "nat \<Rightarrow> pool \<Rightarrow> bool \<times> pool" where
  "enqueue task st =
     (if closing st \<or> unat (pool_cap st) \<le> length (waiting st) then (False, st)
      else (True, st\<lparr>waiting := waiting st @ [task], accepted := accepted st @ [task]\<rparr>))"

definition work_step :: "nat \<Rightarrow> pool \<Rightarrow> pool option" where
  "work_step n st =
     (case thread_pc st n of
        PoolWait \<Rightarrow>
          if closing st then Some (st\<lparr>thread_pc := (thread_pc st)(n := PoolExit)\<rparr>)
          else (case waiting st of
            [] \<Rightarrow> None
          | task # rest \<Rightarrow> Some (st\<lparr>waiting := rest, begun := begun st @ [task],
              thread_pc := (thread_pc st)(n := PoolTask task)\<rparr>))
      | PoolTask task \<Rightarrow> Some (st\<lparr>thread_pc := (thread_pc st)(n := PoolWait)\<rparr>)
      | PoolExit \<Rightarrow> None)"

definition all_exited :: "pool \<Rightarrow> bool" where
  "all_exited st \<longleftrightarrow> list_all (\<lambda>n. thread_pc st n = PoolExit) [0..<threads st]"

text \<open>\<open>shutdown\<close>, which the destructor calls again: \<open>JoinedPool\<close> starts over.\<close>

definition shutdown_step :: "pool \<Rightarrow> pool option" where
  "shutdown_step st =
     (case pool_thread st of
        Building \<Rightarrow> None
      | Built \<Rightarrow> Some (st\<lparr>pool_thread := Notifying\<rparr>)
      | Notifying \<Rightarrow> Some (st\<lparr>pool_thread := Closing,
          notified := (if has_callback st then Suc (notified st) else notified st)\<rparr>)
      | Closing \<Rightarrow> Some (st\<lparr>pool_thread := JoiningPool, closing := True, waiting := [],
          dropped := dropped st @ waiting st\<rparr>)
      | JoiningPool \<Rightarrow> if all_exited st then Some (st\<lparr>pool_thread := JoinedPool\<rparr>) else None
      | JoinedPool \<Rightarrow> Some (st\<lparr>pool_thread := Notifying\<rparr>))"

inductive pool_step :: "pool \<Rightarrow> pool \<Rightarrow> bool" where
  build: "build_step spawned st = Some st' \<Longrightarrow> pool_step st st'"
| enqueue: "pool_thread st \<noteq> Building \<Longrightarrow> enqueue task st = (r, st') \<Longrightarrow> pool_step st st'"
| work: "n < threads st \<Longrightarrow> work_step n st = Some st' \<Longrightarrow> pool_step st st'"
| shutdown: "shutdown_step st = Some st' \<Longrightarrow> pool_step st st'"

definition pool_reachable :: "pool \<Rightarrow> bool" where
  "pool_reachable st \<longleftrightarrow> (\<exists>w cap callback. pool_step\<^sup>*\<^sup>* (new_pool w cap callback) st)"

section \<open>The invariant\<close>

text \<open>
  Whether the pool is closed decides most of it: \<open>open_inv\<close> and \<open>closed_inv\<close> are the two cases.
\<close>

definition open_inv :: "pool \<Rightarrow> bool" where
  "open_inv st \<longleftrightarrow> accepted st = begun st @ waiting st \<and> dropped st = []
     \<and> length (waiting st) \<le> unat (pool_cap st) \<and> pool_thread st \<noteq> JoiningPool \<and> pool_thread st \<noteq> JoinedPool
     \<and> (pool_thread st = Closing \<longrightarrow> has_callback st \<longrightarrow> 0 < notified st)"

definition closed_inv :: "pool \<Rightarrow> bool" where
  "closed_inv st \<longleftrightarrow> accepted st = begun st @ dropped st \<and> waiting st = []
     \<and> pool_thread st \<noteq> Building \<and> pool_thread st \<noteq> Built
     \<and> (has_callback st \<longrightarrow> 0 < notified st) \<and> (pool_thread st = JoinedPool \<longrightarrow> all_exited st)"

definition pool_inv :: "pool \<Rightarrow> bool" where
  "pool_inv st = (if closing st then closed_inv st else open_inv st)"

lemma new_pool_inv: "pool_inv (new_pool w cap callback)"
  by (simp add: pool_inv_def open_inv_def new_pool_def)

lemmas step_defs = build_step_def enqueue_def work_step_def shutdown_step_def

lemma open_keeps:
  assumes "open_inv st" "\<not> closing st"
  shows "build_step spawned st = Some st' \<Longrightarrow> pool_inv st'" "enqueue task st = (r, st') \<Longrightarrow> pool_inv st'"
    "work_step n st = Some st' \<Longrightarrow> pool_inv st'" "shutdown_step st = Some st' \<Longrightarrow> pool_inv st'"
  using assms
  by (auto simp: step_defs pool_inv_def open_inv_def closed_inv_def
      split: if_splits list.splits pool_pc.splits pool_owner.splits)

lemma closed_keeps:
  assumes "closed_inv st" "closing st"
  shows "build_step spawned st = Some st' \<Longrightarrow> pool_inv st'" "enqueue task st = (r, st') \<Longrightarrow> pool_inv st'"
    "work_step n st = Some st' \<Longrightarrow> pool_inv st'" "shutdown_step st = Some st' \<Longrightarrow> pool_inv st'"
  using assms
  by (auto simp: step_defs pool_inv_def closed_inv_def all_exited_def list_all_iff
      split: if_splits pool_pc.splits pool_owner.splits)

lemma pool_step_keeps: "pool_step st st' \<Longrightarrow> pool_inv st \<Longrightarrow> pool_inv st'"
  by (induction rule: pool_step.induct) (metis pool_inv_def open_keeps closed_keeps)+

lemma pool_steps_keep: "pool_step\<^sup>*\<^sup>* st st' \<Longrightarrow> pool_inv st \<Longrightarrow> pool_inv st'"
  by (induction rule: rtranclp_induct) (auto intro: pool_step_keeps)

lemma pool_reachable_inv: "pool_reachable st \<Longrightarrow> pool_inv st"
  unfolding pool_reachable_def by (blast intro: pool_steps_keep new_pool_inv)

section \<open>Joining ends\<close>

text \<open>
  Once the pool is closing, a thread needs at most two steps to return: it ends its task, and
  it sees the flag.
\<close>

lemma thread_returns:
  assumes "closing st" "n < threads st"
  obtains st' where "pool_step\<^sup>*\<^sup>* st st'" "st' = st\<lparr>thread_pc := (thread_pc st)(n := PoolExit)\<rparr>"
proof (cases "thread_pc st n")
  case PoolWait
  with assms show thesis
    by (intro that [of "st\<lparr>thread_pc := (thread_pc st)(n := PoolExit)\<rparr>"])
      (auto intro!: r_into_rtranclp pool_step.work [of n] simp: work_step_def)
next
  case (PoolTask task)
  let ?mid = "st\<lparr>thread_pc := (thread_pc st)(n := PoolWait)\<rparr>"
  have "pool_step st ?mid" using assms(2) PoolTask by (intro pool_step.work [of n]) (simp_all add: work_step_def)
  moreover have "pool_step ?mid (st\<lparr>thread_pc := (thread_pc st)(n := PoolExit)\<rparr>)"
    using assms by (intro pool_step.work [of n]) (simp_all add: work_step_def)
  ultimately show thesis by (intro that [OF _ refl]) auto
next
  case PoolExit
  then have "st\<lparr>thread_pc := (thread_pc st)(n := PoolExit)\<rparr> = st" by (simp add: fun_upd_idem)
  then show thesis by (intro that [of st]) auto
qed

lemma threads_return:
  assumes "closing st" "m \<le> threads st"
  shows "\<exists>st'. pool_step\<^sup>*\<^sup>* st st' \<and> (\<exists>pcs. st' = st\<lparr>thread_pc := pcs\<rparr>) \<and> (\<forall>n<m. thread_pc st' n = PoolExit)"
  using assms(2)
proof (induction m)
  case 0
  show ?case by (rule exI [of _ st]) (auto intro: exI [of _ "thread_pc st"])
next
  case (Suc m)
  then obtain mid pcs where mid: "pool_step\<^sup>*\<^sup>* st mid" "mid = st\<lparr>thread_pc := pcs\<rparr>" "\<forall>n<m. pcs n = PoolExit"
    by auto
  with assms(1) Suc(2) obtain st' where "pool_step\<^sup>*\<^sup>* mid st'"
      "st' = mid\<lparr>thread_pc := (thread_pc mid)(m := PoolExit)\<rparr>"
    using thread_returns [of mid m] by auto
  with mid show ?case
    by (intro exI [of _ st']) (auto simp: less_Suc_eq intro: rtranclp_trans)
qed

lemma joining_ends:
  assumes "pool_inv st" "pool_thread st = JoiningPool"
  shows "\<exists>st'. pool_step\<^sup>*\<^sup>* st st' \<and> pool_thread st' = JoinedPool \<and> begun st' = begun st"
proof -
  from assms have "closing st" by (simp add: pool_inv_def open_inv_def split: if_splits)
  then obtain mid pcs where mid: "pool_step\<^sup>*\<^sup>* st mid" "mid = st\<lparr>thread_pc := pcs\<rparr>"
      "\<forall>n < threads st. pcs n = PoolExit"
    using threads_return [of st "threads st"] by auto
  then have "pool_step mid (mid\<lparr>pool_thread := JoinedPool\<rparr>)"
    using assms(2) by (intro pool_step.shutdown) (simp add: shutdown_step_def all_exited_def list_all_iff)
  with mid show ?thesis by (intro exI [of _ "mid\<lparr>pool_thread := JoinedPool\<rparr>"]) auto
qed

lemma closed_pool_idle:
  assumes "pool_step st st'" "closed_inv st" "closing st"
  shows "begun st' = begun st \<and> accepted st' = accepted st \<and> closing st'"
  using assms
  by cases (auto simp: step_defs closed_inv_def split: if_splits pool_pc.splits pool_owner.splits)

lemma closed_pool_stays:
  "pool_step\<^sup>*\<^sup>* st st' \<Longrightarrow> pool_inv st \<Longrightarrow> closing st \<Longrightarrow>
     begun st' = begun st \<and> accepted st' = accepted st \<and> closing st'"
  by (induction rule: rtranclp_induct)
    (simp, metis closed_pool_idle pool_inv_def pool_steps_keep)

section \<open>Properties of the pool\<close>

text \<open>
  C13: in every interleaving each accepted connection is at exactly one place: given to one
  thread, waiting, or dropped by the shutdown.  Connections are served in the order of their
  arrival, none twice, and no more than the configured number ever waits.
\<close>

theorem pool_serves_once:
  assumes "pool_reachable st"
  shows "accepted st = begun st @ waiting st @ dropped st \<and> length (waiting st) \<le> unat (pool_cap st)
     \<and> (dropped st = [] \<or> closing st)"
proof (cases "closing st")
  case True
  then have "closed_inv st" using pool_reachable_inv [OF assms] by (simp add: pool_inv_def)
  with True show ?thesis by (simp add: closed_inv_def)
next
  case False
  then have "open_inv st" using pool_reachable_inv [OF assms] by (simp add: pool_inv_def)
  then show ?thesis by (simp add: open_inv_def)
qed

text \<open>
  Once \<open>shutdown\<close> joins the threads, no further connection is accepted or given to a
  thread, and the callback has told the server before.  Joining can always end: the threads
  can return, after which nothing waits.
\<close>

theorem pool_shutdown_completes:
  assumes "pool_reachable st" "pool_thread st = JoiningPool"
  shows "(\<exists>st'. pool_step\<^sup>*\<^sup>* st st' \<and> pool_thread st' = JoinedPool \<and> all_exited st' \<and> waiting st' = [])
     \<and> (\<forall>st'. pool_step\<^sup>*\<^sup>* st st' \<longrightarrow> begun st' = begun st \<and> accepted st' = accepted st)
     \<and> (has_callback st \<longrightarrow> 0 < notified st)"
proof -
  have inv: "pool_inv st" by (rule pool_reachable_inv [OF assms(1)])
  with assms(2) have closed: "closing st" "closed_inv st"
    by (simp_all add: pool_inv_def open_inv_def split: if_splits)
  obtain st' where st': "pool_step\<^sup>*\<^sup>* st st'" "pool_thread st' = JoinedPool"
    using joining_ends assms(2) inv by blast
  have "pool_inv st'" by (rule pool_steps_keep [OF st'(1) inv])
  moreover have "closing st'" using closed_pool_stays [OF st'(1) inv closed(1)] by blast
  ultimately have ended: "all_exited st'" "waiting st' = []"
    using st'(2) by (simp_all add: pool_inv_def closed_inv_def)
  have "has_callback st \<longrightarrow> 0 < notified st" using closed(2) unfolding closed_inv_def by blast
  then show ?thesis
    using st' ended closed_pool_stays [OF _ inv closed(1)] by blast
qed

text \<open>Two threads, a queue of one: the third connection is refused, the second one dropped.\<close>

datatype pool_action = Spawn | Arrive nat | Thread nat | Owner

fun pool_do :: "pool_action \<Rightarrow> pool \<Rightarrow> pool option" where
  "pool_do Spawn st = build_step True st"
| "pool_do (Arrive task) st = (if pool_thread st = Building then None else Some (snd (enqueue task st)))"
| "pool_do (Thread n) st = (if n < threads st then work_step n st else None)"
| "pool_do Owner st = shutdown_step st"

fun pool_do_all :: "pool_action list \<Rightarrow> pool \<Rightarrow> pool option" where
  "pool_do_all [] st = Some st"
| "pool_do_all (a # as) st = Option.bind (pool_do a st) (pool_do_all as)"

lemma pool_do_step: "pool_do a st = Some st' \<Longrightarrow> pool_step st st'"
  by (cases a) (auto split: if_splits intro: pool_step.intros prod.collapse [symmetric])

lemma pool_do_all_steps: "pool_do_all as st = Some st' \<Longrightarrow> pool_step\<^sup>*\<^sup>* st st'"
  by (induction as arbitrary: st)
    (auto simp: bind_eq_Some_conv intro: converse_rtranclp_into_rtranclp pool_do_step)

definition sample_arrivals :: "pool_action list" where
  "sample_arrivals = [Spawn, Spawn, Spawn, Arrive 7, Thread 1, Arrive 8, Arrive 9, Owner, Owner, Owner]"

definition sample_pool :: pool where
  "sample_pool = the (pool_do_all sample_arrivals (new_pool 2 1 True))"

lemma sample_pool_reachable: "pool_reachable sample_pool"
proof -
  have "\<not> Option.is_none (pool_do_all sample_arrivals (new_pool 2 1 True))" by code_simp
  then have "pool_step\<^sup>*\<^sup>* (new_pool 2 1 True) sample_pool"
    unfolding sample_pool_def by (auto simp: Option.is_none_def intro: pool_do_all_steps)
  then show ?thesis unfolding pool_reachable_def by blast
qed

lemma pool_serves_once_witness:
  "accepted sample_pool = [7, 8] \<and> begun sample_pool = [7] \<and> dropped sample_pool = [8]"
proof -
  have "accepted sample_pool = [7, 8]" "begun sample_pool = [7]" "waiting sample_pool = []" by code_simp+
  then show ?thesis using pool_serves_once [OF sample_pool_reachable] by simp
qed

lemma pool_shutdown_completes_witness:
  "\<exists>st. pool_thread st = JoinedPool \<and> all_exited st \<and> accepted st = [7, 8] \<and> begun st = [7]"
proof -
  have "pool_thread sample_pool = JoiningPool" "begun sample_pool = [7]" "accepted sample_pool = [7, 8]"
    by code_simp+
  then show ?thesis using pool_shutdown_completes [OF sample_pool_reachable] by metis
qed

end
