(* ===== verification/Executor_Shutdown.thy ===== *)
theory Executor_Shutdown
  imports Operation_Executor
begin

text \<open>
  The shutdown of an executor (\<open>OperationExecutor::shutdown\<close>, \<open>drain\<close> and the joins) as its owner
  sees it: the steps of its threads and of the thread that shuts it down, without admission; what
  they keep; and that the shutdown can always be completed.
\<close>

section \<open>Steps without admission\<close>

text \<open>A step of an executor's own threads, or of the thread that shuts it down.\<close>

datatype engine_action = EngineWork nat call_outcome | EngineReap collect_outcome | EngineControl

fun engine_do :: "engine_action \<Rightarrow> executor \<Rightarrow> executor option" where
  "engine_do (EngineWork n outcome) e = (if n < width e then worker_step n outcome e else None)"
| "engine_do (EngineReap outcome) e = reaper_step outcome e"
| "engine_do EngineControl e = control_step e"

text \<open>An executor whose \<open>shutdown\<close> has returned.\<close>

definition threads_joined :: "executor \<Rightarrow> bool" where
  "threads_joined e \<longleftrightarrow> control e = Joining
     \<and> list_all (\<lambda>n. workers e n = WorkerExited) [0..<width e] \<and> reaper e = ReaperExited"

lemma admit_width [simp]: "width (snd (admit i cap t now allocated e)) = width e"
  by (auto simp: admit_def Let_def)

lemma engine_do_width: "engine_do a e = Some e' \<Longrightarrow> width e' = width e"
  by (cases a)
    (auto simp: worker_step_def reaper_step_def control_step_def Let_def finish_set_def finish_erase_def
      dispatch_def send_status_def
      split: if_splits worker_pc.splits reaper_pc.splits control_pc.splits list.splits
        collect_outcome.splits call_outcome.splits)

lemma engine_do_keeps: "engine_do a e = Some e' \<Longrightarrow> exec_inv cap e \<Longrightarrow> exec_inv cap e'"
  by (cases a) (auto split: if_splits intro: worker_step_keeps reaper_step_keeps control_step_keeps)

lemma engine_do_open: "engine_do a e = Some e' \<Longrightarrow> a \<noteq> EngineControl \<Longrightarrow> control e' = control e"
  by (cases a)
    (auto simp: worker_step_def reaper_step_def Let_def finish_set_def finish_erase_def dispatch_def send_status_def
      split: if_splits worker_pc.splits reaper_pc.splits list.splits collect_outcome.splits call_outcome.splits)

lemma engine_do_pending: "engine_do a e = Some e' \<Longrightarrow> set (pending e') \<subseteq> set (pending e)"
  by (cases a)
    (auto simp: worker_step_def reaper_step_def control_step_def Let_def finish_set_def finish_erase_def
      dispatch_def send_status_def
      split: if_splits worker_pc.splits reaper_pc.splits control_pc.splits list.splits
        collect_outcome.splits call_outcome.splits)

definition drained :: "executor \<Rightarrow> bool" where
  "drained e \<longleftrightarrow> control e = Drained \<or> control e = Joining"

lemma engine_do_drained:
  assumes "engine_do a e = Some e'" "drained e \<Longrightarrow> pending e = []" "drained e'"
  shows "pending e' = []"
proof (cases "a = EngineControl")
  case True
  with assms show ?thesis by (auto simp: control_step_def drained_def split: control_pc.splits if_splits)
next
  case False
  then have "drained e" using assms(1,3) engine_do_open by (auto simp: drained_def)
  then show ?thesis using assms(2) engine_do_pending [OF assms(1)] by simp
qed

text \<open>An executor that is being shut down, and one that has been.\<close>

definition winding_down :: "executor \<Rightarrow> bool" where
  "winding_down e \<longleftrightarrow> (\<exists>cap. exec_inv cap e) \<and> (drained e \<longrightarrow> pending e = [])"

definition all_finished :: "executor \<Rightarrow> bool" where
  "all_finished e \<longleftrightarrow> (\<forall>i. admissions (invs e i) = 0 \<or> complete (invs e i))"

lemma engine_do_winding_down: "engine_do a e = Some e' \<Longrightarrow> winding_down e \<Longrightarrow> winding_down e'"
  unfolding winding_down_def using engine_do_keeps engine_do_drained by blast

lemma threads_joined_finished: "threads_joined e \<Longrightarrow> winding_down e \<Longrightarrow> all_finished e"
  unfolding winding_down_def all_finished_def threads_joined_def drained_def using drained_complete by blast

lemma pending_count_exact: "exec_inv cap e \<Longrightarrow> unat (pending_count e) = length (pending e)"
proof -
  assume "exec_inv cap e"
  then have "length (pending e) \<le> unat cap" by (rule exec_invD(4))
  also have "\<dots> < 2 ^ 32" using unsigned_less [of cap] by simp
  finally show ?thesis by (simp add: pending_count_def unsigned_of_nat take_bit_nat_eq_self)
qed

lemma pending_count_zero: "exec_inv cap e \<Longrightarrow> pending_count e = 0 \<Longrightarrow> pending e = []"
  using pending_count_exact [of cap e] by simp

section \<open>The shutdown can be completed\<close>

definition engine_run :: "executor \<Rightarrow> executor \<Rightarrow> bool" where
  "engine_run = (\<lambda>e e'. \<exists>a. engine_do a e = Some e')\<^sup>*\<^sup>*"

lemma engine_run_refl: "engine_run e e"
  by (simp add: engine_run_def)

lemma engine_run_trans [trans]: "engine_run e e' \<Longrightarrow> engine_run e' e'' \<Longrightarrow> engine_run e e''"
  unfolding engine_run_def by (rule rtranclp_trans)

lemma engine_run_step: "engine_do a e = Some e' \<Longrightarrow> engine_run e' e'' \<Longrightarrow> engine_run e e''"
  unfolding engine_run_def by (blast intro: converse_rtranclp_into_rtranclp)

lemma engine_run_one: "engine_do a e = Some e' \<Longrightarrow> engine_run e e'"
  by (rule engine_run_step [OF _ engine_run_refl])

lemma engine_run_keeps:
  assumes "engine_run e e'" "P e" "\<And>e a e'. engine_do a e = Some e' \<Longrightarrow> P e \<Longrightarrow> P e'"
  shows "P e'"
  using assms(1,2) unfolding engine_run_def by (induction rule: rtranclp_induct) (auto intro: assms(3))

text \<open>Threads exit only after the stop, and the executor has no worker beyond its width.\<close>

definition awake :: "executor \<Rightarrow> bool" where
  "awake e \<longleftrightarrow> (stopped e \<longleftrightarrow> control e = Joining) \<and> (\<forall>n. width e \<le> n \<longrightarrow> workers e n = AwaitWork)
     \<and> (stopped e \<or> (\<forall>n. workers e n \<noteq> WorkerExited) \<and> reaper e \<noteq> ReaperExited)"

lemma engine_do_awake: "engine_do a e = Some e' \<Longrightarrow> awake e \<Longrightarrow> awake e'"
  by (cases a)
    (auto simp: awake_def worker_step_def reaper_step_def control_step_def Let_def finish_set_def finish_erase_def
      dispatch_def send_status_def
      split: if_splits worker_pc.splits reaper_pc.splits control_pc.splits list.splits
        collect_outcome.splits call_outcome.splits)

lemma admit_awake: "awake e \<Longrightarrow> awake (snd (admit i cap t now allocated e))"
  by (auto simp: awake_def admit_def Let_def)

lemma new_executor_awake: "awake (new_executor w sends)"
  by (simp add: awake_def new_executor_def)

text \<open>The work left to the workers.\<close>

fun worker_work :: "worker_pc \<Rightarrow> nat" where
  "worker_work (Running i) = 3"
| "worker_work (SetResult i s) = 2"
| "worker_work (EraseResult i) = 1"
| "worker_work (MarkSent i) = 1"
| "worker_work _ = 0"

definition work_left :: "executor \<Rightarrow> nat" where
  "work_left e = 4 * length (queue e) + (\<Sum>n < width e. worker_work (workers e n))"

lemma sum_moved:
  assumes "n < (w :: nat)"
  shows "(\<Sum>m < w. worker_work ((f(n := pc)) m)) + worker_work (f n) = (\<Sum>m < w. worker_work (f m)) + worker_work pc"
proof -
  have "(\<Sum>m < w. worker_work (g m)) = worker_work (g n) + (\<Sum>m \<in> {..<w} - {n}. worker_work (g m))" for g
    using assms by (intro sum.remove) auto
  moreover have "(\<Sum>m \<in> {..<w} - {n}. worker_work ((f(n := pc)) m)) = (\<Sum>m \<in> {..<w} - {n}. worker_work (f m))"
    by (rule sum.cong) auto
  ultimately show ?thesis by (metis (no_types) add.assoc add.commute fun_upd_same)
qed

lemma worker_ready:
  "workers e n \<noteq> WorkerExited \<Longrightarrow> queue e \<noteq> [] \<or> owner (workers e n) \<noteq> None \<Longrightarrow>
     \<exists>e'. worker_step n (Returned True) e = Some e'"
  by (cases "workers e n"; cases "queue e") (auto simp: worker_step_def)

lemma worker_alone: "worker_step n outcome e = Some e' \<Longrightarrow> m \<noteq> n \<Longrightarrow> workers e' m = workers e m"
  by (auto simp: worker_step_def dispatch_def send_status_def finish_set_def finish_erase_def
      split: worker_pc.splits list.splits if_splits call_outcome.splits)

lemma worker_moves:
  assumes "worker_step n (Returned True) e = Some e'" "queue e \<noteq> [] \<or> owner (workers e n) \<noteq> None"
  shows "4 * length (queue e') + worker_work (workers e' n) < 4 * length (queue e) + worker_work (workers e n)"
proof (cases "workers e n")
  case AwaitWork
  with assms show ?thesis by (auto simp: worker_step_def split: list.splits)
qed (use assms in \<open>auto simp: worker_step_def dispatch_def send_status_def finish_set_def finish_erase_def
      split: if_splits\<close>)

lemma worker_progress:
  assumes "n < width e" "workers e n \<noteq> WorkerExited" "queue e \<noteq> [] \<or> owner (workers e n) \<noteq> None"
  shows "\<exists>e'. engine_do (EngineWork n (Returned True)) e = Some e' \<and> work_left e' < work_left e"
proof -
  obtain e' where e': "worker_step n (Returned True) e = Some e'"
    using worker_ready [OF assms(2,3)] by blast
  then have do: "engine_do (EngineWork n (Returned True)) e = Some e'" using assms(1) by simp
  have moved: "workers e' = (workers e)(n := workers e' n)"
    using worker_alone [OF e'] by (auto simp: fun_eq_iff)
  have "(\<Sum>m < width e. worker_work (workers e' m)) + worker_work (workers e n)
      = (\<Sum>m < width e. worker_work (workers e m)) + worker_work (workers e' n)"
    by (subst moved) (rule sum_moved [OF assms(1)])
  then have "work_left e' < work_left e"
    using worker_moves [OF e' assms(3)] engine_do_width [OF do] by (simp add: work_left_def)
  with do show ?thesis by blast
qed

lemma workers_finish:
  assumes "awake e" "\<not> stopped e" "0 < width e"
  shows "\<exists>e'. engine_run e e' \<and> queue e' = [] \<and> (\<forall>n. owner (workers e' n) = None) \<and> \<not> stopped e'"
  using assms
proof (induction "work_left e" arbitrary: e rule: less_induct)
  case less
  show ?case
  proof (cases "queue e = [] \<and> (\<forall>n. owner (workers e n) = None)")
    case True
    then show ?thesis using less.prems(2) engine_run_refl by blast
  next
    case False
    then obtain n where n: "queue e \<noteq> [] \<or> owner (workers e n) \<noteq> None" "n < width e"
      using less.prems(1,3) unfolding awake_def by (metis not_le owner.simps(5) length_0_conv)
    moreover have "workers e n \<noteq> WorkerExited" using less.prems by (auto simp: awake_def)
    ultimately obtain e' where e': "engine_do (EngineWork n (Returned True)) e = Some e'" "work_left e' < work_left e"
      using worker_progress by blast
    have "awake e'" "control e' = control e" "width e' = width e"
      using engine_do_awake [OF e'(1) less.prems(1)] engine_do_open [OF e'(1)] engine_do_width [OF e'(1)] by simp_all
    moreover from this have "\<not> stopped e'" using less.prems(1,2) by (simp add: awake_def)
    ultimately show ?thesis
      using less.hyps [OF e'(2)] less.prems(3) engine_run_step [OF e'(1)] by auto
  qed
qed

text \<open>The workers have nothing to do.\<close>

definition at_rest :: "executor \<Rightarrow> bool" where
  "at_rest e \<longleftrightarrow> queue e = [] \<and> (\<forall>n. owner (workers e n) = None) \<and> \<not> stopped e \<and> awake e \<and> (\<exists>cap. exec_inv cap e)"

lemma reaper_do:
  assumes "reaper_step outcome e = Some e'" "at_rest e"
  shows "at_rest e'" "engine_run e e'"
proof -
  have do: "engine_do (EngineReap outcome) e = Some e'" using assms(1) by simp
  then show "engine_run e e'" by (rule engine_run_one)
  have "queue e' = queue e" "workers e' = workers e" "stopped e' = stopped e"
    using assms(1)
    by (auto simp: reaper_step_def Let_def finish_set_def finish_erase_def
        split: if_splits reaper_pc.splits collect_outcome.splits)
  then show "at_rest e'"
    using assms(2) engine_do_awake [OF do] engine_do_keeps [OF do] by (auto simp: at_rest_def)
qed

text \<open>The reaper returns to its scan, without waiting for an operation it has asked about.\<close>

fun reaper_rank :: "reaper_pc \<Rightarrow> nat" where
  "reaper_rank (Scan k) = 0"
| "reaper_rank (Candidate i k) = 2"
| "reaper_rank (ReapResult i s k) = 2"
| "reaper_rank _ = 1"

lemma reaper_hop:
  assumes "at_rest e" "0 < reaper_rank (reaper e)"
  shows "\<exists>e'. reaper_step SendNotReady e = Some e' \<and> reaper_rank (reaper e') < reaper_rank (reaper e)
     \<and> length (pending e') \<le> length (pending e)"
  using assms
  by (cases "reaper e")
    (auto simp: at_rest_def awake_def reaper_step_def Let_def finish_set_def finish_erase_def)

lemma reaper_settles:
  assumes "at_rest e"
  shows "\<exists>e' k. engine_run e e' \<and> at_rest e' \<and> reaper e' = Scan k \<and> length (pending e') \<le> length (pending e)"
  using assms
proof (induction "reaper_rank (reaper e)" arbitrary: e rule: less_induct)
  case less
  show ?case
  proof (cases "0 < reaper_rank (reaper e)")
    case True
    then obtain e1 where e1: "reaper_step SendNotReady e = Some e1"
        "reaper_rank (reaper e1) < reaper_rank (reaper e)" "length (pending e1) \<le> length (pending e)"
      using reaper_hop less.prems by blast
    note rest = reaper_do [OF e1(1) less.prems]
    obtain e' k where "engine_run e1 e'" "at_rest e'" "reaper e' = Scan k" "length (pending e') \<le> length (pending e1)"
      using less.hyps [OF e1(2) rest(1)] by blast
    then show ?thesis using engine_run_trans [OF rest(2)] e1(3) by (meson le_trans)
  next
    case False
    then show ?thesis using less.prems engine_run_refl by (cases "reaper e") auto
  qed
qed

text \<open>With the workers at rest, what is pending has been sent and waits for the reaper.\<close>

lemma at_rest_sent:
  assumes "at_rest e" "reaper e = Candidate i k" "i \<in> set (pending e)"
  shows "sent (invs e i)" "\<not> complete (invs e i)"
proof -
  obtain cap where "exec_inv cap e" using assms(1) by (auto simp: at_rest_def)
  then have "place_ok e i" by (rule exec_invD(8))
  then have "in_phase Sent (invs e i)"
    using assms by (auto simp: place_ok_def at_rest_def owned_def)
  then show "sent (invs e i)" "\<not> complete (invs e i)" by simp_all
qed

text \<open>It is asked, answers that it has succeeded, and leaves.\<close>

lemma reaper_takes_one:
  assumes "at_rest e" "reaper e = Scan k" "k < length (pending e)"
  shows "\<exists>e'. engine_run e e' \<and> at_rest e' \<and> length (pending e') < length (pending e)"
proof -
  let ?i = "pending e ! k"
  obtain e1 where e1: "reaper_step SendSuccess e = Some e1" "reaper e1 = Candidate ?i (Suc k)"
      "pending e1 = pending e"
    using assms(2,3) by (simp add: reaper_step_def)
  note r1 = reaper_do [OF e1(1) assms(1)]
  have "?i \<in> set (pending e)" using assms(3) by simp
  then have "sent (invs e1 ?i)" "\<not> complete (invs e1 ?i)"
    using at_rest_sent [OF r1(1) e1(2)] e1(3) by simp_all
  then obtain e2 where e2: "reaper_step SendSuccess e1 = Some e2" "reaper e2 = Collecting ?i (Suc k)"
      "pending e2 = pending e"
    using e1(2,3) by (simp add: reaper_step_def)
  note r2 = reaper_do [OF e2(1) r1(1)]
  obtain e3 s where e3: "reaper_step SendSuccess e2 = Some e3" "reaper e3 = ReapResult ?i s (Suc k)"
      "pending e3 = pending e"
    using e2(2,3) by (simp add: reaper_step_def Let_def)
  note r3 = reaper_do [OF e3(1) r2(1)]
  obtain e4 where e4: "reaper_step SendSuccess e3 = Some e4" "reaper e4 = ReapErase ?i (Suc k)"
      "pending e4 = pending e"
    using e3(2,3) by (simp add: reaper_step_def finish_set_def)
  note r4 = reaper_do [OF e4(1) r3(1)]
  obtain e5 where e5: "reaper_step SendSuccess e4 = Some e5"
      "pending e5 = filter (\<lambda>j. j \<noteq> ?i) (pending e)"
    using e4(2,3) by (simp add: reaper_step_def finish_erase_def)
  note r5 = reaper_do [OF e5(1) r4(1)]
  have "length (pending e5) < length (pending e)"
    unfolding e5(2) using \<open>?i \<in> set (pending e)\<close> by (intro length_filter_less) auto
  then show ?thesis
    using r5 engine_run_trans [OF r1(2) engine_run_trans [OF r2(2) engine_run_trans [OF r3(2)
      engine_run_trans [OF r4(2) r5(2)]]]] by blast
qed

lemma reaper_restarts:
  assumes "at_rest e" "reaper e = Scan k" "length (pending e) \<le> k"
  shows "\<exists>e'. engine_run e e' \<and> at_rest e' \<and> reaper e' = Scan 0 \<and> pending e' = pending e"
proof -
  obtain e1 where e1: "reaper_step SendSuccess e = Some e1" "reaper e1 = Sleeping" "pending e1 = pending e"
    using assms(2,3) by (simp add: reaper_step_def)
  note r1 = reaper_do [OF e1(1) assms(1)]
  obtain e2 where e2: "reaper_step SendSuccess e1 = Some e2" "reaper e2 = Scan 0" "pending e2 = pending e"
    using e1(2,3) r1(1) by (simp add: reaper_step_def at_rest_def)
  note r2 = reaper_do [OF e2(1) r1(1)]
  show ?thesis using r2 e2 engine_run_trans [OF r1(2) r2(2)] by blast
qed

lemma reaper_drains:
  assumes "at_rest e"
  shows "\<exists>e'. engine_run e e' \<and> at_rest e' \<and> pending e' = []"
  using assms
proof (induction "length (pending e)" arbitrary: e rule: less_induct)
  case less
  show ?case
  proof (cases "pending e = []")
    case False
    obtain e1 k where e1: "engine_run e e1" "at_rest e1" "reaper e1 = Scan k" "length (pending e1) \<le> length (pending e)"
      using reaper_settles [OF less.prems] by blast
    obtain e2 where e2: "engine_run e e2" "at_rest e2" "length (pending e2) < length (pending e) \<or>
        (reaper e2 = Scan 0 \<and> pending e2 = pending e1)"
    proof (cases "k < length (pending e1)")
      case True
      then show ?thesis
        using reaper_takes_one [OF e1(2,3)] e1(1,4) engine_run_trans that by (metis less_le_trans)
    next
      case False
      then show ?thesis
        using reaper_restarts [OF e1(2,3)] e1(1) engine_run_trans that by (metis not_less)
    qed
    obtain e3 where e3: "engine_run e e3" "at_rest e3" "length (pending e3) < length (pending e)"
    proof (cases "length (pending e2) < length (pending e)")
      case True
      then show ?thesis using e2 that by blast
    next
      case False
      then have "reaper e2 = Scan 0" "pending e2 = pending e1" "0 < length (pending e2)"
        using e2(3) \<open>pending e \<noteq> []\<close> by auto
      then show ?thesis
        using reaper_takes_one [OF e2(2)] e2(1) e1(4) engine_run_trans that by (metis less_le_trans)
    qed
    then show ?thesis using less.hyps [OF e3(3,2)] engine_run_trans by blast
  qed (use less.prems engine_run_refl in blast)
qed

text \<open>The owner's thread closes the executor once nothing is pending.\<close>

definition closing_down :: "executor \<Rightarrow> bool" where
  "closing_down e \<longleftrightarrow> control e = Joining \<and> pending e = [] \<and> awake e \<and> (\<exists>cap. exec_inv cap e)"

lemma engine_do_closing:
  assumes "engine_do a e = Some e'" "closing_down e"
  shows "closing_down e'"
proof -
  have "control e' = Joining"
    using assms engine_do_open [OF assms(1)] by (cases "a = EngineControl") (auto simp: closing_down_def control_step_def)
  moreover have "pending e' = []" using engine_do_pending [OF assms(1)] assms(2) by (simp add: closing_down_def)
  ultimately show ?thesis
    using assms(2) engine_do_awake [OF assms(1)] engine_do_keeps [OF assms(1)] by (auto simp: closing_down_def)
qed

fun control_rank :: "control_pc \<Rightarrow> nat" where
  "control_rank Open = 3"
| "control_rank Draining = 2"
| "control_rank Drained = 1"
| "control_rank Joining = 0"

lemma control_advances:
  assumes "pending e = []" "control e \<noteq> Joining"
  shows "\<exists>e'. engine_do EngineControl e = Some e' \<and> pending e' = [] \<and>
     (control e' = Joining \<or> control e = Open \<and> control e' = Draining \<or> control e = Draining \<and> control e' = Drained)"
  using assms by (cases "control e") (auto simp: control_step_def)

lemma control_closes:
  assumes "awake e" "pending e = []" "exec_inv cap e"
  shows "\<exists>e'. engine_run e e' \<and> closing_down e'"
  using assms
proof (induction "control_rank (control e)"
    arbitrary: e rule: less_induct)
  case less
  show ?case
  proof (cases "control e = Joining")
    case True
    then show ?thesis using less.prems engine_run_refl unfolding closing_down_def by blast
  next
    case False
    obtain e1 where e1: "engine_do EngineControl e = Some e1" "pending e1 = []"
        "control e1 = Joining \<or> control e = Open \<and> control e1 = Draining \<or> control e = Draining \<and> control e1 = Drained"
      using control_advances [OF less.prems(2) False] by blast
    have less1: "control_rank (control e1)
        < control_rank (control e)"
      using e1(3) False by (cases "control e") auto
    obtain e2 where "engine_run e1 e2" "closing_down e2"
      using less.hyps [OF less1 engine_do_awake [OF e1(1) less.prems(1)] e1(2) engine_do_keeps [OF e1(1) less.prems(3)]]
      by blast
    then show ?thesis using engine_run_step [OF e1(1)] by blast
  qed
qed

lemma closing_idle:
  assumes "closing_down e"
  shows "queue e = []" "stopped e" "workers e n = AwaitWork \<or> workers e n = WorkerExited"
    "reaper e = ReaperExited \<or> reaper e = Sleeping \<or> (\<exists>k. reaper e = Scan k)
       \<or> (\<exists>i k. reaper e = Candidate i k \<and> \<not> (sent (invs e i) \<and> \<not> complete (invs e i)))"
proof -
  obtain cap where inv: "exec_inv cap e" using assms by (auto simp: closing_down_def)
  note D = exec_invD [OF inv]
  have none: "pending e = []" using assms by (simp add: closing_down_def)
  show "queue e = []" "stopped e" using D(3) none assms by (auto simp: closing_down_def awake_def)
  show "workers e n = AwaitWork \<or> workers e n = WorkerExited"
    using D(6) [of n] none by (cases "workers e n") auto
  show "reaper e = ReaperExited \<or> reaper e = Sleeping \<or> (\<exists>k. reaper e = Scan k)
       \<or> (\<exists>i k. reaper e = Candidate i k \<and> \<not> (sent (invs e i) \<and> \<not> complete (invs e i)))"
    using D(7) none sent_phase [OF inv] by (cases "reaper e") auto
qed

lemma worker_exits:
  assumes "closing_down e" "n < width e"
  shows "\<exists>e'. engine_run e e' \<and> closing_down e' \<and> workers e' n = WorkerExited \<and> (\<forall>m. m \<noteq> n \<longrightarrow> workers e' m = workers e m)"
proof (cases "workers e n = WorkerExited")
  case True
  then show ?thesis using assms(1) engine_run_refl by blast
next
  case False
  let ?e = "e\<lparr>workers := (workers e)(n := WorkerExited)\<rparr>"
  have do: "engine_do (EngineWork n Threw) e = Some ?e"
    using False closing_idle [OF assms(1)] closing_idle(3) [OF assms(1), of n] assms(2)
    by (simp add: worker_step_def)
  show ?thesis
    by (rule exI [of _ ?e]) (use engine_run_one [OF do] engine_do_closing [OF do assms(1)] in simp)
qed

lemma workers_exit:
  assumes "closing_down e" "k \<le> width e"
  shows "\<exists>e'. engine_run e e' \<and> closing_down e' \<and> (\<forall>n < k. workers e' n = WorkerExited)"
  using assms(2)
proof (induction k)
  case 0
  show ?case using assms(1) engine_run_refl by blast
next
  case (Suc k)
  then obtain e1 where e1: "engine_run e e1" "closing_down e1" "\<forall>n < k. workers e1 n = WorkerExited" by auto
  have "width e1 = width e"
    by (rule engine_run_keeps [OF e1(1), of "\<lambda>e1. width e1 = width e"]) (simp_all add: engine_do_width)
  then obtain e2 where "engine_run e1 e2" "closing_down e2" "workers e2 k = WorkerExited"
      "\<forall>m. m \<noteq> k \<longrightarrow> workers e2 m = workers e1 m"
    using worker_exits [OF e1(2), of k] Suc(2) by auto
  with e1 show ?case by (intro exI [of _ e2]) (auto simp: less_Suc_eq intro: engine_run_trans)
qed

fun exit_rank :: "reaper_pc \<Rightarrow> nat" where
  "exit_rank ReaperExited = 0"
| "exit_rank Sleeping = 1"
| "exit_rank (Scan k) = 2"
| "exit_rank _ = 3"

lemma reaper_advances:
  assumes "closing_down e" "reaper e \<noteq> ReaperExited"
  shows "\<exists>e' pc. engine_do (EngineReap SendNotReady) e = Some e' \<and> e' = e\<lparr>reaper := pc\<rparr> \<and>
     (pc = ReaperExited \<or> pc = Sleeping \<and> reaper e \<noteq> Sleeping \<or> (\<exists>k. pc = Scan k) \<and> (\<exists>i k. reaper e = Candidate i k))"
proof -
  have "pending e = []" using assms(1) by (simp add: closing_down_def)
  then show ?thesis
    using closing_idle(2,4) [OF assms(1)] assms(2) by (cases "reaper e") (auto simp: reaper_step_def)
qed

lemma reaper_exits:
  assumes "closing_down e"
  shows "\<exists>e'. engine_run e e' \<and> closing_down e' \<and> reaper e' = ReaperExited \<and> workers e' = workers e"
  using assms
proof (induction "exit_rank (reaper e)"
    arbitrary: e rule: less_induct)
  case less
  show ?case
  proof (cases "reaper e = ReaperExited")
    case True
    then show ?thesis using less.prems engine_run_refl by blast
  next
    case False
    obtain e1 pc where e1: "engine_do (EngineReap SendNotReady) e = Some e1" "e1 = e\<lparr>reaper := pc\<rparr>"
        "pc = ReaperExited \<or> pc = Sleeping \<and> reaper e \<noteq> Sleeping \<or> (\<exists>k. pc = Scan k) \<and> (\<exists>i k. reaper e = Candidate i k)"
      using reaper_advances [OF less.prems False] by blast
    have "exit_rank (reaper e1)
        < exit_rank (reaper e)"
      using e1(2,3) False by (cases "reaper e") auto
    from less.hyps [OF this engine_do_closing [OF e1(1) less.prems]] show ?thesis
      using engine_run_step [OF e1(1)] e1(2) by auto
  qed
qed

lemma threads_exit:
  assumes "closing_down e"
  shows "\<exists>e'. engine_run e e' \<and> threads_joined e'"
proof -
  obtain e1 where e1: "engine_run e e1" "closing_down e1" "\<forall>n < width e. workers e1 n = WorkerExited"
    using workers_exit [OF assms le_refl] by blast
  obtain e2 where e2: "engine_run e1 e2" "closing_down e2" "reaper e2 = ReaperExited" "workers e2 = workers e1"
    using reaper_exits [OF e1(2)] by blast
  have run: "engine_run e e2" by (rule engine_run_trans [OF e1(1) e2(1)])
  have "width e2 = width e"
    by (rule engine_run_keeps [OF run, of "\<lambda>e1. width e1 = width e"]) (simp_all add: engine_do_width)
  with e1(3) e2 have "threads_joined e2" by (simp add: threads_joined_def closing_down_def list_all_iff)
  with run show ?thesis by blast
qed

lemma executor_winds_down:
  assumes "winding_down e" "awake e" "0 < width e"
  shows "\<exists>e'. engine_run e e' \<and> threads_joined e'"
proof -
  obtain cap where inv: "exec_inv cap e" using assms(1) by (auto simp: winding_down_def)
  show ?thesis
  proof (cases "stopped e")
    case True
    then have "closing_down e"
      using assms(1,2) by (auto simp: closing_down_def winding_down_def drained_def awake_def)
    then show ?thesis by (rule threads_exit)
  next
    case False
    obtain e1 where e1: "engine_run e e1" "queue e1 = []" "\<forall>n. owner (workers e1 n) = None" "\<not> stopped e1"
      using workers_finish [OF assms(2) False assms(3)] by blast
    have "awake e1" "exec_inv cap e1"
      using engine_run_keeps [OF e1(1), of awake] engine_run_keeps [OF e1(1), of "exec_inv cap"]
        assms(2) inv engine_do_awake engine_do_keeps by blast+
    with e1 have "at_rest e1" by (auto simp: at_rest_def)
    then obtain e2 where e2: "engine_run e1 e2" "at_rest e2" "pending e2 = []" using reaper_drains by blast
    then obtain cap' where "awake e2" "exec_inv cap' e2" by (auto simp: at_rest_def)
    then obtain e3 where "engine_run e2 e3" "closing_down e3" using control_closes e2(3) by blast
    then show ?thesis using threads_exit engine_run_trans [OF e1(1) engine_run_trans [OF e2(1)]] engine_run_trans by blast
  qed
qed

text \<open>
  C8: the shutdown of an executor can always be completed.  From whatever state an executor with
  at least one worker reached, with operations queued, running, sent to other threads or half
  collected, there is a schedule of its threads, in which each called or sent operation answers, that
  ends with nothing pending and all threads returned.
\<close>

theorem shutdown_completes:
  assumes "(exec_step cap)\<^sup>*\<^sup>* (new_executor w sends) e" "0 < unat w" "control e = Open"
  shows "\<exists>e'. engine_run e e' \<and> threads_joined e' \<and> pending e' = [] \<and> all_finished e'"
proof -
  have "awake e \<and> width e = unat w \<and> exec_inv cap e"
    using assms(1)
  proof (induction rule: rtranclp_induct)
    case base
    show ?case using new_executor_awake new_executor_inv by (auto simp: new_executor_def)
  next
    case (step e e')
    have "awake e' \<and> width e' = width e"
      using step(2)
    proof cases
      case (admit_step i timeoutMs now allocated r)
      then have "e' = snd (admit i cap timeoutMs now allocated e)" by simp
      then show ?thesis using step.IH admit_awake by simp
    next
      case (work_step n outcome)
      then have "engine_do (EngineWork n outcome) e = Some e'" by simp
      then show ?thesis using step.IH engine_do_awake engine_do_width by blast
    next
      case (reap_step outcome)
      then have "engine_do (EngineReap outcome) e = Some e'" by simp
      then show ?thesis using step.IH engine_do_awake engine_do_width by blast
    next
      case control_step
      then have "engine_do EngineControl e = Some e'" by simp
      then show ?thesis using step.IH engine_do_awake engine_do_width by blast
    qed
    then show ?case using step.IH exec_step_keeps [OF step(2)] by simp
  qed
  then have wind: "winding_down e" "awake e" "0 < width e"
    using assms(2,3) by (auto simp: winding_down_def drained_def)
  obtain e' where e': "engine_run e e'" "threads_joined e'" using executor_winds_down [OF wind] by blast
  have "winding_down e'"
    using engine_run_keeps [OF e'(1), of winding_down] wind(1) engine_do_winding_down by blast
  moreover from this e'(2) have "pending e' = []" by (simp add: winding_down_def drained_def threads_joined_def)
  ultimately show ?thesis using e' threads_joined_finished by blast
qed

text \<open>One operation is running, another one waits.\<close>

definition busy_actions :: "action list" where
  "busy_actions = [Admit 5 1000 0, Admit 6 1000 7, Work 0 (Returned True)]"

definition busy_executor :: executor where
  "busy_executor = the (perform_all 4 busy_actions (new_executor 1 (\<lambda>i. i = 5)))"

lemma busy_executor_steps: "(exec_step 4)\<^sup>*\<^sup>* (new_executor 1 (\<lambda>i. i = 5)) busy_executor"
proof -
  have "\<not> Option.is_none (perform_all 4 busy_actions (new_executor 1 (\<lambda>i. i = 5)))" by code_simp
  then show ?thesis
    unfolding busy_executor_def by (auto simp: Option.is_none_def intro: perform_all_steps)
qed

lemma shutdown_completes_witness:
  "pending busy_executor = [5, 6] \<and> (\<exists>e. engine_run busy_executor e \<and> threads_joined e \<and> pending e = [])"
proof -
  have "pending busy_executor = [5, 6]" "control busy_executor = Open" by code_simp+
  then show ?thesis using shutdown_completes [OF busy_executor_steps] by auto
qed

end
