(* ===== verification/Server_Lifecycle.thy ===== *)
theory Server_Lifecycle
  imports Executor_Shutdown Publication Server_Options
begin

text \<open>
  The life cycle of the server (\<open>Server\<close> and \<open>Server::Impl\<close> of \<open>server.cpp\<close>): \<open>start\<close>,
  \<open>stop\<close>, \<open>requestStop\<close>, \<open>beginShutdown\<close>, \<open>finishShutdown\<close>, \<open>publishComponent\<close>, the queries,
  the network thread \<open>run\<close> with its callbacks, and the watchdog \<open>watchGrace\<close>.

  One step is one critical section of \<open>mutex\<close>, or one action between two of them.  The mutex
  \<open>control\<close> lets one call of \<open>start\<close>, \<open>stop\<close>, \<open>publishComponent\<close> or the end of
  \<open>finishShutdown\<close> run at a time, so one program counter says where that call is; \<open>requestStop\<close>
  and \<open>beginShutdown\<close> take only \<open>mutex\<close> and can happen at any moment.  The executor's own threads
  take their steps (\<open>worker_step\<close> and \<open>reaper_step\<close>) in between.

  What httplib, RTT, the allocator and the creation of threads answer comes with the action; while
  httplib listens it may call the handlers in any order and any number of times, and
  return when it likes.

  \<open>cancelled\<close>, \<open>listener_stopped\<close>, \<open>answer\<close>, \<open>finishers\<close>, \<open>retired\<close>, \<open>executors_made\<close>,
  \<open>shutdowns\<close> and \<open>fault\<close> are history variables: the connections cancelled, whether the current listener was
  told to stop, the answer of the last call that returned, the calls of \<open>finishShutdown\<close> between
  their \<open>stop\<close> and its end, the executors that were shut down, how many were made, the calls of \<open>finishShutdown\<close>
  that returned, and whether a null model or executor was used.
\<close>

section \<open>State\<close>

datatype run_state = StateStopped | StateStarting | StateRunning | StateStopping

record 'c object_model =
  om_catalog :: "'c type_catalog"
  om_diagnostics :: type_diagnostics
  om_publications :: "'c publications"

text \<open>The call that holds \<open>control\<close>.\<close>

datatype 'c control_place =
    NoCall
  | StartJoin server_options | StartConfigure server_options | StartModel server_options
  | StartExecutor server_options | StartDrain server_options executor | StartNewExecutor server_options
  | StartReserve server_options | StartThread server_options | StartWait | StartFailed string
  | StopRequest bool | StopJoin bool
  | PublishStage component_view | PublishCommit component_view "'c publication"
  | FinishDrain executor | FinishModel

text \<open>The network thread; \<open>NetAbsent\<close> is a \<open>network\<close> that is not joinable.\<close>

datatype net_place = NetAbsent | NetSetup | NetBound | NetWatch | NetListening | NetFailed string
  | NetCleanup | NetJoinWatchdog | NetFinal | NetExited

datatype dog_place = DogNone | DogWaiting | DogGrace | DogDone

record 'c server =
  run_state :: run_state
  final_shutdown :: bool
  network_done :: bool
  grace_expired :: bool
  grace_deadline :: nat
  options :: server_options
  net_error :: string
  object_model :: "'c object_model option"
  engine :: "executor option"
  listener :: bool
  connections :: "nat list"
  capacity :: nat
  place :: "'c control_place"
  net :: net_place
  dog :: dog_place
  clock :: nat
  cancelled :: "nat list"
  listener_stopped :: bool
  answer :: "(bool \<times> string) option"
  finishers :: nat
  retired :: "executor list"
  executors_made :: nat
  shutdowns :: nat
  fault :: bool

definition new_server :: "'c server" where
  "new_server = \<lparr>run_state = StateStopped, final_shutdown = False, network_done = True, grace_expired = False,
     grace_deadline = 0, options = default_options, net_error = [], object_model = None, engine = None,
     listener = False, connections = [], capacity = 0, place = NoCall, net = NetAbsent, dog = DogNone,
     clock = 0, cancelled = [], listener_stopped = False, answer = None, finishers = 0, retired = [],
     executors_made = 0, shutdowns = 0, fault = False\<rparr>"

section \<open>Stopping\<close>

text \<open>\<open>active\<close> is what \<open>is_active\<close> says of the connections.\<close>

definition requestStopLocked :: "(nat \<Rightarrow> bool) \<Rightarrow> 'c server \<Rightarrow> 'c server" where
  "requestStopLocked active st =
     (if run_state st = StateStopped \<or> run_state st = StateStopping then st
      else st\<lparr>run_state := StateStopping,
        grace_deadline := clock st + unat (shutdownGraceMs (options st)),
        listener_stopped := (listener_stopped st \<or> listener st),
        cancelled := cancelled st @ filter (\<lambda>c. \<not> active c) (connections st)\<rparr>)"

definition beginShutdown :: "(nat \<Rightarrow> bool) \<Rightarrow> 'c server \<Rightarrow> 'c server" where
  "beginShutdown active st = requestStopLocked active (st\<lparr>final_shutdown := True\<rparr>)"

definition watch_step :: "'c server \<Rightarrow> 'c server option" where
  "watch_step st =
     (case dog st of
        DogWaiting \<Rightarrow>
          if network_done st then Some (st\<lparr>dog := DogDone\<rparr>)
          else if run_state st = StateStopping then Some (st\<lparr>dog := DogGrace\<rparr>) else None
      | DogGrace \<Rightarrow>
          if network_done st then Some (st\<lparr>dog := DogDone\<rparr>)
          else if grace_deadline st \<le> clock st then
            Some (st\<lparr>grace_expired := True, cancelled := cancelled st @ connections st, dog := DogDone\<rparr>)
          else None
      | _ \<Rightarrow> None)"

section \<open>The calls under \<open>control\<close>\<close>

text \<open>A call returns; the message is \<open>*error\<close>, empty on success.\<close>

definition give :: "bool \<Rightarrow> string \<Rightarrow> 'c server \<Rightarrow> 'c server" where
  "give ok message st = st\<lparr>place := NoCall, answer := Some (ok, message)\<rparr>"

definition start_check :: "server_options \<Rightarrow> 'c server \<Rightarrow> 'c server" where
  "start_check opts st =
     (if final_shutdown st then give False ''HTTP deployment is shutting down'' st
      else if run_state st = StateRunning then give True [] st
      else if run_state st \<noteq> StateStopped then give False ''HTTP network cleanup is not complete'' st
      else st\<lparr>place := StartJoin opts\<rparr>)"

definition joined :: "net_place \<Rightarrow> bool" where
  "joined pc \<longleftrightarrow> pc = NetAbsent \<or> pc = NetExited"

definition start_join :: "('s::len) word \<Rightarrow> bool \<Rightarrow> server_options \<Rightarrow> 'c server \<Rightarrow> 'c server option" where
  "start_join sizeof_connection openssl opts st =
     (if \<not> joined (net st) then None
      else Some (case validateOptions sizeof_connection openssl opts of
        Inl message \<Rightarrow> give False message (st\<lparr>net := NetAbsent\<rparr>)
      | Inr _ \<Rightarrow> st\<lparr>net := NetAbsent, place := StartConfigure opts\<rparr>))"

definition start_configure :: "server_options \<Rightarrow> 'c server \<Rightarrow> 'c server" where
  "start_configure opts st =
     (let configured = st\<lparr>options := opts, net_error := [], run_state := StateStarting,
        grace_expired := False, place := StartModel opts\<rparr> in
      case engine st of
        None \<Rightarrow> configured
      | Some e \<Rightarrow>
          if maxPendingOperations opts < pending_count e then
            give False ''maxPendingOperations is below retained HTTP operation count'' st
          else if pending_count e \<noteq> 0 \<and> unat (workerThreads opts) \<noteq> width e then
            give False ''workerThreads cannot change while HTTP operations remain unfinished'' st
          else configured)"

text \<open>
  \<open>prepared\<close> is what registering the standard types and freezing the catalog gives: a message or
  the catalog with its diagnostics.
\<close>

definition start_model ::
  "string + 'c type_catalog \<times> type_diagnostics \<Rightarrow> server_options \<Rightarrow> 'c server \<Rightarrow> 'c server" where
  "start_model prepared opts st =
     (if object_model st \<noteq> None then st\<lparr>place := StartExecutor opts\<rparr>
      else case prepared of
        Inl message \<Rightarrow> st\<lparr>place := StartFailed message\<rparr>
      | Inr (cat, diags) \<Rightarrow> st\<lparr>object_model := Some \<lparr>om_catalog = cat, om_diagnostics = diags, om_publications = []\<rparr>,
          place := StartExecutor opts\<rparr>)"

definition start_executor :: "server_options \<Rightarrow> 'c server \<Rightarrow> 'c server" where
  "start_executor opts st =
     (case engine st of
        None \<Rightarrow> st\<lparr>place := StartNewExecutor opts\<rparr>
      | Some e \<Rightarrow>
          if width e = unat (workerThreads opts) then st\<lparr>place := StartReserve opts\<rparr>
          else st\<lparr>engine := None, place := StartDrain opts e\<rparr>)"

definition start_drained :: "server_options \<Rightarrow> executor \<Rightarrow> 'c server \<Rightarrow> 'c server option" where
  "start_drained opts e st =
     (if threads_joined e then Some (st\<lparr>retired := retired st @ [e], place := StartNewExecutor opts\<rparr>) else None)"

text \<open>\<open>made\<close> is the message of an exception, or which operations the new executor will send.\<close>

definition start_new_executor :: "string + (nat \<Rightarrow> bool) \<Rightarrow> server_options \<Rightarrow> 'c server \<Rightarrow> 'c server" where
  "start_new_executor made opts st =
     (case made of
        Inl message \<Rightarrow> st\<lparr>place := StartFailed message\<rparr>
      | Inr sends \<Rightarrow> st\<lparr>engine := Some (new_executor (workerThreads opts) sends), executors_made := Suc (executors_made st),
          place := StartReserve opts\<rparr>)"

definition start_reserve :: "string option \<Rightarrow> server_options \<Rightarrow> 'c server \<Rightarrow> 'c server" where
  "start_reserve thrown opts st =
     (if run_state st \<noteq> StateStarting \<or> final_shutdown st then
        give False ''HTTP start was stopped before binding'' (st\<lparr>run_state := StateStopped\<rparr>)
      else case thrown of
        Some message \<Rightarrow> st\<lparr>place := StartFailed message\<rparr>
      | None \<Rightarrow> st\<lparr>capacity := max (capacity st)
            (unat (workerThreads opts) + unat (maxQueuedConnections opts) + 1),
          network_done := False, place := StartThread opts\<rparr>)"

definition start_thread :: "string option \<Rightarrow> 'c server \<Rightarrow> 'c server" where
  "start_thread thrown st =
     (case thrown of
        Some message \<Rightarrow> st\<lparr>place := StartFailed message\<rparr>
      | None \<Rightarrow> st\<lparr>net := NetSetup, listener_stopped := False, place := StartWait\<rparr>)"

definition start_wait :: "'c server \<Rightarrow> 'c server option" where
  "start_wait st =
     (if run_state st = StateRunning then Some (give True [] st)
      else if run_state st = StateStopped then
        Some (give False (if net_error st = [] then ''HTTP startup was interrupted'' else net_error st) st)
      else None)"

definition start_failed :: "string \<Rightarrow> 'c server \<Rightarrow> 'c server" where
  "start_failed message st = give False message (st\<lparr>run_state := StateStopped, network_done := True\<rparr>)"

text \<open>\<open>stop\<close>, on its own or within \<open>finishShutdown\<close> (\<open>finishing\<close>).\<close>

definition stop_request :: "(nat \<Rightarrow> bool) \<Rightarrow> bool \<Rightarrow> 'c server \<Rightarrow> 'c server" where
  "stop_request active finishing st = (requestStopLocked active st)\<lparr>place := StopJoin finishing\<rparr>"

definition stop_join :: "bool \<Rightarrow> 'c server \<Rightarrow> 'c server option" where
  "stop_join finishing st =
     (if joined (net st) then
        Some (st\<lparr>net := NetAbsent, place := NoCall,
          finishers := (if finishing then Suc (finishers st) else finishers st)\<rparr>)
      else None)"

definition finish_take :: "'c server \<Rightarrow> 'c server" where
  "finish_take st = st\<lparr>finishers := finishers st - 1, engine := None,
     place := (case engine st of None \<Rightarrow> FinishModel | Some e \<Rightarrow> FinishDrain e)\<rparr>"

definition finish_drained :: "executor \<Rightarrow> 'c server \<Rightarrow> 'c server option" where
  "finish_drained e st =
     (if threads_joined e then Some (st\<lparr>retired := retired st @ [e], place := FinishModel\<rparr>) else None)"

definition finish_model :: "'c server \<Rightarrow> 'c server" where
  "finish_model st = st\<lparr>object_model := None, shutdowns := Suc (shutdowns st), place := NoCall\<rparr>"

section \<open>Publication\<close>

definition serving :: "'c server \<Rightarrow> bool" where
  "serving st \<longleftrightarrow> run_state st = StateRunning \<and> \<not> final_shutdown st"

definition publish_check :: "component_view \<Rightarrow> 'c server \<Rightarrow> 'c server" where
  "publish_check component st =
     (if \<not> serving st then give False ''HTTP publication requires a running service'' st
      else case object_model st of
        None \<Rightarrow> st\<lparr>fault := True\<rparr>
      | Some m \<Rightarrow>
          if contains (om_publications m) (component_id component) then give True [] st
          else st\<lparr>place := PublishStage component\<rparr>)"

text \<open>\<open>thrown\<close> is the message of an exception that is not the stage's own.\<close>

definition publish_stage :: "'c rtt_view \<Rightarrow> string option \<Rightarrow> component_view \<Rightarrow> 'c server \<Rightarrow> 'c server" where
  "publish_stage view thrown component st =
     (case object_model st of
        None \<Rightarrow> st\<lparr>fault := True\<rparr>
      | Some m \<Rightarrow>
          case thrown of
            Some message \<Rightarrow> give False message st
          | None \<Rightarrow>
              case stage view (om_catalog m) (om_diagnostics m) component of
                Inl message \<Rightarrow> give False message st
              | Inr pub \<Rightarrow> st\<lparr>place := PublishCommit component pub\<rparr>)"

text \<open>Here \<open>thrown\<close> is what the insertion into the map of publications throws, which leaves the map.\<close>

definition publish_commit ::
  "string option \<Rightarrow> component_view \<Rightarrow> 'c publication \<Rightarrow> 'c server \<Rightarrow> 'c server" where
  "publish_commit thrown component pub st =
     (if \<not> serving st then give False ''HTTP stopped during publication'' st
      else case object_model st of
        None \<Rightarrow> st\<lparr>fault := True\<rparr>
      | Some m \<Rightarrow>
          case thrown of
            Some message \<Rightarrow> give False message st
          | None \<Rightarrow>
              (case commit (component_name component) pub (om_publications m) of
                 (ok, message, pubs) \<Rightarrow>
                   give ok message (st\<lparr>object_model := Some (m\<lparr>om_publications := pubs\<rparr>)\<rparr>)))"

section \<open>The network thread\<close>

text \<open>\<open>failed\<close> is the message of what makes the set-up fail, up to and including the binding.\<close>

definition net_setup :: "string option \<Rightarrow> 'c server \<Rightarrow> 'c server" where
  "net_setup failed st = st\<lparr>net := (case failed of Some message \<Rightarrow> NetFailed message | None \<Rightarrow> NetBound)\<rparr>"

definition net_bound :: "'c server \<Rightarrow> 'c server" where
  "net_bound st = st\<lparr>listener := True,
     listener_stopped := (listener_stopped st \<or> run_state st \<noteq> StateStarting \<or> final_shutdown st),
     net := NetWatch\<rparr>"

definition net_watch :: "string option \<Rightarrow> 'c server \<Rightarrow> 'c server" where
  "net_watch failed st =
     (case failed of
        Some message \<Rightarrow> st\<lparr>net := NetFailed message\<rparr>
      | None \<Rightarrow> st\<lparr>dog := DogWaiting, net := NetListening\<rparr>)"

definition start_handler :: "'c server \<Rightarrow> 'c server" where
  "start_handler st =
     (if run_state st = StateStarting \<and> \<not> final_shutdown st then st\<lparr>run_state := StateRunning\<rparr>
      else st\<lparr>listener_stopped := (listener_stopped st \<or> listener st)\<rparr>)"

text \<open>\<open>closed\<close> is what \<open>is_closed\<close> says of the connections.\<close>

definition connection_handler :: "nat \<Rightarrow> (nat \<Rightarrow> bool) \<Rightarrow> 'c server \<Rightarrow> 'c server" where
  "connection_handler c closed st =
     (let kept = filter (\<lambda>entry. \<not> closed entry) (connections st) in
      if run_state st \<noteq> StateRunning \<or> capacity st \<le> length kept then
        st\<lparr>connections := kept, cancelled := cancelled st @ [c]\<rparr>
      else st\<lparr>connections := kept @ [c]\<rparr>)"

definition listen_returned :: "string + bool \<Rightarrow> 'c server \<Rightarrow> 'c server" where
  "listen_returned result st =
     (case result of
        Inl message \<Rightarrow> st\<lparr>net := NetFailed message\<rparr>
      | Inr listened \<Rightarrow> st\<lparr>net_error := (if listened then net_error st
            else ''HTTP listener failed during startup or serving''), net := NetCleanup\<rparr>)"

definition net_failed :: "(nat \<Rightarrow> bool) \<Rightarrow> string \<Rightarrow> 'c server \<Rightarrow> 'c server" where
  "net_failed active message st =
     (requestStopLocked active (st\<lparr>net_error := message\<rparr>))\<lparr>net := NetCleanup\<rparr>"

definition net_cleanup :: "'c server \<Rightarrow> 'c server" where
  "net_cleanup st = st\<lparr>listener := False, network_done := True, connections := [], net := NetJoinWatchdog\<rparr>"

definition net_join_watchdog :: "'c server \<Rightarrow> 'c server option" where
  "net_join_watchdog st =
     (if dog st = DogNone \<or> dog st = DogDone then Some (st\<lparr>dog := DogNone, net := NetFinal\<rparr>) else None)"

definition net_final :: "'c server \<Rightarrow> 'c server" where
  "net_final st = st\<lparr>run_state := StateStopped, net := NetExited\<rparr>"

section \<open>Requests\<close>

text \<open>\<open>preflight\<close> and \<open>handle\<close> look a path up in the model.\<close>

definition serve_lookup :: "'c server \<Rightarrow> 'c server" where
  "serve_lookup st = (if object_model st = None then st\<lparr>fault := True\<rparr> else st)"

text \<open>The admission boundary of \<open>handle\<close>.\<close>

definition serve_admit :: "nat \<Rightarrow> bool \<Rightarrow> 'c server \<Rightarrow> 'c server" where
  "serve_admit i allocated st =
     (if \<not> serving st then st
      else case engine st of
        None \<Rightarrow> st\<lparr>fault := True\<rparr>
      | Some e \<Rightarrow> st\<lparr>engine := Some (snd (admit i (maxPendingOperations (options st))
          (operationTimeoutMs (options st)) (clock st) allocated e))\<rparr>)"

section \<open>Steps\<close>

text \<open>A request is admitted once: its invocation is new.\<close>

definition new_call :: "nat \<Rightarrow> 'c server \<Rightarrow> bool" where
  "new_call i st = (case engine st of None \<Rightarrow> True | Some e \<Rightarrow> admissions (invs e i) = 0)"

text \<open>
  In the order of the sections above; \<open>p\<close> and \<open>ssl\<close> are the size of a connection entry and the
  build flag that \<open>validateOptions\<close> depends on.
\<close>

inductive server_step :: "('s::len) word \<Rightarrow> bool \<Rightarrow> 'c server \<Rightarrow> 'c server \<Rightarrow> bool" for p ssl where
  tick_step: "server_step p ssl st (st\<lparr>clock := clock st + n\<rparr>)"
| request_stop_step: "server_step p ssl st (requestStopLocked active st)"
| begin_shutdown_step: "server_step p ssl st (beginShutdown active st)"
| watch_step: "watch_step st = Some st' \<Longrightarrow> server_step p ssl st st'"
| start_check_step: "place st = NoCall \<Longrightarrow> server_step p ssl st (start_check opts st)"
| call_stop_step: "place st = NoCall \<Longrightarrow> server_step p ssl st (st\<lparr>place := StopRequest False\<rparr>)"
| call_finish_step: "place st = NoCall \<Longrightarrow> final_shutdown st \<Longrightarrow> server_step p ssl st (st\<lparr>place := StopRequest True\<rparr>)"
| finish_take_step: "place st = NoCall \<Longrightarrow> 0 < finishers st \<Longrightarrow> server_step p ssl st (finish_take st)"
| publish_check_step: "place st = NoCall \<Longrightarrow> server_step p ssl st (publish_check component st)"
| start_join_step: "place st = StartJoin opts \<Longrightarrow> start_join p ssl opts st = Some st' \<Longrightarrow> server_step p ssl st st'"
| start_configure_step: "place st = StartConfigure opts \<Longrightarrow> server_step p ssl st (start_configure opts st)"
| start_model_step: "place st = StartModel opts \<Longrightarrow> server_step p ssl st (start_model prepared opts st)"
| start_executor_step: "place st = StartExecutor opts \<Longrightarrow> server_step p ssl st (start_executor opts st)"
| start_drained_step: "place st = StartDrain opts e \<Longrightarrow> start_drained opts e st = Some st' \<Longrightarrow> server_step p ssl st st'"
| start_new_executor_step: "place st = StartNewExecutor opts \<Longrightarrow> server_step p ssl st (start_new_executor made opts st)"
| start_reserve_step: "place st = StartReserve opts \<Longrightarrow> server_step p ssl st (start_reserve thrown opts st)"
| start_thread_step: "place st = StartThread opts \<Longrightarrow> server_step p ssl st (start_thread thrown st)"
| start_wait_step: "place st = StartWait \<Longrightarrow> start_wait st = Some st' \<Longrightarrow> server_step p ssl st st'"
| start_failed_step: "place st = StartFailed message \<Longrightarrow> server_step p ssl st (start_failed message st)"
| stop_request_step: "place st = StopRequest finishing \<Longrightarrow> server_step p ssl st (stop_request active finishing st)"
| stop_join_step: "place st = StopJoin finishing \<Longrightarrow> stop_join finishing st = Some st' \<Longrightarrow> server_step p ssl st st'"
| publish_stage_step: "place st = PublishStage component \<Longrightarrow> server_step p ssl st (publish_stage view thrown component st)"
| publish_commit_step: "place st = PublishCommit component pub \<Longrightarrow> server_step p ssl st (publish_commit thrown component pub st)"
| finish_drained_step: "place st = FinishDrain e \<Longrightarrow> finish_drained e st = Some st' \<Longrightarrow> server_step p ssl st st'"
| finish_model_step: "place st = FinishModel \<Longrightarrow> server_step p ssl st (finish_model st)"
| net_setup_step: "net st = NetSetup \<Longrightarrow> server_step p ssl st (net_setup thrown st)"
| net_bound_step: "net st = NetBound \<Longrightarrow> server_step p ssl st (net_bound st)"
| net_watch_step: "net st = NetWatch \<Longrightarrow> server_step p ssl st (net_watch thrown st)"
| start_handler_step: "net st = NetListening \<Longrightarrow> server_step p ssl st (start_handler st)"
| connection_handler_step: "net st = NetListening \<Longrightarrow> server_step p ssl st (connection_handler c closed st)"
| pool_shutdown_step: "net st = NetListening \<Longrightarrow> server_step p ssl st (requestStopLocked active st)"
| listen_returned_step: "net st = NetListening \<Longrightarrow> server_step p ssl st (listen_returned result st)"
| net_failed_step: "net st = NetFailed message \<Longrightarrow> server_step p ssl st (net_failed active message st)"
| net_cleanup_step: "net st = NetCleanup \<Longrightarrow> server_step p ssl st (net_cleanup st)"
| net_join_watchdog_step: "net st = NetJoinWatchdog \<Longrightarrow> net_join_watchdog st = Some st' \<Longrightarrow> server_step p ssl st st'"
| net_final_step: "net st = NetFinal \<Longrightarrow> server_step p ssl st (net_final st)"
| serve_lookup_step: "net st = NetListening \<Longrightarrow> server_step p ssl st (serve_lookup st)"
| serve_admit_step: "net st = NetListening \<Longrightarrow> new_call i st \<Longrightarrow> server_step p ssl st (serve_admit i allocated st)"
| engine_step: "engine st = Some e \<Longrightarrow> a \<noteq> EngineControl \<Longrightarrow> engine_do a e = Some e' \<Longrightarrow>
    server_step p ssl st (st\<lparr>engine := Some e'\<rparr>)"
| start_drain_step: "place st = StartDrain opts e \<Longrightarrow> engine_do a e = Some e' \<Longrightarrow>
    server_step p ssl st (st\<lparr>place := StartDrain opts e'\<rparr>)"
| finish_drain_step: "place st = FinishDrain e \<Longrightarrow> engine_do a e = Some e' \<Longrightarrow>
    server_step p ssl st (st\<lparr>place := FinishDrain e'\<rparr>)"

definition server_reachable :: "('s::len) word \<Rightarrow> bool \<Rightarrow> 'c server \<Rightarrow> bool" where
  "server_reachable p ssl st \<longleftrightarrow> (server_step p ssl)\<^sup>*\<^sup>* new_server st"

section \<open>Queries\<close>

definition isRunning :: "'c server \<Rightarrow> bool" where
  "isRunning st \<longleftrightarrow> run_state st = StateRunning \<and> \<not> final_shutdown st"

definition state_name :: "'c server \<Rightarrow> string" where
  "state_name st =
     (case run_state st of
        StateStopped \<Rightarrow> ''Stopped'' | StateStarting \<Rightarrow> ''Starting''
      | StateRunning \<Rightarrow> ''Running'' | StateStopping \<Rightarrow> ''Stopping'')"

definition isPublished :: "'c server \<Rightarrow> nat \<Rightarrow> bool" where
  "isPublished st component =
     (case object_model st of None \<Rightarrow> False | Some m \<Rightarrow> contains (om_publications m) component)"

definition publicationDiagnostics :: "'c server \<Rightarrow> string \<Rightarrow> string list" where
  "publicationDiagnostics st name =
     (case object_model st of None \<Rightarrow> [] | Some m \<Rightarrow> diagnostics (om_publications m) name)"

definition pendingOperationCount :: "'c server \<Rightarrow> u32" where
  "pendingOperationCount st = (case engine st of None \<Rightarrow> 0 | Some e \<Rightarrow> pending_count e)"

end
