(* ===== verification/Server_Invariant.thy ===== *)
theory Server_Invariant
  imports Server_Lifecycle
begin

text \<open>
  The invariant of the server's life cycle, in groups: which thread can be where in which state
  (\<open>coherent\<close>), what the final shutdown closes (\<open>final_ok\<close>, \<open>closed_ok\<close>), what the network
  thread and the calls rely on (\<open>equipped\<close>), the executors (\<open>engines_ok\<close>), and the
  listener, the watchdog and the connections (\<open>signals_ok\<close>).  Each group is kept by every step.
\<close>

named_theorems sections \<open>the sections of the server's threads\<close>

declare requestStopLocked_def [sections] beginShutdown_def [sections] watch_step_def [sections]
  give_def [sections] start_check_def [sections] start_join_def [sections]
  start_configure_def [sections] start_model_def [sections] start_executor_def [sections]
  start_drained_def [sections] start_new_executor_def [sections] start_reserve_def [sections]
  start_thread_def [sections] start_wait_def [sections] start_failed_def [sections]
  stop_request_def [sections] stop_join_def [sections] finish_take_def [sections]
  finish_drained_def [sections] finish_model_def [sections] publish_check_def [sections]
  publish_stage_def [sections] publish_commit_def [sections] net_setup_def [sections]
  net_bound_def [sections] net_watch_def [sections] start_handler_def [sections]
  connection_handler_def [sections] listen_returned_def [sections] net_failed_def [sections]
  net_cleanup_def [sections] net_join_watchdog_def [sections] net_final_def [sections]
  serve_lookup_def [sections] serve_admit_def [sections] new_call_def [sections]
  Let_def [sections]

lemmas section_splits = if_splits option.splits sum.splits prod.splits dog_place.splits

section \<open>Who can be where\<close>

fun configured :: "'c control_place \<Rightarrow> bool" where
  "configured (StartModel opts) = True"
| "configured (StartExecutor opts) = True"
| "configured (StartDrain opts e) = True"
| "configured (StartNewExecutor opts) = True"
| "configured (StartReserve opts) = True"
| "configured (StartThread opts) = True"
| "configured (StartFailed message) = True"
| "configured _ = False"

text \<open>The calls that can go on while the network thread serves.\<close>

fun beside :: "'c control_place \<Rightarrow> bool" where
  "beside NoCall = True"
| "beside StartWait = True"
| "beside (StopRequest finishing) = True"
| "beside (StopJoin finishing) = True"
| "beside (PublishStage component) = True"
| "beside (PublishCommit component pub) = True"
| "beside _ = False"

datatype net_stage = Gone | Live | Over

fun net_class :: "net_place \<Rightarrow> net_stage" where
  "net_class NetAbsent = Gone"
| "net_class NetExited = Over"
| "net_class _ = Live"

lemma joined_class: "joined pc \<longleftrightarrow> net_class pc \<noteq> Live"
  by (cases pc) (auto simp: joined_def)

lemma net_class_iff [simp]: "net_class pc = Gone \<longleftrightarrow> pc = NetAbsent" "net_class pc = Over \<longleftrightarrow> pc = NetExited"
  by (cases pc; simp)+

fun coherent_at :: "net_stage \<Rightarrow> run_state \<Rightarrow> 'c control_place \<Rightarrow> bool" where
  "coherent_at Gone s call \<longleftrightarrow>
     (if configured call then s = StateStarting \<or> s = StateStopping else s = StateStopped \<and> call \<noteq> StartWait)"
| "coherent_at Over s call \<longleftrightarrow> s = StateStopped \<and> (beside call \<or> (\<exists>opts. call = StartJoin opts))"
| "coherent_at Live s call \<longleftrightarrow> s \<noteq> StateStopped \<and> beside call \<and> (s = StateStarting \<longrightarrow> call = StartWait)"

definition coherent :: "'c server \<Rightarrow> bool" where
  "coherent st \<longleftrightarrow> coherent_at (net_class (net st)) (run_state st) (place st)"

lemma coherent_keeps:
  assumes "server_step p ssl st st'" "coherent st" "0 < finishers st \<Longrightarrow> net st = NetAbsent"
  shows "coherent st'"
  using assms by cases
    (cases "net_class (net st)"; auto simp: coherent_def joined_class sections split: section_splits; fail)+

section \<open>The final shutdown\<close>

text \<open>After \<open>beginShutdown\<close> the server never runs, and a start under way is given up.\<close>

fun finishing_call :: "'c control_place \<Rightarrow> bool" where
  "finishing_call (StopRequest finishing) = finishing"
| "finishing_call (StopJoin finishing) = finishing"
| "finishing_call _ = False"

definition final_ok :: "'c server \<Rightarrow> bool" where
  "final_ok st \<longleftrightarrow> (if final_shutdown st
     then run_state st \<noteq> StateRunning \<and> (run_state st = StateStarting \<longrightarrow>
       net st = NetAbsent \<and> (\<forall>opts. place st \<noteq> StartThread opts))
     else \<not> finishing_call (place st))"

lemma final_ok_keeps:
  assumes "server_step p ssl st st'" "coherent st" "final_ok st"
  shows "final_ok st'"
  using assms by cases
    (cases "net_class (net st)"; auto simp: coherent_def final_ok_def joined_class sections split: section_splits; fail)+

text \<open>From the time a \<open>finishShutdown\<close> has stopped the network, it stays stopped.\<close>

fun closing_call :: "'c control_place \<Rightarrow> bool" where
  "closing_call (FinishDrain e) = True"
| "closing_call FinishModel = True"
| "closing_call _ = False"

fun quiet_call :: "'c control_place \<Rightarrow> bool" where
  "quiet_call NoCall = True"
| "quiet_call (StopRequest finishing) = True"
| "quiet_call (StopJoin finishing) = True"
| "quiet_call call = closing_call call"

definition past_stop :: "'c server \<Rightarrow> bool" where
  "past_stop st \<longleftrightarrow> 0 < finishers st \<or> closing_call (place st) \<or> 0 < shutdowns st"

definition quiet :: "'c server \<Rightarrow> bool" where
  "quiet st \<longleftrightarrow> final_shutdown st \<and> net st = NetAbsent \<and> quiet_call (place st)"

definition closed_ok :: "'c server \<Rightarrow> bool" where
  "closed_ok st \<longleftrightarrow> (past_stop st \<longrightarrow> quiet st)"

lemma past_stop_keeps:
  assumes "server_step p ssl st st'" "past_stop st" "quiet st" "run_state st \<noteq> StateRunning"
  shows "quiet st'"
  using assms by cases
    (auto simp: past_stop_def quiet_def serving_def sections split: section_splits; fail)+

lemma before_stop_keeps:
  assumes "server_step p ssl st st'" "coherent st" "final_ok st" "\<not> past_stop st" "past_stop st'"
  shows "quiet st'"
  using assms by cases
    (auto simp: past_stop_def quiet_def final_ok_def coherent_def joined_def sections split: section_splits; fail)+

lemma closed_ok_keeps:
  assumes "server_step p ssl st st'" "coherent st" "final_ok st" "closed_ok st"
  shows "closed_ok st'"
proof (cases "past_stop st")
  case True
  then have "quiet st" "run_state st \<noteq> StateRunning"
    using assms(3,4) by (auto simp: closed_ok_def quiet_def final_ok_def)
  with True show ?thesis using past_stop_keeps [OF assms(1)] by (simp add: closed_ok_def)
qed (use before_stop_keeps [OF assms(1-3)] in \<open>simp add: closed_ok_def\<close>)

section \<open>What the threads rely on\<close>

fun model_call :: "'c control_place \<Rightarrow> bool" where
  "model_call (StartExecutor opts) = True"
| "model_call (StartDrain opts e) = True"
| "model_call (StartNewExecutor opts) = True"
| "model_call (PublishStage component) = True"
| "model_call (PublishCommit component pub) = True"
| "model_call _ = False"

fun ready_call :: "'c control_place \<Rightarrow> bool" where
  "ready_call (StartReserve opts) = True"
| "ready_call (StartThread opts) = True"
| "ready_call _ = False"

fun call_options :: "'c control_place \<Rightarrow> server_options option" where
  "call_options (StartModel opts) = Some opts"
| "call_options (StartExecutor opts) = Some opts"
| "call_options (StartDrain opts e) = Some opts"
| "call_options (StartNewExecutor opts) = Some opts"
| "call_options (StartReserve opts) = Some opts"
| "call_options (StartThread opts) = Some opts"
| "call_options _ = None"

definition has_engine :: "'c server \<Rightarrow> bool" where
  "has_engine st \<longleftrightarrow> (case engine st of None \<Rightarrow> False | Some e \<Rightarrow> width e = unat (workerThreads (options st)))"

definition model_used :: "'c server \<Rightarrow> bool" where
  "model_used st \<longleftrightarrow> net_class (net st) = Live \<or> ready_call (place st) \<or> model_call (place st)"

definition engine_used :: "'c server \<Rightarrow> bool" where
  "engine_used st \<longleftrightarrow> net_class (net st) = Live \<or> ready_call (place st)"

definition model_ok :: "'c server \<Rightarrow> bool" where
  "model_ok st \<longleftrightarrow> (model_used st \<longrightarrow> object_model st \<noteq> None)"

definition engine_fits :: "'c server \<Rightarrow> bool" where
  "engine_fits st \<longleftrightarrow> (engine_used st \<longrightarrow> has_engine st)"

definition settled :: "'c server \<Rightarrow> bool" where
  "settled st \<longleftrightarrow> (case call_options (place st) of None \<Rightarrow> True | Some opts \<Rightarrow> opts = options st)"

lemma settled_keeps:
  assumes "server_step p ssl st st'" "settled st"
  shows "settled st'"
  using assms by cases
    (auto simp: settled_def sections split: section_splits; fail)+

lemma past_stop_absent:
  assumes "closed_ok st" "0 < finishers st \<or> closing_call (place st)"
  shows "net st = NetAbsent"
  using assms by (auto simp: closed_ok_def past_stop_def quiet_def)

lemma model_survives:
  assumes "server_step p ssl st st'" "closed_ok st" "object_model st \<noteq> None" "model_used st'"
  shows "object_model st' \<noteq> None"
  using assms(1,3,4) past_stop_absent [OF assms(2)]
  by cases (auto simp: model_used_def sections split: section_splits; fail)+

lemma model_comes:
  assumes "server_step p ssl st st'" "coherent st" "\<not> model_used st" "model_used st'"
  shows "object_model st' \<noteq> None"
  using assms by cases
    (auto simp: model_used_def coherent_def sections split: section_splits; fail)+

lemma model_ok_keeps:
  assumes "server_step p ssl st st'" "coherent st" "closed_ok st" "model_ok st"
  shows "model_ok st'"
  using assms model_survives [OF assms(1,3)] model_comes [OF assms(1,2)] unfolding model_ok_def by blast

lemma engine_survives:
  assumes "server_step p ssl st st'" "coherent st" "closed_ok st" "has_engine st" "engine_used st" "engine_used st'"
  shows "has_engine st'"
  using assms(1,2,4-6) past_stop_absent [OF assms(3)]
  by cases (auto simp: engine_used_def has_engine_def coherent_def sections
     split: section_splits dest: engine_do_width; fail)+

lemma engine_comes:
  assumes "server_step p ssl st st'" "coherent st" "settled st" "\<not> engine_used st" "engine_used st'"
  shows "has_engine st'"
  using assms by cases
    (auto simp: engine_used_def has_engine_def coherent_def settled_def new_executor_def sections
     split: section_splits; fail)+

lemma engine_fits_keeps:
  assumes "server_step p ssl st st'" "coherent st" "closed_ok st" "settled st" "engine_fits st"
  shows "engine_fits st'"
  using assms(5) engine_survives [OF assms(1-3)] engine_comes [OF assms(1,2,4)] unfolding engine_fits_def by blast

section \<open>The executors\<close>

definition live_engine :: "server_options \<Rightarrow> executor \<Rightarrow> bool" where
  "live_engine opts e \<longleftrightarrow> exec_inv (maxPendingOperations opts) e \<and> Operation_Executor.control e = Open"

fun drained_engine :: "'c control_place \<Rightarrow> executor option" where
  "drained_engine (StartDrain opts e) = Some e"
| "drained_engine (FinishDrain e) = Some e"
| "drained_engine _ = None"

definition engine_ok :: "'c server \<Rightarrow> bool" where
  "engine_ok st \<longleftrightarrow> (case engine st of None \<Rightarrow> True | Some e \<Rightarrow> live_engine (options st) e)"

definition drain_ok :: "'c server \<Rightarrow> bool" where
  "drain_ok st \<longleftrightarrow> (case drained_engine (place st) of None \<Rightarrow> True | Some e \<Rightarrow> winding_down e)
     \<and> list_all all_finished (retired st)"

lemma live_engine_recap:
  "live_engine opts e \<Longrightarrow> \<not> maxPendingOperations opts' < pending_count e \<Longrightarrow> live_engine opts' e"
  using pending_count_exact [of "maxPendingOperations opts" e]
  by (auto simp: live_engine_def exec_inv_def word_less_nat_alt)

lemma live_engine_new: "live_engine opts (new_executor w sends)"
  by (simp add: live_engine_def new_executor_inv) (simp add: new_executor_def)

lemma live_engine_admit:
  "live_engine opts e \<Longrightarrow> admissions (invs e i) = 0 \<Longrightarrow>
     live_engine opts (snd (admit i (maxPendingOperations opts) t now allocated e))"
  using admit_keeps [OF _ _ prod.collapse [symmetric]]
  by (auto simp: live_engine_def admit_def Let_def)

lemma live_engine_do: "live_engine opts e \<Longrightarrow> engine_do a e = Some e' \<Longrightarrow> a \<noteq> EngineControl \<Longrightarrow> live_engine opts e'"
  by (auto simp: live_engine_def engine_do_open intro: engine_do_keeps)

lemma live_winding_down: "live_engine opts e \<Longrightarrow> winding_down e"
  by (auto simp: live_engine_def winding_down_def drained_def)

lemma engine_ok_keeps:
  assumes "server_step p ssl st st'" "engine_ok st"
  shows "engine_ok st'"
  using assms by cases
    (auto simp: engine_ok_def sections live_engine_new split: section_splits
      intro: live_engine_recap live_engine_admit live_engine_do; fail)+

lemma drain_ok_keeps:
  assumes "server_step p ssl st st'" "engine_ok st" "drain_ok st"
  shows "drain_ok st'"
  using assms by cases
    (auto simp: engine_ok_def drain_ok_def sections split: section_splits
      intro: live_winding_down engine_do_winding_down threads_joined_finished; fail)+

text \<open>An executor that a start replaces has nothing to do.\<close>

definition idle_or_fits :: "server_options \<Rightarrow> executor \<Rightarrow> bool" where
  "idle_or_fits opts e \<longleftrightarrow> pending e = [] \<or> width e = unat (workerThreads opts)"

fun replaced_at :: "'c control_place \<Rightarrow> executor option \<Rightarrow> bool" where
  "replaced_at (StartModel opts) (Some e) = idle_or_fits opts e"
| "replaced_at (StartExecutor opts) (Some e) = idle_or_fits opts e"
| "replaced_at (StartDrain opts old) e = (pending old = [])"
| "replaced_at _ _ = True"

definition replaced_ok :: "'c server \<Rightarrow> bool" where
  "replaced_ok st \<longleftrightarrow> replaced_at (place st) (engine st)"

lemma replaced_at_next [simp]: "replaced_at (StartExecutor opts :: 'c control_place) e = replaced_at (StartModel opts :: 'c control_place) e"
  by (cases e) simp_all

lemma replaced_at_engine: "replaced_at call (Some e) \<Longrightarrow> (\<And>opts. idle_or_fits opts e \<Longrightarrow> idle_or_fits opts e') \<Longrightarrow>
    replaced_at call (Some e')"
  by (cases call) auto

lemma idle_or_fits_do: "idle_or_fits opts e \<Longrightarrow> engine_do a e = Some e' \<Longrightarrow> idle_or_fits opts e'"
  using engine_do_pending [of a e e'] engine_do_width [of a e e'] by (auto simp: idle_or_fits_def)

lemma idle_do: "pending e = [] \<Longrightarrow> engine_do a e = Some e' \<Longrightarrow> pending e' = []"
  using engine_do_pending [of a e e'] by simp

lemma replaced_ok_keeps:
  assumes "server_step p ssl st st'" "coherent st" "engine_ok st" "replaced_ok st"
  shows "replaced_ok st'"
  using assms
proof cases
  case (serve_admit_step i allocated)
  then have "beside (place st)" using assms(2) by (simp add: coherent_def)
  then have "beside (place st')" using serve_admit_step by (auto simp: serve_admit_def split: option.splits)
  then show ?thesis unfolding replaced_ok_def by (cases "place st'") auto
next
  case (start_configure_step opts)
  then show ?thesis using assms(3)
    by (auto simp: engine_ok_def live_engine_def replaced_ok_def idle_or_fits_def sections
        split: section_splits dest: pending_count_zero)
next
  case (engine_step e a e')
  then show ?thesis using assms(4)
    by (auto simp: replaced_ok_def intro: idle_or_fits_do elim: replaced_at_engine)
next
  case (start_drain_step opts e a e')
  then show ?thesis using assms(4) by (auto simp: replaced_ok_def intro: idle_do)
qed (use assms(4) in \<open>auto simp: replaced_ok_def idle_or_fits_def sections split: section_splits\<close>)

section \<open>Listener, watchdog and connections\<close>

fun listening :: "net_place \<Rightarrow> bool" where
  "listening NetWatch = True"
| "listening NetListening = True"
| "listening _ = False"

fun may_listen :: "net_place \<Rightarrow> bool" where
  "may_listen (NetFailed message) = True"
| "may_listen NetCleanup = True"
| "may_listen pc = listening pc"

text \<open>A stop reaches the listener, whichever comes first.\<close>

definition listener_ok :: "'c server \<Rightarrow> bool" where
  "listener_ok st \<longleftrightarrow> (listening (net st) \<longrightarrow> listener st) \<and> (listener st \<longrightarrow> may_listen (net st))
     \<and> (listener st \<and> run_state st = StateStopping \<longrightarrow> listener_stopped st)"

lemma absent_call:
  assumes "coherent st" "configured (place st) \<or> (\<exists>opts. place st = StartConfigure opts)"
  shows "net st = NetAbsent"
  using assms by (cases "net_class (net st)"; cases "place st") (auto simp: coherent_def)

lemma listener_ok_keeps:
  assumes "server_step p ssl st st'" "coherent st" "listener_ok st"
  shows "listener_ok st'"
  using assms absent_call [OF assms(2)] by cases
    (auto simp: coherent_def listener_ok_def joined_def sections split: section_splits; fail)+

fun watched :: "net_place \<Rightarrow> bool" where
  "watched NetListening = True"
| "watched (NetFailed message) = True"
| "watched NetCleanup = True"
| "watched NetJoinWatchdog = True"
| "watched _ = False"

text \<open>The watchdog acts only on a stop, and not before the grace period is over.\<close>

definition dog_ok :: "'c server \<Rightarrow> bool" where
  "dog_ok st \<longleftrightarrow> (dog st \<noteq> DogNone \<longrightarrow> watched (net st)) \<and> (dog st = DogGrace \<longrightarrow> run_state st = StateStopping)"

lemma dog_ok_keeps:
  assumes "server_step p ssl st st'" "coherent st" "dog_ok st"
  shows "dog_ok st'"
  using assms absent_call [OF assms(2)] by cases
    (auto simp: coherent_def dog_ok_def joined_def sections split: section_splits; fail)+

definition grace_ok :: "'c server \<Rightarrow> bool" where
  "grace_ok st \<longleftrightarrow> (grace_expired st \<longrightarrow> (run_state st = StateStopping \<or> run_state st = StateStopped)
     \<and> grace_deadline st \<le> clock st \<and> set (connections st) \<subseteq> set (cancelled st))"

lemma grace_ok_keeps:
  assumes "server_step p ssl st st'" "coherent st" "dog_ok st" "grace_ok st"
  shows "grace_ok st'"
  using assms absent_call [OF assms(2)] by cases
    (auto simp: coherent_def dog_ok_def grace_ok_def joined_def sections split: section_splits; fail)+

definition room :: "server_options \<Rightarrow> nat" where
  "room opts = unat (workerThreads opts) + unat (maxQueuedConnections opts) + 1"

definition connections_ok :: "'c server \<Rightarrow> bool" where
  "connections_ok st \<longleftrightarrow> length (connections st) \<le> capacity st"

definition capacity_ok :: "'c server \<Rightarrow> bool" where
  "capacity_ok st \<longleftrightarrow> (net_class (net st) = Live \<or> (\<exists>opts. place st = StartThread opts) \<longrightarrow> room (options st) \<le> capacity st)"

lemma connections_ok_keeps:
  assumes "server_step p ssl st st'" "connections_ok st"
  shows "connections_ok st'"
  using assms by cases
    (auto simp: connections_ok_def sections split: section_splits intro: le_trans [OF length_filter_le]; fail)+

lemma capacity_ok_keeps:
  assumes "server_step p ssl st st'" "coherent st" "settled st" "capacity_ok st"
  shows "capacity_ok st'"
  using assms absent_call [OF assms(2)] by cases
    (auto simp: capacity_ok_def coherent_def settled_def room_def joined_def sections split: section_splits; fail)+

section \<open>The invariant\<close>

definition no_fault :: "'c server \<Rightarrow> bool" where
  "no_fault st \<longleftrightarrow> \<not> fault st"

lemma serving_live: "coherent st \<Longrightarrow> serving st \<Longrightarrow> net_class (net st) = Live"
  by (cases "net_class (net st)") (auto simp: coherent_def serving_def split: if_splits)

lemma no_fault_keeps:
  assumes "server_step p ssl st st'" "coherent st" "model_ok st" "engine_fits st" "no_fault st"
  shows "no_fault st'"
  using assms(1,3-5) serving_live [OF assms(2)] by cases
    (auto simp: no_fault_def model_ok_def model_used_def engine_fits_def engine_used_def
      has_engine_def sections split: section_splits; fail)+

definition server_inv :: "'c server \<Rightarrow> bool" where
  "server_inv st \<longleftrightarrow> coherent st \<and> final_ok st \<and> closed_ok st \<and> settled st \<and> model_ok st \<and> engine_fits st
     \<and> engine_ok st \<and> drain_ok st \<and> replaced_ok st \<and> listener_ok st \<and> dog_ok st \<and> grace_ok st
     \<and> connections_ok st \<and> capacity_ok st \<and> no_fault st"

lemma server_step_keeps:
  assumes "server_step p ssl st st'" "server_inv st"
  shows "server_inv st'"
proof -
  have "coherent st'"
    using assms(2) past_stop_absent by (intro coherent_keeps [OF assms(1)]) (auto simp: server_inv_def)
  with assms(2) show ?thesis
    unfolding server_inv_def
    by (auto intro: final_ok_keeps [OF assms(1)] closed_ok_keeps [OF assms(1)] settled_keeps [OF assms(1)]
        model_ok_keeps [OF assms(1)] engine_fits_keeps [OF assms(1)] engine_ok_keeps [OF assms(1)]
        drain_ok_keeps [OF assms(1)] replaced_ok_keeps [OF assms(1)] listener_ok_keeps [OF assms(1)]
        dog_ok_keeps [OF assms(1)] grace_ok_keeps [OF assms(1)] connections_ok_keeps [OF assms(1)]
        capacity_ok_keeps [OF assms(1)] no_fault_keeps [OF assms(1)])
qed

lemma new_server_inv: "server_inv new_server"
  by (simp add: server_inv_def new_server_def coherent_def final_ok_def closed_ok_def past_stop_def settled_def
      model_ok_def model_used_def engine_fits_def engine_used_def engine_ok_def drain_ok_def replaced_ok_def
      listener_ok_def dog_ok_def grace_ok_def connections_ok_def capacity_ok_def no_fault_def)

lemma server_steps_keep: "(server_step p ssl)\<^sup>*\<^sup>* st st' \<Longrightarrow> server_inv st \<Longrightarrow> server_inv st'"
  by (induction rule: rtranclp_induct) (auto intro: server_step_keeps)

lemma server_reachable_inv: "server_reachable p ssl st \<Longrightarrow> server_inv st"
  unfolding server_reachable_def by (rule server_steps_keep [OF _ new_server_inv])

end
