(* ===== verification/Server_Progress.thy ===== *)
theory Server_Progress
  imports Server_Invariant Publication_Map
begin

text \<open>
  What the end of the server rests on: every executor it makes is shut down again and has
  threads that can end, the publications are those of \<open>Publication_Map\<close>, and a call or the
  network thread can always go on to its end.
\<close>

section \<open>Executors are made and retired\<close>

definition count_of :: "'a option \<Rightarrow> nat" where
  "count_of x = (case x of None \<Rightarrow> 0 | Some _ \<Rightarrow> 1)"

definition made_ok :: "'c server \<Rightarrow> bool" where
  "made_ok st \<longleftrightarrow> executors_made st = length (retired st) + count_of (engine st) + count_of (drained_engine (place st))"

lemma made_ok_keeps:
  assumes "server_step p ssl st st'" "made_ok st" "\<And>opts. place st = StartNewExecutor opts \<Longrightarrow> engine st = None"
  shows "made_ok st'"
  using assms by cases
    (auto simp: made_ok_def count_of_def sections split: section_splits; fail)+

fun without_engine :: "'c control_place \<Rightarrow> bool" where
  "without_engine (StartDrain opts e) = True"
| "without_engine (StartNewExecutor opts) = True"
| "without_engine (FinishDrain e) = True"
| "without_engine FinishModel = True"
| "without_engine _ = False"

definition released_ok :: "'c server \<Rightarrow> bool" where
  "released_ok st \<longleftrightarrow> (without_engine (place st) \<or> 0 < shutdowns st \<longrightarrow> engine st = None)
     \<and> (0 < shutdowns st \<longrightarrow> object_model st = None \<and> drained_engine (place st) = None)"

lemma released_ok_keeps:
  assumes "server_step p ssl st st'" "released_ok st" "0 < shutdowns st \<Longrightarrow> quiet_call (place st)"
    "without_engine (place st) \<Longrightarrow> net_class (net st) \<noteq> Live"
  shows "released_ok st'"
  using assms by cases
    (auto simp: released_ok_def sections split: section_splits; fail)+

section \<open>Executors can end\<close>

definition lively :: "executor \<Rightarrow> bool" where
  "lively e \<longleftrightarrow> awake e \<and> 0 < width e"

fun new_options :: "'c control_place \<Rightarrow> server_options option" where
  "new_options (StartConfigure opts) = Some opts"
| "new_options call = call_options call"

definition lively_ok :: "'c server \<Rightarrow> bool" where
  "lively_ok st \<longleftrightarrow> (case engine st of None \<Rightarrow> True | Some e \<Rightarrow> lively e)
     \<and> (case drained_engine (place st) of None \<Rightarrow> True | Some e \<Rightarrow> lively e)
     \<and> (case new_options (place st) of None \<Rightarrow> True | Some opts \<Rightarrow> 0 < unat (workerThreads opts))"

lemma valid_workers: "validateOptions q ssl opts = Inr () \<Longrightarrow> 0 < unat (workerThreads opts)"
  by (auto simp: validateOptions_def positive_def Let_def unat_gt_0 split: if_splits option.splits)

lemma lively_do: "engine_do a e = Some e' \<Longrightarrow> lively e \<Longrightarrow> lively e'"
  by (auto simp: lively_def engine_do_width intro: engine_do_awake)

lemma lively_new: "0 < unat w \<Longrightarrow> lively (new_executor w sends)"
  using new_executor_awake [of w sends] by (simp add: lively_def) (simp add: new_executor_def)

lemma lively_admit: "lively e \<Longrightarrow> lively (snd (admit i cap t now allocated e))"
  by (simp add: lively_def admit_awake)

lemma lively_ok_keeps:
  assumes "server_step p ssl st st'" "lively_ok st"
  shows "lively_ok st'"
  using assms by cases
    (auto simp: lively_ok_def sections lively_new valid_workers split: section_splits
      intro: lively_do lively_admit; fail)+

definition join_ok :: "'c server \<Rightarrow> bool" where
  "join_ok st \<longleftrightarrow> (net st = NetJoinWatchdog \<longrightarrow> network_done st)"

lemma join_ok_keeps:
  assumes "server_step p ssl st st'" "coherent st" "join_ok st"
  shows "join_ok st'"
  using assms absent_call [OF assms(2)] by cases
    (auto simp: join_ok_def sections split: section_splits; fail)+

section \<open>Publications\<close>

definition model_published :: "'c object_model \<Rightarrow> bool" where
  "model_published m \<longleftrightarrow> committed (om_catalog m) (om_diagnostics m) (om_publications m)"

definition staged_for :: "component_view \<Rightarrow> 'c publication \<Rightarrow> 'c object_model \<Rightarrow> bool" where
  "staged_for component pub m \<longleftrightarrow> (\<exists>view. stage view (om_catalog m) (om_diagnostics m) component = Inr pub)"

fun staged_call :: "'c control_place \<Rightarrow> 'c object_model \<Rightarrow> bool" where
  "staged_call (PublishCommit component pub) m = staged_for component pub m"
| "staged_call call m = True"

definition published_ok :: "'c server \<Rightarrow> bool" where
  "published_ok st \<longleftrightarrow> (case object_model st of None \<Rightarrow> True
     | Some m \<Rightarrow> model_published m \<and> staged_call (place st) m)"

lemma commit_published:
  assumes "model_published m" "staged_for component pub m"
    "commit (component_name component) pub (om_publications m) = (ok, message, pubs)"
  shows "model_published (m\<lparr>om_publications := pubs\<rparr>)"
  using assms committed_more unfolding model_published_def staged_for_def by fastforce

lemma new_model_published: "model_published \<lparr>om_catalog = cat, om_diagnostics = diags, om_publications = []\<rparr>"
  by (simp add: model_published_def committed_none)

lemma published_ok_keeps:
  assumes "server_step p ssl st st'" "published_ok st"
  shows "published_ok st'"
  using assms
proof cases
  case (publish_commit_step component pub thrown)
  then show ?thesis using assms(2) commit_published
    by (auto simp: published_ok_def publish_commit_def give_def split: option.splits prod.splits)
next
  case (publish_stage_step component view thrown)
  then show ?thesis using assms(2)
    by (auto simp: published_ok_def publish_stage_def give_def staged_for_def split: option.splits sum.splits)
qed (use assms(2) new_model_published in
  \<open>auto simp: published_ok_def sections split: section_splits; fail\<close>)+

section \<open>The whole invariant\<close>

definition full_inv :: "'c server \<Rightarrow> bool" where
  "full_inv st \<longleftrightarrow> server_inv st \<and> made_ok st \<and> released_ok st \<and> lively_ok st \<and> join_ok st \<and> published_ok st"

lemma full_inv_server [dest]: "full_inv st \<Longrightarrow> server_inv st"
  by (simp add: full_inv_def)

lemma full_step_keeps:
  assumes "server_step p ssl st st'" "full_inv st"
  shows "full_inv st'"
proof -
  have inv: "coherent st" "closed_ok st" using assms(2) by (auto simp: full_inv_def server_inv_def)
  have engine: "engine st = None" if "place st = StartNewExecutor opts" for opts
    using assms(2) that by (simp add: full_inv_def released_ok_def)
  have "quiet_call (place st)" if "0 < shutdowns st"
    using inv(2) that by (simp add: closed_ok_def past_stop_def quiet_def)
  moreover have "net_class (net st) \<noteq> Live" if "without_engine (place st)"
    using inv(1) that by (cases "place st") (auto simp: coherent_def)
  ultimately show ?thesis
    using assms(2) engine inv
    unfolding full_inv_def
    by (auto intro: server_step_keeps [OF assms(1)] made_ok_keeps [OF assms(1)] released_ok_keeps [OF assms(1)]
        lively_ok_keeps [OF assms(1)] join_ok_keeps [OF assms(1)] published_ok_keeps [OF assms(1)])
qed

lemma full_steps_keep: "(server_step p ssl)\<^sup>*\<^sup>* st st' \<Longrightarrow> full_inv st \<Longrightarrow> full_inv st'"
  by (induction rule: rtranclp_induct) (auto intro: full_step_keeps)

lemma new_server_full: "full_inv new_server"
  using new_server_inv
  by (simp add: full_inv_def made_ok_def count_of_def released_ok_def lively_ok_def join_ok_def published_ok_def
      new_server_def)

lemma reachable_full: "server_reachable p ssl st \<Longrightarrow> full_inv st"
  unfolding server_reachable_def by (rule full_steps_keep [OF _ new_server_full])

text \<open>The final shutdown is never taken back.\<close>

lemma final_stays_step: "server_step p ssl st st' \<Longrightarrow> final_shutdown st \<Longrightarrow> final_shutdown st'"
  by (cases rule: server_step.cases, assumption)
    (auto simp: sections split: section_splits; fail)+

lemma final_stays: "(server_step p ssl)\<^sup>*\<^sup>* st st' \<Longrightarrow> final_shutdown st \<Longrightarrow> final_shutdown st'"
  by (induction rule: rtranclp_induct) (auto intro: final_stays_step)

section \<open>The network thread can end\<close>

fun net_rank :: "net_place \<Rightarrow> nat" where
  "net_rank NetBound = 7"
| "net_rank NetSetup = 6"
| "net_rank NetWatch = 6"
| "net_rank NetListening = 6"
| "net_rank (NetFailed message) = 5"
| "net_rank NetCleanup = 4"
| "net_rank NetJoinWatchdog = 3"
| "net_rank NetFinal = 2"
| "net_rank _ = 0"

fun dog_rank :: "dog_place \<Rightarrow> nat" where
  "dog_rank DogWaiting = 1"
| "dog_rank DogGrace = 1"
| "dog_rank _ = 0"

definition ending_rank :: "'c server \<Rightarrow> nat" where
  "ending_rank st = 2 * net_rank (net st) + dog_rank (dog st)"

lemma place_requestStopLocked [simp]:
  "place (requestStopLocked active st) = place st" "net (requestStopLocked active st) = net st"
  "dog (requestStopLocked active st) = dog st" "finishers (requestStopLocked active st) = finishers st"
  "final_shutdown (requestStopLocked active st) = final_shutdown st"
  "engine (requestStopLocked active st) = engine st"
  by (simp_all add: requestStopLocked_def)

lemma network_advances:
  assumes "full_inv st" "net_class (net st) = Live"
  shows "\<exists>st'. server_step p ssl st st' \<and> place st' = place st \<and> ending_rank st' < ending_rank st"
proof (cases "net st")
  case NetSetup
  from net_setup_step [OF NetSetup, of p ssl "Some []"] show ?thesis
    by (intro exI [of _ "net_setup (Some []) st"]) (use NetSetup in \<open>simp add: net_setup_def ending_rank_def\<close>)
next
  case NetBound
  from net_bound_step [OF NetBound, of p ssl] show ?thesis
    by (intro exI [of _ "net_bound st"]) (use NetBound in \<open>simp add: net_bound_def ending_rank_def\<close>)
next
  case NetWatch
  from net_watch_step [OF NetWatch, of p ssl "Some []"] show ?thesis
    by (intro exI [of _ "net_watch (Some []) st"]) (use NetWatch in \<open>simp add: net_watch_def ending_rank_def\<close>)
next
  case NetListening
  from listen_returned_step [OF NetListening, of p ssl "Inl []"] show ?thesis
    by (intro exI [of _ "listen_returned (Inl []) st"])
      (use NetListening in \<open>simp add: listen_returned_def ending_rank_def\<close>)
next
  case (NetFailed message)
  from net_failed_step [OF NetFailed, of p ssl "\<lambda>c. True"] show ?thesis
    by (intro exI [of _ "net_failed (\<lambda>c. True) message st"])
      (use NetFailed in \<open>simp add: net_failed_def ending_rank_def requestStopLocked_def\<close>)
next
  case NetCleanup
  from net_cleanup_step [OF NetCleanup, of p ssl] show ?thesis
    by (intro exI [of _ "net_cleanup st"]) (use NetCleanup in \<open>simp add: net_cleanup_def ending_rank_def\<close>)
next
  case NetJoinWatchdog
  then have "network_done st" using assms(1) by (simp add: full_inv_def join_ok_def)
  show ?thesis
  proof (cases "dog st = DogNone \<or> dog st = DogDone")
    case True
    then have "net_join_watchdog st = Some (st\<lparr>dog := DogNone, net := NetFinal\<rparr>)" by (simp add: net_join_watchdog_def)
    from net_join_watchdog_step [OF NetJoinWatchdog this] show ?thesis
      using NetJoinWatchdog by (intro exI [of _ "st\<lparr>dog := DogNone, net := NetFinal\<rparr>"]) (simp add: ending_rank_def)
  next
    case False
    then have "watch_step st = Some (st\<lparr>dog := DogDone\<rparr>)" "dog_rank (dog st) = 1"
      using \<open>network_done st\<close> by (cases "dog st"; simp add: watch_step_def)+
    then show ?thesis
      using watch_step by (intro exI [of _ "st\<lparr>dog := DogDone\<rparr>"]) (simp add: ending_rank_def)
  qed
next
  case NetFinal
  from net_final_step [OF NetFinal, of p ssl] show ?thesis
    by (intro exI [of _ "net_final st"]) (use NetFinal in \<open>simp add: net_final_def ending_rank_def\<close>)
qed (use assms(2) in simp_all)

lemma network_ends:
  assumes "full_inv st"
  shows "\<exists>st'. (server_step p ssl)\<^sup>*\<^sup>* st st' \<and> net_class (net st') \<noteq> Live \<and> place st' = place st"
  using assms
proof (induction "ending_rank st" arbitrary: st rule: less_induct)
  case less
  show ?case
  proof (cases "net_class (net st) = Live")
    case True
    obtain st1 where st1: "server_step p ssl st st1" "place st1 = place st" "ending_rank st1 < ending_rank st"
      using network_advances [OF less.prems True] by blast
    obtain st2 where "(server_step p ssl)\<^sup>*\<^sup>* st1 st2" "net_class (net st2) \<noteq> Live" "place st2 = place st1"
      using less.hyps [OF st1(3) full_step_keeps [OF st1(1) less.prems]] by blast
    then show ?thesis using st1 by (metis converse_rtranclp_into_rtranclp)
  qed blast
qed

section \<open>A call can end\<close>

lemma engine_run_drain:
  assumes "engine_run e e'"
  shows "place st = StartDrain opts e \<Longrightarrow> (server_step p ssl)\<^sup>*\<^sup>* st (st\<lparr>place := StartDrain opts e'\<rparr>)"
    "place st = FinishDrain e \<Longrightarrow> (server_step p ssl)\<^sup>*\<^sup>* st (st\<lparr>place := FinishDrain e'\<rparr>)"
proof -
  have unchanged: "place st = x \<Longrightarrow> st\<lparr>place := x\<rparr> = st" for x by auto
  show "(server_step p ssl)\<^sup>*\<^sup>* st (st\<lparr>place := StartDrain opts e'\<rparr>)" if "place st = StartDrain opts e"
    using assms unfolding engine_run_def
  proof (induction rule: rtranclp_induct)
    case (step e1 e2)
    then obtain a where a: "engine_do a e1 = Some e2" by blast
    have "server_step p ssl (st\<lparr>place := StartDrain opts e1\<rparr>)
        ((st\<lparr>place := StartDrain opts e1\<rparr>)\<lparr>place := StartDrain opts e2\<rparr>)"
      by (rule start_drain_step [OF _ a]) simp
    then have "server_step p ssl (st\<lparr>place := StartDrain opts e1\<rparr>) (st\<lparr>place := StartDrain opts e2\<rparr>)" by simp
    with step.IH show ?case by (rule rtranclp.rtrancl_into_rtrancl)
  qed (simp add: unchanged that)
  show "(server_step p ssl)\<^sup>*\<^sup>* st (st\<lparr>place := FinishDrain e'\<rparr>)" if "place st = FinishDrain e"
    using assms unfolding engine_run_def
  proof (induction rule: rtranclp_induct)
    case (step e1 e2)
    then obtain a where a: "engine_do a e1 = Some e2" by blast
    have "server_step p ssl (st\<lparr>place := FinishDrain e1\<rparr>)
        ((st\<lparr>place := FinishDrain e1\<rparr>)\<lparr>place := FinishDrain e2\<rparr>)"
      by (rule finish_drain_step [OF _ a]) simp
    then have "server_step p ssl (st\<lparr>place := FinishDrain e1\<rparr>) (st\<lparr>place := FinishDrain e2\<rparr>)" by simp
    with step.IH show ?case by (rule rtranclp.rtrancl_into_rtrancl)
  qed (simp add: unchanged that)
qed

lemma drained_engine_ends:
  assumes "full_inv st" "drained_engine (place st) = Some e"
  shows "\<exists>e'. engine_run e e' \<and> threads_joined e'"
  using assms executor_winds_down
  by (auto simp: full_inv_def server_inv_def drain_ok_def lively_ok_def lively_def)

fun place_rank :: "'c control_place \<Rightarrow> nat" where
  "place_rank NoCall = 0"
| "place_rank (StartJoin opts) = 9"
| "place_rank (StartConfigure opts) = 8"
| "place_rank (StartModel opts) = 7"
| "place_rank (StartExecutor opts) = 6"
| "place_rank (StartDrain opts e) = 5"
| "place_rank (StartNewExecutor opts) = 4"
| "place_rank (StartReserve opts) = 3"
| "place_rank (StartThread opts) = 2"
| "place_rank (StopRequest finishing) = 2"
| "place_rank (PublishStage component) = 2"
| "place_rank (FinishDrain e) = 2"
| "place_rank _ = 1"

text \<open>The network thread is gone, and the call makes a step towards its end.\<close>

definition advances :: "('s::len) word \<Rightarrow> bool \<Rightarrow> 'c server \<Rightarrow> bool" where
  "advances p ssl st \<longleftrightarrow> (\<exists>st'. (server_step p ssl)\<^sup>*\<^sup>* st st' \<and> net_class (net st') \<noteq> Live
     \<and> place_rank (place st') < place_rank (place st))"

lemma advancesI:
  "server_step p ssl st st' \<Longrightarrow> net_class (net st') \<noteq> Live \<Longrightarrow> place_rank (place st') < place_rank (place st) \<Longrightarrow>
     advances p ssl st"
  unfolding advances_def by blast

lemma drain_advances:
  assumes "full_inv st" "net_class (net st) \<noteq> Live" "drained_engine (place st) = Some e"
  shows "advances p ssl st"
proof -
  obtain e' where e': "engine_run e e'" "threads_joined e'" using drained_engine_ends [OF assms(1,3)] by blast
  consider (start) opts where "place st = StartDrain opts e" | (finish) "place st = FinishDrain e"
    using assms(3) by (cases "place st") auto
  then show ?thesis
  proof cases
    case start
    let ?mid = "st\<lparr>place := StartDrain opts e'\<rparr>"
    have "start_drained opts e' ?mid = Some (?mid\<lparr>retired := retired st @ [e'], place := StartNewExecutor opts\<rparr>)"
      using e'(2) by (simp add: start_drained_def)
    then have "server_step p ssl ?mid (?mid\<lparr>retired := retired st @ [e'], place := StartNewExecutor opts\<rparr>)"
      by (intro start_drained_step) simp_all
    with engine_run_drain(1) [OF e'(1) start] show ?thesis
      unfolding advances_def using assms(2) start
      by (intro exI [of _ "?mid\<lparr>retired := retired st @ [e'], place := StartNewExecutor opts\<rparr>"])
        (auto intro: rtranclp.rtrancl_into_rtrancl)
  next
    case finish
    let ?mid = "st\<lparr>place := FinishDrain e'\<rparr>"
    have "finish_drained e' ?mid = Some (?mid\<lparr>retired := retired st @ [e'], place := FinishModel\<rparr>)"
      using e'(2) by (simp add: finish_drained_def)
    then have "server_step p ssl ?mid (?mid\<lparr>retired := retired st @ [e'], place := FinishModel\<rparr>)"
      by (intro finish_drained_step) simp_all
    with engine_run_drain(2) [OF e'(1) finish] show ?thesis
      unfolding advances_def using assms(2) finish
      by (intro exI [of _ "?mid\<lparr>retired := retired st @ [e'], place := FinishModel\<rparr>"])
        (auto intro: rtranclp.rtrancl_into_rtrancl)
  qed
qed

lemma call_advances:
  assumes "full_inv st" "net_class (net st) \<noteq> Live" "final_shutdown st" "place st \<noteq> NoCall"
  shows "advances p ssl st"
proof (cases "place st")
  case (StartJoin opts)
  then obtain st' where st': "start_join p ssl opts st = Some st'" "net st' = NetAbsent" "place_rank (place st') < 9"
    using assms(2) by (auto simp: start_join_def joined_class give_def split: sum.splits)
  show ?thesis
    by (rule advancesI [OF start_join_step [OF StartJoin st'(1)]]) (use st' StartJoin in simp_all)
next
  case (StartConfigure opts)
  show ?thesis
    by (rule advancesI [OF start_configure_step [OF StartConfigure]])
      (use assms(2) StartConfigure in \<open>auto simp: start_configure_def give_def Let_def split: option.splits\<close>)
next
  case (StartModel opts)
  show ?thesis
    by (rule advancesI [OF start_model_step [OF StartModel, of p ssl "Inl []"]])
      (use assms(2) StartModel in \<open>auto simp: start_model_def\<close>)
next
  case (StartExecutor opts)
  show ?thesis
    by (rule advancesI [OF start_executor_step [OF StartExecutor]])
      (use assms(2) StartExecutor in \<open>auto simp: start_executor_def split: option.splits\<close>)
next
  case (StartNewExecutor opts)
  show ?thesis
    by (rule advancesI [OF start_new_executor_step [OF StartNewExecutor, of p ssl "Inl []"]])
      (use assms(2) StartNewExecutor in \<open>auto simp: start_new_executor_def\<close>)
next
  case (StartReserve opts)
  show ?thesis
    by (rule advancesI [OF start_reserve_step [OF StartReserve, of p ssl "Some []"]])
      (use assms(2) StartReserve in \<open>auto simp: start_reserve_def give_def\<close>)
next
  case (StartThread opts)
  show ?thesis
    by (rule advancesI [OF start_thread_step [OF StartThread, of p ssl "Some []"]])
      (use assms(2) StartThread in \<open>auto simp: start_thread_def\<close>)
next
  case StartWait
  have "run_state st = StateStopped"
    using assms(1,2) StartWait
    by (cases "net_class (net st)") (auto simp: full_inv_def server_inv_def coherent_def split: if_splits)
  then obtain st' where st': "start_wait st = Some st'" "net st' = net st" "place st' = NoCall"
    by (auto simp: start_wait_def give_def)
  show ?thesis
    by (rule advancesI [OF start_wait_step [OF StartWait st'(1)]]) (use assms(2) StartWait st' in simp_all)
next
  case (StartFailed message)
  show ?thesis
    by (rule advancesI [OF start_failed_step [OF StartFailed]])
      (use assms(2) StartFailed in \<open>auto simp: start_failed_def give_def\<close>)
next
  case (StopRequest finishing)
  show ?thesis
    by (rule advancesI [OF stop_request_step [OF StopRequest, of p ssl "\<lambda>c. True"]])
      (use assms(2) StopRequest in \<open>auto simp: stop_request_def\<close>)
next
  case (StopJoin finishing)
  then obtain st' where "stop_join finishing st = Some st'" "net st' = NetAbsent" "place st' = NoCall"
    using assms(2) by (auto simp: stop_join_def joined_class)
  then show ?thesis
    using StopJoin by (intro advancesI [OF stop_join_step [OF StopJoin]]) auto
next
  case (PublishStage component)
  have "object_model st \<noteq> None"
    using assms(1) PublishStage by (auto simp: full_inv_def server_inv_def model_ok_def model_used_def)
  then show ?thesis
    using assms(2) PublishStage
    by (intro advancesI [OF publish_stage_step [OF PublishStage, of p ssl undefined "Some []"]])
      (auto simp: publish_stage_def give_def split: option.splits)
next
  case (PublishCommit component pub)
  have "\<not> serving st" using assms(3) by (simp add: serving_def)
  then show ?thesis
    using assms(2) PublishCommit
    by (intro advancesI [OF publish_commit_step [OF PublishCommit]]) (auto simp: publish_commit_def give_def)
next
  case FinishModel
  show ?thesis
    by (rule advancesI [OF finish_model_step [OF FinishModel]]) (use assms(2) FinishModel in \<open>auto simp: finish_model_def\<close>)
next
  case (StartDrain opts e)
  then show ?thesis using drain_advances [OF assms(1,2), of e] by simp
next
  case (FinishDrain e)
  then show ?thesis using drain_advances [OF assms(1,2), of e] by simp
qed (use assms(4) in simp)

lemma call_ends:
  assumes "full_inv st" "net_class (net st) \<noteq> Live" "final_shutdown st"
  shows "\<exists>st'. (server_step p ssl)\<^sup>*\<^sup>* st st' \<and> net_class (net st') \<noteq> Live \<and> place st' = NoCall"
  using assms
proof (induction "place_rank (place st)" arbitrary: st rule: less_induct)
  case less
  show ?case
  proof (cases "place st = NoCall")
    case False
    obtain st1 where st1: "(server_step p ssl)\<^sup>*\<^sup>* st st1" "net_class (net st1) \<noteq> Live"
        "place_rank (place st1) < place_rank (place st)"
      using call_advances [OF less.prems False] unfolding advances_def by blast
    obtain st2 where "(server_step p ssl)\<^sup>*\<^sup>* st1 st2" "net_class (net st2) \<noteq> Live" "place st2 = NoCall"
      using less.hyps [OF st1(3) full_steps_keep [OF st1(1) less.prems(1)] st1(2) final_stays [OF st1(1) less.prems(3)]]
      by blast
    then show ?thesis using st1(1) by (meson rtranclp_trans)
  qed (use less.prems in blast)
qed

text \<open>From there \<open>finishShutdown\<close> goes through.\<close>

lemma release_ends:
  assumes "full_inv st" "net_class (net st) \<noteq> Live" "closing_call (place st)"
  shows "\<exists>st'. (server_step p ssl)\<^sup>*\<^sup>* st st' \<and> 0 < shutdowns st'"
proof -
  have model: "\<exists>st'. (server_step p ssl)\<^sup>*\<^sup>* st st' \<and> 0 < shutdowns st'" if "place st = FinishModel" for st :: "'a server"
    by (rule exI [of _ "finish_model st"]) (use finish_model_step [OF that] in \<open>auto simp: finish_model_def\<close>)
  show ?thesis
  proof (cases "place st = FinishModel")
    case False
    then obtain e where e: "place st = FinishDrain e" using assms(3) by (cases "place st") auto
    obtain e' where e': "engine_run e e'" "threads_joined e'"
      using drained_engine_ends [OF assms(1), of e] e by auto
    let ?mid = "st\<lparr>place := FinishDrain e'\<rparr>"
    let ?next = "?mid\<lparr>retired := retired st @ [e'], place := FinishModel\<rparr>"
    have "server_step p ssl ?mid ?next"
      by (rule finish_drained_step [of _ e']) (use e'(2) in \<open>simp_all add: finish_drained_def\<close>)
    with engine_run_drain(2) [OF e'(1) e] have run: "(server_step p ssl)\<^sup>*\<^sup>* st ?next"
      by (rule rtranclp.rtrancl_into_rtrancl)
    have "place ?next = FinishModel" by simp
    from model [OF this] obtain st' where st': "(server_step p ssl)\<^sup>*\<^sup>* ?next st'" "0 < shutdowns st'" by blast
    show ?thesis by (rule exI [of _ st']) (use rtranclp_trans [OF run st'(1)] st'(2) in simp)
  qed (rule model)
qed

lemma finish_ends:
  assumes "full_inv st" "net_class (net st) \<noteq> Live" "final_shutdown st" "place st = NoCall"
  shows "\<exists>st'. (server_step p ssl)\<^sup>*\<^sup>* st st' \<and> 0 < shutdowns st'"
proof -
  let ?asked = "st\<lparr>place := StopRequest True\<rparr>"
  let ?stopping = "stop_request (\<lambda>c. True) True ?asked"
  let ?joined = "?stopping\<lparr>net := NetAbsent, place := NoCall, finishers := Suc (finishers ?stopping)\<rparr>"
  have "server_step p ssl st ?asked" by (rule call_finish_step [OF assms(4,3)])
  moreover have "server_step p ssl ?asked ?stopping" by (rule stop_request_step) simp
  moreover have "server_step p ssl ?stopping ?joined"
    by (rule stop_join_step [of _ True])
      (use assms(2) in \<open>simp_all add: stop_join_def stop_request_def joined_class\<close>)
  moreover have "server_step p ssl ?joined (finish_take ?joined)" by (rule finish_take_step) simp_all
  ultimately have run: "(server_step p ssl)\<^sup>*\<^sup>* st (finish_take ?joined)"
    by (blast intro: converse_rtranclp_into_rtranclp)
  have "full_inv (finish_take ?joined)" by (rule full_steps_keep [OF run assms(1)])
  moreover have "closing_call (place (finish_take ?joined))" "net (finish_take ?joined) = NetAbsent"
    by (simp_all add: finish_take_def split: option.splits)
  ultimately show ?thesis
    using release_ends [of "finish_take ?joined" p ssl] run rtranclp_trans by fastforce
qed

lemma shutdown_possible:
  assumes "full_inv st"
  shows "\<exists>st'. (server_step p ssl)\<^sup>*\<^sup>* st st' \<and> 0 < shutdowns st'"
proof -
  let ?begun = "beginShutdown (\<lambda>c. True) st"
  have begun: "server_step p ssl st ?begun" by (rule begin_shutdown_step)
  have "full_inv ?begun" "final_shutdown ?begun"
    using full_step_keeps [OF begun assms] by (simp_all add: beginShutdown_def)
  then obtain st1 where st1: "(server_step p ssl)\<^sup>*\<^sup>* ?begun st1" "net_class (net st1) \<noteq> Live"
    using network_ends by blast
  have inv1: "full_inv st1" "final_shutdown st1"
    using full_steps_keep [OF st1(1)] final_stays [OF st1(1)] \<open>full_inv ?begun\<close> \<open>final_shutdown ?begun\<close> by simp_all
  obtain st2 where st2: "(server_step p ssl)\<^sup>*\<^sup>* st1 st2" "net_class (net st2) \<noteq> Live" "place st2 = NoCall"
    using call_ends [OF inv1(1) st1(2) inv1(2)] by blast
  obtain st3 where "(server_step p ssl)\<^sup>*\<^sup>* st2 st3" "0 < shutdowns st3"
    using finish_ends [OF full_steps_keep [OF st2(1) inv1(1)] st2(2) final_stays [OF st2(1) inv1(2)] st2(3)] by blast
  then show ?thesis
    using begun st1(1) st2(1) by (meson converse_rtranclp_into_rtranclp rtranclp_trans)
qed

end
