(* ===== verification/Server_Properties.thy ===== *)
theory Server_Properties
  imports Server_Progress
begin

text \<open>
  The properties of the server's life cycle, in every interleaving of its threads, and a run of it
  on which they are applied.
\<close>

section \<open>A run\<close>

lemma reach_step: "server_reachable p ssl st \<Longrightarrow> server_step p ssl st st' \<Longrightarrow> server_reachable p ssl st'"
  unfolding server_reachable_def by (rule rtranclp.rtrancl_into_rtrancl)

lemma default_valid: "validateOptions (16 :: u64) False default_options = Inr ()"
  by code_simp

definition sample_object_model :: "nat object_model" where
  "sample_object_model = \<lparr>om_catalog = sample_catalog, om_diagnostics = [], om_publications = []\<rparr>"

text \<open>The server after a start: it listens, and \<open>start\<close> has not yet seen it.\<close>

definition listening_server :: "nat server" where
  "listening_server = new_server\<lparr>run_state := StateStarting, network_done := False,
     object_model := Some sample_object_model, engine := Some (new_executor 4 (\<lambda>i. False)), listener := True,
     capacity := 69, place := StartWait, net := NetListening, dog := DogWaiting, executors_made := 1\<rparr>"

lemma listening_server_reachable: "server_reachable (16 :: u64) False listening_server"
proof -
  let ?s = "new_server :: nat server"
  let ?o = default_options
  let ?c = "?s\<lparr>run_state := StateStarting, place := StartModel ?o\<rparr>"
  let ?m = "?c\<lparr>object_model := Some sample_object_model\<rparr>"
  let ?e = "?m\<lparr>engine := Some (new_executor 4 (\<lambda>i. False)), executors_made := 1\<rparr>"
  let ?r = "?e\<lparr>capacity := 69, network_done := False\<rparr>"
  let ?l = "?r\<lparr>place := StartWait, listener := True\<rparr>"
  have "server_reachable (16 :: u64) False ?s" by (simp add: server_reachable_def)
  then have "server_reachable (16 :: u64) False (start_check ?o ?s)"
    by (rule reach_step) (rule start_check_step, simp add: new_server_def)
  also have "start_check ?o ?s = ?s\<lparr>place := StartJoin ?o\<rparr>" by (simp add: start_check_def new_server_def)
  finally have "server_reachable (16 :: u64) False (?s\<lparr>place := StartConfigure ?o\<rparr>)"
    by (rule reach_step) (rule start_join_step [of _ ?o], simp_all add: start_join_def joined_def default_valid new_server_def)
  then have "server_reachable (16 :: u64) False (start_configure ?o (?s\<lparr>place := StartConfigure ?o\<rparr>))"
    by (rule reach_step) (rule start_configure_step, simp)
  also have "start_configure ?o (?s\<lparr>place := StartConfigure ?o\<rparr>) = ?c"
    by (simp add: start_configure_def new_server_def)
  finally have "server_reachable (16 :: u64) False (start_model (Inr (sample_catalog, [])) ?o ?c)"
    by (rule reach_step) (rule start_model_step, simp)
  also have "start_model (Inr (sample_catalog, [])) ?o ?c = ?m\<lparr>place := StartExecutor ?o\<rparr>"
    by (simp add: start_model_def new_server_def sample_object_model_def)
  finally have "server_reachable (16 :: u64) False (start_executor ?o (?m\<lparr>place := StartExecutor ?o\<rparr>))"
    by (rule reach_step) (rule start_executor_step, simp)
  also have "start_executor ?o (?m\<lparr>place := StartExecutor ?o\<rparr>) = ?m\<lparr>place := StartNewExecutor ?o\<rparr>"
    by (simp add: start_executor_def new_server_def)
  finally have "server_reachable (16 :: u64) False (start_new_executor (Inr (\<lambda>i. False)) ?o (?m\<lparr>place := StartNewExecutor ?o\<rparr>))"
    by (rule reach_step) (rule start_new_executor_step, simp)
  also have "start_new_executor (Inr (\<lambda>i. False)) ?o (?m\<lparr>place := StartNewExecutor ?o\<rparr>) = ?e\<lparr>place := StartReserve ?o\<rparr>"
    by (simp add: start_new_executor_def new_server_def default_options_def)
  finally have "server_reachable (16 :: u64) False (start_reserve None ?o (?e\<lparr>place := StartReserve ?o\<rparr>))"
    by (rule reach_step) (rule start_reserve_step, simp)
  also have "start_reserve None ?o (?e\<lparr>place := StartReserve ?o\<rparr>) = ?r\<lparr>place := StartThread ?o\<rparr>"
    by (simp add: start_reserve_def new_server_def default_options_def)
  finally have "server_reachable (16 :: u64) False (start_thread None (?r\<lparr>place := StartThread ?o\<rparr>))"
    by (rule reach_step) (rule start_thread_step, simp)
  also have "start_thread None (?r\<lparr>place := StartThread ?o\<rparr>) = ?r\<lparr>place := StartWait, net := NetSetup\<rparr>"
    by (simp add: start_thread_def new_server_def)
  finally have "server_reachable (16 :: u64) False (net_setup None (?r\<lparr>place := StartWait, net := NetSetup\<rparr>))"
    by (rule reach_step) (rule net_setup_step, simp)
  also have "net_setup None (?r\<lparr>place := StartWait, net := NetSetup\<rparr>) = ?r\<lparr>place := StartWait, net := NetBound\<rparr>"
    by (simp add: net_setup_def)
  finally have "server_reachable (16 :: u64) False (net_bound (?r\<lparr>place := StartWait, net := NetBound\<rparr>))"
    by (rule reach_step) (rule net_bound_step, simp)
  also have "net_bound (?r\<lparr>place := StartWait, net := NetBound\<rparr>) = ?l\<lparr>net := NetWatch\<rparr>"
    by (simp add: net_bound_def new_server_def)
  finally have "server_reachable (16 :: u64) False (net_watch None (?l\<lparr>net := NetWatch\<rparr>))"
    by (rule reach_step) (rule net_watch_step, simp)
  also have "net_watch None (?l\<lparr>net := NetWatch\<rparr>) = listening_server"
    by (simp add: net_watch_def listening_server_def new_server_def)
  finally show ?thesis .
qed

definition running_server :: "nat server" where
  "running_server = listening_server\<lparr>run_state := StateRunning, place := NoCall, answer := Some (True, [])\<rparr>"

lemma running_server_reachable: "server_reachable (16 :: u64) False running_server"
proof -
  have "server_reachable (16 :: u64) False (start_handler listening_server)"
    by (rule reach_step [OF listening_server_reachable]) (rule start_handler_step, simp add: listening_server_def)
  also have "start_handler listening_server = listening_server\<lparr>run_state := StateRunning\<rparr>"
    by (simp add: start_handler_def listening_server_def new_server_def)
  finally show ?thesis
    by (rule reach_step)
      (rule start_wait_step, simp_all add: start_wait_def give_def listening_server_def running_server_def)
qed

text \<open>It serves a connection and has admitted an operation.\<close>

definition busy_engine :: executor where
  "busy_engine = snd (admit 5 32 5000 0 True (new_executor 4 (\<lambda>i. False)))"

definition busy_server :: "nat server" where
  "busy_server = running_server\<lparr>connections := [7], engine := Some busy_engine\<rparr>"

lemma busy_server_reachable: "server_reachable (16 :: u64) False busy_server"
proof -
  let ?s = "running_server\<lparr>connections := [7]\<rparr>"
  note defs = running_server_def listening_server_def new_server_def
  have "server_reachable (16 :: u64) False (connection_handler 7 (\<lambda>c. False) running_server)"
    by (rule reach_step [OF running_server_reachable]) (rule connection_handler_step, simp add: defs)
  also have "connection_handler 7 (\<lambda>c. False) running_server = ?s"
    by (simp add: connection_handler_def defs)
  finally have "server_reachable (16 :: u64) False (serve_admit 5 True ?s)"
    by (rule reach_step)
      (rule serve_admit_step, simp_all add: defs new_call_def new_executor_def new_invocation_def)
  also have "serve_admit 5 True ?s = busy_server"
    by (simp add: serve_admit_def serving_def defs busy_server_def busy_engine_def default_options_def)
  finally show ?thesis .
qed

text \<open>It is stopped, and the operation outlasts the grace period.\<close>

definition expired_server :: "nat server" where
  "expired_server = busy_server\<lparr>run_state := StateStopping, grace_deadline := 10000, listener_stopped := True,
     clock := 10000, grace_expired := True, cancelled := [7], dog := DogDone\<rparr>"

lemma expired_server_reachable: "server_reachable (16 :: u64) False expired_server"
proof -
  let ?s = "busy_server\<lparr>run_state := StateStopping, grace_deadline := 10000, listener_stopped := True\<rparr>"
  note defs = busy_server_def running_server_def listening_server_def new_server_def
  have "server_reachable (16 :: u64) False (requestStopLocked (\<lambda>c. True) busy_server)"
    by (rule reach_step [OF busy_server_reachable]) (rule request_stop_step)
  also have "requestStopLocked (\<lambda>c. True) busy_server = ?s"
    by (simp add: requestStopLocked_def defs default_options_def)
  finally have "server_reachable (16 :: u64) False (?s\<lparr>dog := DogGrace\<rparr>)"
    by (rule reach_step) (rule watch_step, simp add: watch_step_def defs)
  then have "server_reachable (16 :: u64) False (?s\<lparr>dog := DogGrace, clock := clock ?s + 10000\<rparr>)"
    by (rule reach_step) (use tick_step [of "16 :: u64" False "?s\<lparr>dog := DogGrace\<rparr>" 10000] in simp)
  then show ?thesis
    by (rule reach_step) (rule watch_step, simp add: watch_step_def defs expired_server_def)
qed

section \<open>Properties of the life cycle\<close>

text \<open>
  C5: whatever the order of starts, stops, publications, requests, shutdowns and failures,
  no thread ever uses a missing object model or executor; while the server serves, both
  are there, the executor has the configured number of workers, and the network thread is not gone.
\<close>

theorem serving_is_ready:
  assumes "server_reachable p ssl st"
  shows "\<not> fault st \<and> (serving st \<longrightarrow> object_model st \<noteq> None \<and> \<not> joined (net st)
     \<and> (case engine st of None \<Rightarrow> False | Some e \<Rightarrow> width e = unat (workerThreads (options st))))"
proof -
  have inv: "server_inv st" using reachable_full [OF assms] by auto
  have "net_class (net st) = Live" if "serving st"
    using inv that serving_live by (auto simp: server_inv_def)
  then show ?thesis
    using inv by (auto simp: server_inv_def no_fault_def model_ok_def model_used_def engine_fits_def engine_used_def
        has_engine_def joined_class)
qed

lemma serving_is_ready_witness: "serving busy_server \<and> object_model busy_server \<noteq> None"
proof -
  have "serving busy_server"
    by (simp add: serving_def busy_server_def running_server_def listening_server_def new_server_def)
  with serving_is_ready [OF busy_server_reachable] show ?thesis by simp
qed

text \<open>
  C11: the operations pending in the executor never exceed the maximum of the options in
  force, also after a restart with a smaller maximum; and a start that replaces the executor
  never waits for an operation, because the replaced one has none.
\<close>

theorem pending_within_options:
  assumes "server_reachable p ssl st"
  shows "(case engine st of None \<Rightarrow> True
      | Some e \<Rightarrow> length (pending e) \<le> unat (maxPendingOperations (options st)))
     \<and> (case place st of StartDrain opts e \<Rightarrow> pending e = [] | _ \<Rightarrow> True)"
proof -
  have inv: "server_inv st" using reachable_full [OF assms] by auto
  have "case engine st of None \<Rightarrow> True | Some e \<Rightarrow> length (pending e) \<le> unat (maxPendingOperations (options st))"
    using inv exec_invD(4) by (auto simp: server_inv_def engine_ok_def live_engine_def split: option.splits)
  moreover have "case place st of StartDrain opts e \<Rightarrow> pending e = [] | _ \<Rightarrow> True"
    using inv by (auto simp: server_inv_def replaced_ok_def split: control_place.splits)
  ultimately show ?thesis ..
qed

lemma pending_within_options_witness:
  "pending busy_engine = [5] \<and> length (pending busy_engine) \<le> unat (maxPendingOperations (options busy_server))"
proof -
  have "pending busy_engine = [5]" by code_simp
  moreover have "engine busy_server = Some busy_engine" by (simp add: busy_server_def)
  ultimately show ?thesis using pending_within_options [OF busy_server_reachable] by simp
qed

text \<open>
  C9: a stop takes effect whenever it comes.  A server that is stopping has told its
  listener to stop, whether the stop came before the listener was there or after; and the grace
  period is declared over only in a stop, not before its deadline, and with every connection
  cancelled.
\<close>

theorem stop_takes_effect:
  assumes "server_reachable p ssl st"
  shows "(run_state st = StateStopping \<and> listener st \<longrightarrow> listener_stopped st)
     \<and> (net st = NetListening \<longrightarrow> listener st)
     \<and> (grace_expired st \<longrightarrow> \<not> serving st \<and> grace_deadline st \<le> clock st \<and> set (connections st) \<subseteq> set (cancelled st))"
proof -
  have "listener_ok st" "grace_ok st" using reachable_full [OF assms] by (auto simp: server_inv_def)
  then show ?thesis by (auto simp: listener_ok_def grace_ok_def serving_def)
qed

lemma stop_takes_effect_witness:
  "grace_expired expired_server \<and> listener_stopped expired_server \<and> grace_deadline expired_server \<le> clock expired_server"
proof -
  have "grace_expired expired_server" "listener expired_server" "run_state expired_server = StateStopping"
    by (simp_all add: expired_server_def busy_server_def running_server_def listening_server_def)
  with stop_takes_effect [OF expired_server_reachable] show ?thesis by simp
qed

text \<open>
  The list of connections never outgrows the storage reserved for it, which holds at
  least one connection per worker, the queue and one more; so no connection handler allocates.
\<close>

theorem connections_fit:
  assumes "server_reachable p ssl st"
  shows "length (connections st) \<le> capacity st \<and> (net st = NetListening \<longrightarrow>
     unat (workerThreads (options st)) + unat (maxQueuedConnections (options st)) + 1 \<le> capacity st)"
proof -
  have "connections_ok st" "capacity_ok st" using reachable_full [OF assms] by (auto simp: server_inv_def)
  then show ?thesis by (auto simp: connections_ok_def capacity_ok_def room_def)
qed

lemma connections_fit_witness: "length (connections busy_server) \<le> 69 \<and> 4 + 64 + 1 \<le> capacity busy_server"
  using connections_fit [OF busy_server_reachable]
  by (simp add: busy_server_def running_server_def listening_server_def new_server_def default_options_def)

text \<open>
  C10: once \<open>beginShutdown\<close> was called the server never serves again, whatever is called after it
  or was under way.
\<close>

theorem shutdown_is_final:
  assumes "server_reachable p ssl st" "final_shutdown st" "(server_step p ssl)\<^sup>*\<^sup>* st st'"
  shows "final_shutdown st' \<and> run_state st' \<noteq> StateRunning \<and> \<not> isRunning st'"
proof -
  have "final_shutdown st'" by (rule final_stays [OF assms(3,2)])
  moreover have "final_ok st'"
    using full_steps_keep [OF assms(3) reachable_full [OF assms(1)]] by (auto simp: server_inv_def)
  ultimately show ?thesis by (simp add: final_ok_def isRunning_def)
qed

lemma shutdown_is_final_witness:
  "\<not> isRunning (start_handler (beginShutdown (\<lambda>c. True) listening_server))"
proof -
  let ?s = "beginShutdown (\<lambda>c. True) listening_server"
  have reach: "server_reachable (16 :: u64) False ?s"
    by (rule reach_step [OF listening_server_reachable begin_shutdown_step])
  have "final_shutdown ?s" "net ?s = NetListening"
    by (simp_all add: beginShutdown_def listening_server_def)
  from shutdown_is_final [OF reach this(1) r_into_rtranclp [of "server_step 16 False", OF start_handler_step [OF this(2)]]]
  show ?thesis by simp
qed

text \<open>
  C6: when \<open>finishShutdown\<close> has returned the server is stopped and has released
  everything: the network thread is joined, model and executor are gone, every executor that
  was ever made has been shut down, and every operation ever admitted to one of them is complete.
\<close>

theorem shutdown_releases_all:
  assumes "server_reachable p ssl st" "0 < shutdowns st"
  shows "run_state st = StateStopped \<and> net st = NetAbsent \<and> object_model st = None \<and> engine st = None
     \<and> length (retired st) = executors_made st \<and> list_all all_finished (retired st)"
proof -
  have inv: "full_inv st" by (rule reachable_full [OF assms(1)])
  then have quiet: "net st = NetAbsent" "quiet_call (place st)"
    using assms(2) by (auto simp: full_inv_def server_inv_def closed_ok_def past_stop_def quiet_def)
  moreover have "run_state st = StateStopped"
    using inv quiet by (cases "place st") (auto simp: full_inv_def server_inv_def coherent_def)
  ultimately show ?thesis
    using inv assms(2)
    by (auto simp: full_inv_def server_inv_def released_ok_def made_ok_def count_of_def drain_ok_def)
qed

lemma shutdown_releases_all_witness:
  "\<exists>st :: nat server. server_reachable (16 :: u64) False st \<and> engine st = None \<and> list_all all_finished (retired st)"
proof -
  obtain st where st: "(server_step (16 :: u64) False)\<^sup>*\<^sup>* busy_server st" "0 < shutdowns st"
    using shutdown_possible [OF reachable_full [OF busy_server_reachable]] by blast
  then have "server_reachable (16 :: u64) False st"
    using busy_server_reachable unfolding server_reachable_def by (meson rtranclp_trans)
  with shutdown_releases_all [OF this st(2)] show ?thesis by blast
qed

text \<open>
  C7: the shutdown never gets stuck.  From every reachable state of the server, in the middle
  of a start, a publication, a stop or another shutdown, with operations pending or running,
  \<open>finishShutdown\<close> can be carried to its end.
\<close>

theorem shutdown_can_finish:
  assumes "server_reachable p ssl st"
  shows "\<exists>st'. (server_step p ssl)\<^sup>*\<^sup>* st st' \<and> 0 < shutdowns st'"
  by (rule shutdown_possible [OF reachable_full [OF assms]])

lemma shutdown_can_finish_witness:
  "\<exists>st. (server_step (16 :: u64) False)\<^sup>*\<^sup>* busy_server st \<and> 0 < shutdowns st"
  by (rule shutdown_can_finish [OF busy_server_reachable])

section \<open>Publication through the server\<close>

lemma emplace_keeps: "x \<in> set m \<Longrightarrow> x \<in> set (map_emplace k v m)"
  by (induction k v m rule: map_emplace.induct) auto

lemma commit_keeps_component:
  "contains pubs c \<Longrightarrow> commit name pub pubs = (ok, e, pubs') \<Longrightarrow> contains pubs' c"
  using emplace_keeps
  by (fastforce simp: contains_def commit_def list_ex_iff split: option.splits if_splits)

lemma emplace_has: "map_of m k = None \<Longrightarrow> (k, v) \<in> set (map_emplace k v m)"
  by (induction k v m rule: map_emplace.induct) (auto split: if_splits)

lemma commit_publishes:
  "commit name pub pubs = (True, e, pubs') \<Longrightarrow> contains pubs' (pub_component pub)"
  using emplace_has [of pubs name pub]
  by (auto simp: contains_def commit_def list_ex_iff split: option.splits if_splits dest!: map_of_SomeD)

lemma staged_component: "staged_for component pub m \<Longrightarrow> pub_component pub = component_id component"
  unfolding staged_for_def using stage_component by blast

text \<open>
  What was published stays published until \<open>finishShutdown\<close> releases the model: no stop,
  restart, failed start, other publication or request withdraws it.
\<close>

theorem publications_stay:
  assumes "server_step p ssl st st'" "isPublished st c"
  shows "isPublished st' c \<or> place st = FinishModel"
  using assms
proof cases
  case (publish_commit_step component pub thrown)
  then show ?thesis using assms(2)
    by (auto simp: isPublished_def publish_commit_def give_def split: option.splits prod.splits
        dest: commit_keeps_component)
qed (use assms(2) in \<open>auto simp: isPublished_def sections split: section_splits; fail\<close>)+

text \<open>
  The three places in which a call of \<open>publishComponent\<close> may return: its first check, the staging
  and the commit.  It has returned when the control thread is in no call any more.
\<close>

definition publish_returns :: "component_view \<Rightarrow> 'c server \<Rightarrow> 'c server \<Rightarrow> bool" where
  "publish_returns component st st' \<longleftrightarrow> place st' = NoCall \<and>
     (place st = NoCall \<and> st' = publish_check component st
    \<or> place st = PublishStage component \<and> (\<exists>view thrown. st' = publish_stage view thrown component st)
    \<or> (\<exists>pub thrown. place st = PublishCommit component pub \<and> st' = publish_commit thrown component pub st))"

lemma emplaced_subset: "set (map_emplace k v m) \<subseteq> insert (k, v) (set m)"
  by (induction k v m rule: map_emplace.induct) auto

lemma commit_entries:
  assumes "commit name pub pubs = (ok, e, pubs')" "contains pubs' c"
  shows "contains pubs c \<or> ok \<and> c = pub_component pub"
  using assms emplaced_subset [of name pub pubs]
  by (auto simp: contains_def commit_def list_ex_iff split: option.splits if_splits)

lemma commit_exact:
  assumes "commit name pub pubs = (ok, e, pubs')"
  shows "contains pubs' c \<longleftrightarrow> contains pubs c \<or> ok \<and> c = pub_component pub"
  using commit_entries [OF assms] commit_keeps_component [OF _ assms]
    commit_publishes [of name pub pubs e pubs'] assms by auto

text \<open>How a call may have ended: its answer, and what is published then.\<close>

definition publish_ended :: "component_view \<Rightarrow> 'c server \<Rightarrow> 'c server \<Rightarrow> bool" where
  "publish_ended component st st' \<longleftrightarrow> (\<exists>ok message. answer st' = Some (ok, message)
    \<and> (\<forall>c. isPublished st' c \<longleftrightarrow> isPublished st c \<or> ok \<and> c = component_id component)
    \<and> (if ok then serving st \<and> message = [] \<and> isPublished st' (component_id component)
       else object_model st' = object_model st))"

lemma publish_failed: "publish_ended component st (give False message st)"
  by (auto simp: publish_ended_def give_def isPublished_def)

lemma publish_check_ends:
  assumes "serving st \<longrightarrow> object_model st \<noteq> None" "place (publish_check component st) = NoCall"
  shows "publish_ended component st (publish_check component st)"
proof (cases "serving st")
  case True
  then obtain m where m: "object_model st = Some m" using assms(1) by blast
  with True assms(2) have "contains (om_publications m) (component_id component)"
    by (auto simp: publish_check_def split: if_splits)
  with True m show ?thesis by (auto simp: publish_check_def publish_ended_def give_def isPublished_def)
next
  case False
  then show ?thesis using publish_failed by (simp add: publish_check_def)
qed

lemma publish_stage_ends:
  assumes m: "object_model st = Some m" and "place (publish_stage view thrown component st) = NoCall"
  shows "publish_ended component st (publish_stage view thrown component st)"
proof (cases thrown)
  case None
  then show ?thesis
    using m assms(2) publish_failed
    by (cases "stage view (om_catalog m) (om_diagnostics m) component") (simp_all add: publish_stage_def)
next
  case (Some message)
  then show ?thesis using m publish_failed by (simp add: publish_stage_def)
qed

lemma publish_commit_ends:
  assumes m: "object_model st = Some m" "staged_for component pub m"
  shows "publish_ended component st (publish_commit thrown component pub st)"
proof (cases "serving st \<and> thrown = None")
  case True
  obtain ok e pubs where run: "commit (component_name component) pub (om_publications m) = (ok, e, pubs)"
    by (metis surj_pair)
  have unchanged: "\<not> ok \<Longrightarrow> pubs = om_publications m" "ok \<Longrightarrow> e = []"
    using run by (auto simp: commit_def split: option.splits if_splits)
  have exact: "contains pubs c \<longleftrightarrow> contains (om_publications m) c \<or> ok \<and> c = component_id component" for c
    using commit_exact [OF run] staged_component [OF m(2)] by simp
  show ?thesis using True m(1) run exact unchanged
    by (simp add: publish_commit_def publish_ended_def give_def isPublished_def)
next
  case False
  then show ?thesis using m(1) publish_failed by (auto simp: publish_commit_def split: option.split)
qed

text \<open>
  C12: whichever of its ends a call of \<open>publishComponent\<close> takes, it answers, and the components
  published afterwards are those published before and, when it reports success, its own component.
  It reports success only from a server that serves, with no error text.  After a failure the
  catalog and the publications are those of before.
\<close>

theorem publish_success:
  assumes "server_reachable p ssl st" "publish_returns component st st'"
  shows "\<exists>ok message. answer st' = Some (ok, message)
    \<and> (\<forall>c. isPublished st' c \<longleftrightarrow> isPublished st c \<or> ok \<and> c = component_id component)
    \<and> (if ok then serving st \<and> message = [] \<and> isPublished st' (component_id component)
       else object_model st' = object_model st)"
proof -
  have inv: "full_inv st" by (rule reachable_full [OF assms(1)])
  then have "model_ok st" and live: "serving st \<longrightarrow> net_class (net st) = Live"
    using serving_live by (auto simp: full_inv_def server_inv_def)
  then have model: "serving st \<longrightarrow> object_model st \<noteq> None" "model_used st \<longrightarrow> object_model st \<noteq> None"
    by (auto simp: model_ok_def model_used_def)
  have returned: "place st' = NoCall" using assms(2) by (simp add: publish_returns_def)
  have staged: "\<exists>m. object_model st = Some m \<and> staged_for component pub m" if "place st = PublishCommit component pub" for pub
    using inv that model(2) by (auto simp: full_inv_def model_used_def published_ok_def split: option.splits)
  have "publish_ended component st st'"
    using assms(2) returned publish_check_ends [OF model(1)] publish_stage_ends publish_commit_ends staged model(2)
    unfolding publish_returns_def by (fastforce simp: model_used_def)
  then show ?thesis by (simp only: publish_ended_def)
qed

text \<open>The small component of \<open>Publication_Map\<close>, published through the running server.\<close>

definition staged_publication :: "nat publication" where
  "staged_publication = (case stage sample_view sample_catalog [] sample_owner of Inr pub \<Rightarrow> pub | Inl e \<Rightarrow> undefined)"

lemma staged_publication: "stage sample_view sample_catalog [] sample_owner = Inr staged_publication"
  by (rule sample_staged) (simp add: staged_publication_def)

definition publishing_server :: "nat server" where
  "publishing_server = running_server\<lparr>place := PublishCommit sample_owner staged_publication\<rparr>"

lemma publishing_server_reachable: "server_reachable (16 :: u64) False publishing_server"
proof -
  let ?s = "running_server\<lparr>place := PublishStage sample_owner\<rparr>"
  note defs = running_server_def listening_server_def new_server_def sample_object_model_def
  have "server_reachable (16 :: u64) False (publish_check sample_owner running_server)"
    by (rule reach_step [OF running_server_reachable]) (rule publish_check_step, simp add: running_server_def)
  also have "publish_check sample_owner running_server = ?s"
    by (simp add: publish_check_def serving_def defs contains_def)
  finally have "server_reachable (16 :: u64) False (publish_stage sample_view None sample_owner ?s)"
    by (rule reach_step) (rule publish_stage_step, simp)
  also have "publish_stage sample_view None sample_owner ?s = publishing_server"
    by (simp add: publish_stage_def publishing_server_def defs staged_publication)
  finally show ?thesis .
qed

lemma publishing_commit:
  "publish_commit None sample_owner staged_publication publishing_server = give True [] (publishing_server\<lparr>object_model :=
     Some (sample_object_model\<lparr>om_publications := [(''c'', staged_publication)]\<rparr>)\<rparr>)"
  by (simp add: publish_commit_def serving_def publishing_server_def running_server_def listening_server_def new_server_def
      sample_object_model_def commit_def sample_owner_def)

lemma publish_success_witness:
  "isPublished (publish_commit None sample_owner staged_publication publishing_server) (component_id sample_owner)"
proof -
  let ?s = "publish_commit None sample_owner staged_publication publishing_server"
  have "place publishing_server = PublishCommit sample_owner staged_publication" by (simp add: publishing_server_def)
  moreover have "place ?s = NoCall" by (simp add: publishing_commit give_def)
  ultimately have "publish_returns sample_owner publishing_server ?s" unfolding publish_returns_def by blast
  from publish_success [OF publishing_server_reachable this]
  have "\<exists>ok message. answer ?s = Some (ok, message) \<and> (ok \<longrightarrow> isPublished ?s (component_id sample_owner))"
    by (auto split: if_splits)
  moreover have "answer ?s = Some (True, [])" by (simp add: publishing_commit give_def)
  ultimately show ?thesis by auto
qed

lemma publications_stay_witness:
  "isPublished (requestStopLocked (\<lambda>c. True) (publish_commit None sample_owner staged_publication publishing_server)) 20"
proof -
  let ?s = "publish_commit None sample_owner staged_publication publishing_server"
  have "pub_component staged_publication = 20"
    using stage_component [OF staged_publication] by (simp add: sample_owner_def)
  then have "isPublished ?s 20" "place ?s = NoCall"
    by (simp_all add: publishing_commit give_def isPublished_def contains_def)
  with publications_stay [OF request_stop_step [of "16 :: u64" False ?s]] show ?thesis by fastforce
qed

end
