(* ===== verification/Canonical_Types.thy ===== *)
theory Canonical_Types
  imports Type_Catalog Codec_Object
begin

text \<open>
  The protocols of RTT's own types (\<open>canonical_types.cpp\<close>) and the transport plugin that RTT calls
  for them (\<open>type_transport_plugin.cpp\<close>).

  What the build decides is a record: whether \<open>char\<close> is signed and whether \<open>OS_RT_MALLOC\<close> is
  defined.  RTT's repository of types is a function from names to type objects.
\<close>

section \<open>Descriptors\<close>

record platform =
  char_signed :: bool
  rt_malloc :: bool

abbreviation int_of :: "nat \<Rightarrow> bool \<Rightarrow> int_type" where
  "int_of b s \<equiv> \<lparr>bits = b, signed = s\<rparr>"

definition integerDescriptor :: "int_type \<Rightarrow> json_object" where
  "integerDescriptor t =
     [(''kind'', JString ''integer''), (''bits'', JInt64 (word_of_nat (bits t))), (''signed'', JBool (signed t)),
      (''encoding'', JString (if bits t = 64 then ''decimalString'' else ''number''))]"

definition floatDescriptor :: "nat \<Rightarrow> json_object" where
  "floatDescriptor b =
     [(''kind'', JString ''float''), (''bits'', JInt64 (word_of_nat b)),
      (''nonFinite'', JArray [JString ''NaN'', JString ''Infinity'', JString ''-Infinity''])]"

definition stringDescriptor :: json_object where
  "stringDescriptor = [(''kind'', JString ''string''), (''encoding'', JString ''utf8'')]"

definition arrayDescriptor :: "string \<Rightarrow> json_object" where
  "arrayDescriptor element =
     [(''kind'', JString ''array''), (''elementType'', JString element), (''length'', JNull)]"

definition enumDescriptor :: json_object where
  "enumDescriptor = [(''kind'', JString ''enum''), (''underlyingType'', JString ''Int32'')]"

section \<open>The table of protocols\<close>

type_synonym table_entry = "json_object \<times> string list \<times> codec_object"

definition integer_entry :: "int_type \<Rightarrow> table_entry" where
  "integer_entry t = (integerDescriptor t, [], TypedCodec (IntType t))"

definition array_entry :: "string \<Rightarrow> cpp_type \<Rightarrow> table_entry" where
  "array_entry element t = (arrayDescriptor element, [element], TypedCodec (VectorType t))"

definition enum_entry :: table_entry where
  "enum_entry = (enumDescriptor, [''Int32''], TypedCodec (EnumType (int_of 32 True)))"

definition canonical_entry :: "platform \<Rightarrow> string \<Rightarrow> table_entry option" where
  "canonical_entry pf name =
     (if name = ''Bool'' then Some ([(''kind'', JString ''boolean'')], [], TypedCodec BoolType)
      else if name = ''Int8'' then Some (integer_entry (int_of 8 True))
      else if name = ''UInt8'' then Some (integer_entry (int_of 8 False))
      else if name = ''Int16'' then Some (integer_entry (int_of 16 True))
      else if name = ''UInt16'' then Some (integer_entry (int_of 16 False))
      else if name = ''Int32'' then Some (integer_entry (int_of 32 True))
      else if name = ''UInt32'' then Some (integer_entry (int_of 32 False))
      else if name = ''Int64'' then Some (integer_entry (int_of 64 True))
      else if name = ''UInt64'' then Some (integer_entry (int_of 64 False))
      else if name = ''Char'' then Some (integer_entry (int_of 8 (char_signed pf)))
      else if name = ''Float32'' then Some (floatDescriptor 32, [], TypedCodec (FloatType binary32))
      else if name = ''Float64'' then Some (floatDescriptor 64, [], TypedCodec (FloatType binary64))
      else if name = ''String'' then Some (stringDescriptor, [], TypedCodec StringType)
      else if rt_malloc pf \<and> name = ''RtString'' then Some (stringDescriptor, [], TypedCodec StringType)
      else if name = ''Float64Array'' then Some (array_entry ''Float64'' (FloatType binary64))
      else if name = ''Int32Array'' then Some (array_entry ''Int32'' (IntType (int_of 32 True)))
      else if name = ''StringArray'' then Some (array_entry ''String'' StringType)
      else if name = ''FlowStatus'' then Some enum_entry
      else if name = ''WriteStatus'' then Some enum_entry
      else if name = ''TaskState'' then Some enum_entry
      else if name = ''Void'' then Some ([(''kind'', JString ''void'')], [], VoidCodec)
      else None)"

definition canonical_registration :: "string \<Rightarrow> json_object \<Rightarrow> string list \<Rightarrow> type_registration" where
  "canonical_registration name d ds =
     \<lparr>providerId = ''orocos.rtt.http'', providerVersion = ''1'', codecId = name, codecVersion = ''1'',
      rttType = name, descriptor = d, dependencies = ds\<rparr>"

text \<open>
  \<open>canonicalProtocol\<close>: no entry, or the constructor of \<open>TypeProtocol\<close>, which may throw.  The new
  object lives at \<open>addr\<close>.
\<close>

definition canonicalProtocol ::
  "platform \<Rightarrow> json_lib \<Rightarrow> nat \<Rightarrow> nat \<Rightarrow> string \<Rightarrow> codec_object type_protocol option option" where
  "canonicalProtocol pf lib store addr name =
     map_option (\<lambda>(d, ds, cd). make_protocol lib store addr (canonical_registration name d ds) (Some cd))
       (canonical_entry pf name)"

section \<open>Registration\<close>

definition registerCanonicalTypeProtocol ::
  "('w, codec_object) type_slots \<Rightarrow> platform \<Rightarrow> json_lib \<Rightarrow> nat \<Rightarrow> nat \<Rightarrow> string \<Rightarrow> nat option \<Rightarrow>
     'w \<Rightarrow> codec_object registry \<Rightarrow> outcome \<times> 'w \<times> codec_object registry" where
  "registerCanonicalTypeProtocol api pf lib store addr name ty w st =
     (case canonicalProtocol pf lib store addr name of
        None \<Rightarrow> (Refused (''no canonical HTTP protocol for RTT type: '' @ name), w, st)
      | Some None \<Rightarrow> (Raised, w, st)
      | Some (Some p) \<Rightarrow> registerTypeProtocol api ty (Some p) w st)"

definition canonical_names :: "platform \<Rightarrow> string list" where
  "canonical_names pf =
     [''Bool'', ''Int8'', ''UInt8'', ''Int16'', ''UInt16'', ''Int32'', ''UInt32'', ''Int64'', ''UInt64'', ''Char'',
      ''Float32'', ''Float64'', ''String'', ''Float64Array'', ''Int32Array'', ''StringArray'', ''FlowStatus'',
      ''WriteStatus'', ''TaskState'', ''Void''] @ (if rt_malloc pf then [''RtString''] else [])"

text \<open>The loop over the names; the protocol made for a name is at the next free address.\<close>

fun register_names ::
  "('w, codec_object) type_slots \<Rightarrow> platform \<Rightarrow> json_lib \<Rightarrow> (string \<Rightarrow> nat option) \<Rightarrow> nat \<Rightarrow> nat \<Rightarrow> string list \<Rightarrow>
     'w \<Rightarrow> codec_object registry \<Rightarrow> outcome \<times> 'w \<times> codec_object registry" where
  "register_names api pf lib types store addr [] w st = (Accepted, w, st)"
| "register_names api pf lib types store addr (name # names) w st =
     (case registerCanonicalTypeProtocol api pf lib store addr name (types name) w st of
        (Accepted, w', st') \<Rightarrow> register_names api pf lib types store (Suc addr) names w' st'
      | r \<Rightarrow> r)"

definition registerCanonicalTypeProtocols ::
  "('w, codec_object) type_slots \<Rightarrow> platform \<Rightarrow> json_lib \<Rightarrow> (string \<Rightarrow> nat option) \<Rightarrow> nat \<Rightarrow> nat \<Rightarrow>
     'w \<Rightarrow> codec_object registry \<Rightarrow> outcome \<times> 'w \<times> codec_object registry" where
  "registerCanonicalTypeProtocols api pf lib types store addr w st =
     register_names api pf lib types store addr (canonical_names pf) w st"

text \<open>\<open>HttpTransportPlugin::registerTransport\<close>.\<close>

definition registerTransport ::
  "('w, codec_object) type_slots \<Rightarrow> platform \<Rightarrow> json_lib \<Rightarrow> nat \<Rightarrow> nat \<Rightarrow> string \<Rightarrow> nat option \<Rightarrow>
     'w \<Rightarrow> codec_object registry \<Rightarrow> outcome \<times> 'w \<times> codec_object registry" where
  "registerTransport api pf lib store addr name ty w st =
     registerCanonicalTypeProtocol api pf lib store addr name ty w st"

section \<open>Properties of the table\<close>

lemma describes_integer: "cpp_int_type t \<Longrightarrow> describes (integerDescriptor t) {}"
  by (auto simp: describes_iff integerDescriptor_def cpp_int_type_def)

lemma describes_float: "b = 32 \<or> b = 64 \<Longrightarrow> describes (floatDescriptor b) {}"
  by (auto simp: describes_iff floatDescriptor_def)

lemma describes_string: "describes stringDescriptor {}"
  by (simp add: describes_iff stringDescriptor_def)

lemma describes_array: "identity_name element \<Longrightarrow> describes (arrayDescriptor element) {element}"
  by (simp add: describes_iff arrayDescriptor_def)

lemma describes_enum: "identity_name ''Int32'' \<Longrightarrow> describes enumDescriptor {''Int32''}"
  by (simp add: describes_iff enumDescriptor_def)

lemma describes_plain: "describes [(''kind'', JString ''boolean'')] {}" "describes [(''kind'', JString ''void'')] {}"
  by (simp_all add: describes_iff)

lemma canonical_identities:
  "list_all identity_name (''orocos.rtt.http'' # ''1'' # canonical_names \<lparr>char_signed = s, rt_malloc = True\<rparr>)"
  by (simp only: canonical_names_def platform.simps) code_simp

lemma canonical_name: "name \<in> set (canonical_names pf) \<Longrightarrow> identity_name name"
  using canonical_identities [of True] by (cases "rt_malloc pf") (auto simp: canonical_names_def)

lemma canonical_entry_names: "canonical_entry pf name = None \<longleftrightarrow> name \<notin> set (canonical_names pf)"
  by (auto simp: canonical_entry_def canonical_names_def)

lemma canonical_described:
  assumes "canonical_entry pf name = Some (d, ds, cd)"
  shows "describes d (set ds) \<and> set ds \<subseteq> {''Float64'', ''Int32'', ''String''}"
  using assms canonical_name [of "''Float64''" pf] canonical_name [of "''Int32''" pf] canonical_name [of "''String''" pf]
  by (auto simp: canonical_entry_def integer_entry_def array_entry_def enum_entry_def canonical_names_def
      intro!: describes_integer describes_float describes_string describes_array describes_enum describes_plain
      simp: cpp_int_type_def split: if_split_asm)

text \<open>
  On every platform, each name that \<open>registerCanonicalTypeProtocols\<close> registers has a protocol
  whose definition validation accepts, and whose dependencies are names of the same table.
\<close>

theorem canonical_table_valid:
  "list_all (\<lambda>name. case canonical_entry pf name of
       None \<Rightarrow> False
     | Some (d, ds, cd) \<Rightarrow>
         validateRegistration (normalized (canonical_registration name d ds)) = Inr ()
         \<and> set ds \<subseteq> set (canonical_names pf))
     (canonical_names pf)"
proof -
  have ids: "identity_name ''orocos.rtt.http''" "identity_name ''1''"
    using canonical_identities [of True] by simp_all
  have "validateRegistration (normalized (canonical_registration name d ds)) = Inr () \<and> set ds \<subseteq> set (canonical_names pf)"
    if "name \<in> set (canonical_names pf)" "canonical_entry pf name = Some (d, ds, cd)" for name d ds cd
  proof -
    have "{''Float64'', ''Int32'', ''String''} \<subseteq> set (canonical_names pf)" by (simp add: canonical_names_def)
    with canonical_described [OF that(2)] canonical_name [OF that(1)] ids show ?thesis
      by (simp only: validate_normalized canonical_registration_def type_registration.simps list.pred_inject) blast
  qed
  then show ?thesis
    by (auto simp: list_all_iff canonical_entry_names split: option.split)
qed

end
