(* ===== verification/Reflection.thy ===== *)
theory Reflection
  imports Canonical_Types
begin

text \<open>
  Reflection of RTT types into protocols (\<open>makeReflectedTypeProtocol\<close> and
  \<open>registerReflectedTypeProtocols\<close> in \<open>reflected_codec.cpp\<close>).

  The factory looks only at a fresh value of the type, which it drops again; \<open>rtt_reflection\<close> is
  what RTT shows of such a value.  A call that may throw returns \<open>Inl\<close> with the text of the
  \<open>std::exception\<close>.  The result of the factory is the message written, or the protocol.
\<close>

section \<open>What RTT shows of a type\<close>

record part_view =
  part_type :: "nat option"
  part_assignable :: bool
  part_int :: "int option"

record rtt_reflection =
  has_members :: "nat \<Rightarrow> bool"
  prototype :: "nat \<Rightarrow> string + bool option"
  first_element :: "nat \<Rightarrow> string + part_view option"
  named_part :: "nat \<Rightarrow> string \<Rightarrow> string + part_view option"
  can_resize :: "nat \<Rightarrow> string + bool"
  member_names :: "nat \<Rightarrow> string + string list"

record type_repository =
  named_type :: "string \<Rightarrow> nat option"
  type_names :: "string list"

section \<open>The factory\<close>

definition probing :: "string + 'a \<Rightarrow> ('a \<Rightarrow> string + 'b) \<Rightarrow> string + 'b" where
  "probing m f = (case m of Inl what \<Rightarrow> Inl (''RTT reflection failed: '' @ what) | Inr x \<Rightarrow> f x)"

definition addMember ::
  "('w, codec_object) type_slots \<Rightarrow> 'w \<Rightarrow> codec_object registry \<Rightarrow> part_view option \<Rightarrow> (nat \<times> codec_object) option" where
  "addMember api w st value =
     (case value of
        None \<Rightarrow> None
      | Some v \<Rightarrow>
          (case (part_type v, registeredTypeCodec api w st (part_type v)) of
             (Some mty, Some cd) \<Rightarrow>
               if \<not> part_assignable v \<or> getTypeName api mty = ''Void'' then None else Some (mty, cd)
           | _ \<Rightarrow> None))"

fun reflect_members ::
  "('w, codec_object) type_slots \<Rightarrow> rtt_reflection \<Rightarrow> 'w \<Rightarrow> codec_object registry \<Rightarrow> nat \<Rightarrow> string set \<Rightarrow> string list \<Rightarrow>
     string + (string \<times> nat \<times> codec_object) list" where
  "reflect_members api rx w st ty seen [] = Inr []"
| "reflect_members api rx w st ty seen (name # names) =
     (if name = [] \<or> \<not> validUtf8 name \<or> name \<in> seen then
        Inl ''RTT structure has invalid or duplicate field metadata''
      else probing (named_part rx ty name) (\<lambda>value.
        case addMember api w st value of
          None \<Rightarrow> Inl (''missing HTTP field codec or assignable metadata: '' @ name)
        | Some (mty, cd) \<Rightarrow>
            (case reflect_members api rx w st ty (insert name seen) names of
               Inl e \<Rightarrow> Inl e
             | Inr ms \<Rightarrow> Inr ((name, mty, cd) # ms))))"

definition sequence_length :: "rtt_reflection \<Rightarrow> nat \<Rightarrow> string + nat option" where
  "sequence_length rx ty =
     probing (named_part rx ty ''size'') (\<lambda>size_source.
     case Option.bind size_source part_int of
       None \<Rightarrow> Inl ''RTT sequence has no valid size metadata''
     | Some count \<Rightarrow>
         if count < 0 then Inl ''RTT sequence has no valid size metadata''
         else probing (can_resize rx ty) (\<lambda>ok. Inr (if ok then None else Some (nat count))))"

definition sequence_descriptor :: "string \<Rightarrow> nat option \<Rightarrow> json_object" where
  "sequence_descriptor element len =
     [(''kind'', JString ''array''), (''elementType'', JString element),
      (''length'', case len of None \<Rightarrow> JNull | Some n \<Rightarrow> JInt64 (word_of_nat n))]"

definition structure_descriptor :: "(string \<times> string) list \<Rightarrow> json_object" where
  "structure_descriptor fs =
     [(''kind'', JString ''object''),
      (''fields'', JArray (map (\<lambda>(name, t). JObject [(''name'', JString name), (''rttType'', JString t)]) fs))]"

text \<open>The descriptor, the dependencies and the codec of a type.\<close>

type_synonym reflected = "json_object \<times> string list \<times> codec_object"

definition reflect_sequence ::
  "('w, codec_object) type_slots \<Rightarrow> rtt_reflection \<Rightarrow> 'w \<Rightarrow> codec_object registry \<Rightarrow> nat \<Rightarrow> part_view option \<Rightarrow>
     nat option \<Rightarrow> string + reflected" where
  "reflect_sequence api rx w st ty element rd =
     (case addMember api w st element of
        None \<Rightarrow> Inl ''missing HTTP sequence element codec or assignable element metadata''
      | Some (ety, cd) \<Rightarrow>
          (case sequence_length rx ty of
             Inl e \<Rightarrow> Inl e
           | Inr len \<Rightarrow>
               Inr (sequence_descriptor (getTypeName api ety) len, [getTypeName api ety],
                    SequenceCodec ty len ety cd rd)))"

definition reflect_structure ::
  "('w, codec_object) type_slots \<Rightarrow> rtt_reflection \<Rightarrow> 'w \<Rightarrow> codec_object registry \<Rightarrow> nat \<Rightarrow> nat option \<Rightarrow>
     string + reflected" where
  "reflect_structure api rx w st ty rd =
     probing (member_names rx ty) (\<lambda>names.
       if names = [] then Inl ''RTT type has no complete structure or sequence metadata''
       else case reflect_members api rx w st ty {} names of
           Inl e \<Rightarrow> Inl e
         | Inr ms \<Rightarrow>
             Inr (structure_descriptor (map (\<lambda>(name, mty, cd). (name, getTypeName api mty)) ms),
                  remdups_adj (sort (map (\<lambda>(name, mty, cd). getTypeName api mty) ms)), StructureCodec ty ms rd))"

definition reflect_type ::
  "('w, codec_object) type_slots \<Rightarrow> rtt_reflection \<Rightarrow> 'w \<Rightarrow> codec_object registry \<Rightarrow> nat \<Rightarrow> nat option \<Rightarrow>
     string + reflected" where
  "reflect_type api rx w st ty rd =
     (if \<not> has_members rx ty then Inl ''RTT type has no structural member metadata''
      else probing (prototype rx ty) (\<lambda>sample.
        if sample \<noteq> Some True then Inl ''RTT type cannot construct owned assignable storage''
        else probing (first_element rx ty) (\<lambda>element.
          if element \<noteq> None then reflect_sequence api rx w st ty element rd
          else reflect_structure api rx w st ty rd)))"

text \<open>The exception that the constructor of \<open>TypeProtocol\<close> throws for an oversized definition.\<close>

definition constructor_error :: "json_lib \<Rightarrow> nat \<Rightarrow> type_registration \<Rightarrow> string" where
  "constructor_error lib store r =
     (case make_context store fingerprint_limits of
        None \<Rightarrow> ''JSON limits must be positive''
      | Some c \<Rightarrow>
          (case serializeJson lib (JObject (descriptor (normalized r))) c (Some []) of
             (Fail e, _) \<Rightarrow> ''invalid HTTP codec descriptor''
           | (Ok _, text1) \<Rightarrow> ''invalid HTTP codec registration''))"

definition makeReflectedTypeProtocol ::
  "('w, codec_object) type_slots \<Rightarrow> rtt_reflection \<Rightarrow> json_lib \<Rightarrow> nat \<Rightarrow> nat \<Rightarrow> nat option \<Rightarrow> type_registration \<Rightarrow>
     nat option \<Rightarrow> 'w \<Rightarrow> codec_object registry \<Rightarrow> string + codec_object type_protocol" where
  "makeReflectedTypeProtocol api rx lib store addr ty identity rd w st =
     (case ty of
        None \<Rightarrow> Inl ''RTT type has no structural member metadata''
      | Some t \<Rightarrow>
          (case reflect_type api rx w st t rd of
             Inl e \<Rightarrow> Inl e
           | Inr (d, ds, cd) \<Rightarrow>
               (let r = identity\<lparr>rttType := getTypeName api t, descriptor := d, dependencies := ds\<rparr> in
                case make_protocol lib store addr r (Some cd) of
                  None \<Rightarrow> Inl (''RTT reflection failed: '' @ constructor_error lib store r)
                | Some p \<Rightarrow> Inr p)))"

text \<open>The typed overload: \<open>typed t\<close> tells whether a fresh value of \<open>t\<close> is a \<open>DataSource<T>\<close>.\<close>

definition makeTypedReflectedProtocol ::
  "('w, codec_object) type_slots \<Rightarrow> rtt_reflection \<Rightarrow> json_lib \<Rightarrow> nat \<Rightarrow> nat \<Rightarrow> (nat \<Rightarrow> bool) \<Rightarrow> nat option \<Rightarrow>
     type_registration \<Rightarrow> nat \<Rightarrow> 'w \<Rightarrow> codec_object registry \<Rightarrow> string + codec_object type_protocol" where
  "makeTypedReflectedProtocol api rx lib store addr typed ty identity reader w st =
     (if ty = None \<or> \<not> typed (the ty) then Inl ''reflected HTTP codec C++ type does not match RTT metadata''
      else makeReflectedTypeProtocol api rx lib store addr ty identity (Some reader) w st)"

section \<open>Registration of all reflectable types\<close>

definition reflected_identity :: "string \<Rightarrow> type_registration" where
  "reflected_identity name =
     \<lparr>providerId = ''orocos.rtt.http.reflection'', providerVersion = ''1'', codecId = name, codecVersion = ''1'',
      rttType = [], descriptor = [], dependencies = []\<rparr>"

text \<open>One attempt; the new protocol lives at \<open>addr\<close>.\<close>

definition attempt_type ::
  "('w, codec_object) type_slots \<Rightarrow> rtt_reflection \<Rightarrow> json_lib \<Rightarrow> nat \<Rightarrow> nat \<Rightarrow> nat \<Rightarrow> 'w \<Rightarrow> codec_object registry \<Rightarrow>
     outcome \<times> 'w \<times> codec_object registry" where
  "attempt_type api rx lib store addr t w st =
     (case makeReflectedTypeProtocol api rx lib store addr (Some t) (reflected_identity (getTypeName api t)) None w st of
        Inl e \<Rightarrow> (Refused e, w, st)
      | Inr p \<Rightarrow> registerTypeProtocol api (Some t) (Some p) w st)"

definition pending_types ::
  "('w, codec_object) type_slots \<Rightarrow> type_repository \<Rightarrow> 'w \<Rightarrow> codec_object registry \<Rightarrow> nat list" where
  "pending_types api repo w st =
     sort (remdups (filter (\<lambda>t. registeredTypeCodec api w st (Some t) = None \<and> getTypeName api t \<noteq> ''unknown_t'')
       (List.map_filter (named_type repo) (type_names repo))))"

text \<open>
  A pass over the pending types, in the order of their addresses: the types that stay pending,
  the diagnostics, whether there was progress, the next address and the states.  \<open>None\<close> is an
  exception that escapes.
\<close>

type_synonym ('w) pass = "nat list \<times> (string \<times> string) list \<times> bool \<times> nat \<times> 'w \<times> codec_object registry"

fun reflect_pass ::
  "('w, codec_object) type_slots \<Rightarrow> rtt_reflection \<Rightarrow> json_lib \<Rightarrow> nat \<Rightarrow> nat list \<Rightarrow>
     (string \<times> string) list \<Rightarrow> bool \<Rightarrow> nat \<Rightarrow> 'w \<Rightarrow> codec_object registry \<Rightarrow> 'w pass option" where
  "reflect_pass api rx lib store [] unresolved progress addr w st = Some ([], unresolved, progress, addr, w, st)"
| "reflect_pass api rx lib store (t # ts) unresolved progress addr w st =
     (case attempt_type api rx lib store addr t w st of
        (Raised, w', st') \<Rightarrow> None
      | (Accepted, w', st') \<Rightarrow>
          reflect_pass api rx lib store ts (map_erase (getTypeName api t) unresolved) True (Suc addr) w' st'
      | (Refused e, w', st') \<Rightarrow>
          map_option (\<lambda>(left, rest). (t # left, rest))
            (reflect_pass api rx lib store ts
              (map_emplace (getTypeName api t) e (map_erase (getTypeName api t) unresolved)) progress (Suc addr) w' st'))"

lemma pass_shrinks:
  "reflect_pass api rx lib store ts unresolved progress addr w st = Some (left, un', progress', rest) \<Longrightarrow>
     length left \<le> length ts \<and> (progress' \<longrightarrow> progress \<or> length left < length ts)"
proof (induction ts arbitrary: unresolved progress addr w st left un' progress' rest)
  case (Cons t ts)
  obtain r w1 st1 where attempt: "attempt_type api rx lib store addr t w st = (r, w1, st1)" by (metis prod_cases3)
  show ?case
  proof (cases r)
    case Accepted
    with attempt Cons.prems Cons.IH show ?thesis by fastforce
  next
    case (Refused e)
    with attempt Cons.prems Cons.IH show ?thesis by fastforce
  next
    case Raised
    with attempt Cons.prems show ?thesis by simp
  qed
qed auto

function reflect_loop ::
  "('w, codec_object) type_slots \<Rightarrow> rtt_reflection \<Rightarrow> json_lib \<Rightarrow> nat \<Rightarrow> nat list \<Rightarrow>
     (string \<times> string) list \<Rightarrow> nat \<Rightarrow> 'w \<Rightarrow> codec_object registry \<Rightarrow>
     ((string \<times> string) list \<times> nat list \<times> 'w \<times> codec_object registry) option" where
  "reflect_loop api rx lib store ts unresolved addr w st =
     (case reflect_pass api rx lib store ts unresolved False addr w st of
        None \<Rightarrow> None
      | Some (left, unresolved', progress, addr', w', st') \<Rightarrow>
          if progress then reflect_loop api rx lib store left unresolved' addr' w' st'
          else Some (unresolved', left, w', st'))"
  by pat_completeness auto
termination
  by (relation "measure (\<lambda>(api, rx, lib, store, ts, rest). length ts)") (auto dest: pass_shrinks)

declare reflect_loop.simps [simp del]

definition registerReflectedTypeProtocols ::
  "('w, codec_object) type_slots \<Rightarrow> rtt_reflection \<Rightarrow> type_repository \<Rightarrow> json_lib \<Rightarrow> nat \<Rightarrow> nat \<Rightarrow> 'w \<Rightarrow>
     codec_object registry \<Rightarrow> ((string \<times> string) list \<times> nat list \<times> 'w \<times> codec_object registry) option" where
  "registerReflectedTypeProtocols api rx repo lib store addr w st =
     reflect_loop api rx lib store (pending_types api repo w st) [] addr w st"

end
