(* ===== verification/Type_Conformance.thy ===== *)
theory Type_Conformance
  imports Codec_Object Ordered_Map
begin

text \<open>
  What a published type definition promises about the JSON values of the type, and the proof that
  the codecs keep the promise.  \<open>types\<close> maps the name of a type to its definition, as the types
  document of the server shows it; \<open>conforms\<close> reads a value against the definitions alone.
\<close>

section \<open>Values that conform to a definition\<close>

abbreviation kind_is :: "(string \<times> json) list \<Rightarrow> string \<Rightarrow> bool" where
  "kind_is d k \<equiv> member d ''kind'' = Some (JString k)"

definition field_of :: "string \<Rightarrow> string \<Rightarrow> json" where
  "field_of name t = JObject [(''name'', JString name), (''rttType'', JString t)]"

definition json_number :: "json \<Rightarrow> int \<Rightarrow> bool" where
  "json_number j i = (case j of JInt64 x \<Rightarrow> sint x = i | JUint64 x \<Rightarrow> uint x = i | _ \<Rightarrow> False)"

inductive conforms :: "(string \<Rightarrow> (string \<times> json) list option) \<Rightarrow> string \<Rightarrow> json \<Rightarrow> bool" for types where
  conforms_boolean: "types n = Some d \<Longrightarrow> kind_is d ''boolean'' \<Longrightarrow> conforms types n (JBool b)"
| conforms_void: "types n = Some d \<Longrightarrow> kind_is d ''void'' \<Longrightarrow> conforms types n JNull"
| conforms_number: "types n = Some d \<Longrightarrow> kind_is d ''integer'' \<Longrightarrow> member d ''bits'' = Some (JInt64 b) \<Longrightarrow>
    member d ''signed'' = Some (JBool s) \<Longrightarrow> member d ''encoding'' = Some (JString ''number'') \<Longrightarrow>
    in_range \<lparr>bits = unat b, signed = s\<rparr> i \<Longrightarrow> json_number j i \<Longrightarrow> conforms types n j"
| conforms_decimal: "types n = Some d \<Longrightarrow> kind_is d ''integer'' \<Longrightarrow> member d ''bits'' = Some (JInt64 b) \<Longrightarrow>
    member d ''signed'' = Some (JBool s) \<Longrightarrow> member d ''encoding'' = Some (JString ''decimalString'') \<Longrightarrow>
    in_range \<lparr>bits = unat b, signed = s\<rparr> i \<Longrightarrow> conforms types n (JString (to_chars i))"
| conforms_float: "types n = Some d \<Longrightarrow> kind_is d ''float'' \<Longrightarrow> member d ''bits'' = Some (JInt64 b) \<Longrightarrow>
    isfinite x \<Longrightarrow> fp_in (if b = 32 then binary32 else binary64) x \<Longrightarrow> conforms types n (JDouble x)"
| conforms_nonfinite: "types n = Some d \<Longrightarrow> kind_is d ''float'' \<Longrightarrow> member d ''nonFinite'' = Some (JArray vs) \<Longrightarrow>
    v \<in> set vs \<Longrightarrow> conforms types n v"
| conforms_string: "types n = Some d \<Longrightarrow> kind_is d ''string'' \<Longrightarrow> validUtf8 s \<Longrightarrow> conforms types n (JString s)"
| conforms_enum: "types n = Some d \<Longrightarrow> kind_is d ''enum'' \<Longrightarrow> member d ''underlyingType'' = Some (JString u) \<Longrightarrow>
    conforms types u j \<Longrightarrow> conforms types n j"
| conforms_array: "types n = Some d \<Longrightarrow> kind_is d ''array'' \<Longrightarrow> member d ''elementType'' = Some (JString e) \<Longrightarrow>
    member d ''length'' \<in> {Some JNull, Some (JInt64 (word_of_nat (length js)))} \<Longrightarrow>
    (\<forall>j \<in> set js. conforms types e j) \<Longrightarrow> conforms types n (JArray js)"
| conforms_object: "types n = Some d \<Longrightarrow> kind_is d ''object'' \<Longrightarrow>
    member d ''fields'' = Some (JArray (map (\<lambda>(name, t). field_of name t) fs)) \<Longrightarrow>
    map fst obj = map fst fs \<Longrightarrow> list_all2 (conforms types) (map snd fs) (map snd obj) \<Longrightarrow>
    conforms types n (JObject obj)"

section \<open>Definitions that fit a codec\<close>

definition integer_shape :: "(string \<times> json) list \<Rightarrow> int_type \<Rightarrow> bool" where
  "integer_shape d t \<longleftrightarrow> cpp_int_type t \<and> kind_is d ''integer'' \<and> member d ''bits'' = Some (JInt64 (word_of_nat (bits t)))
     \<and> member d ''signed'' = Some (JBool (signed t))
     \<and> member d ''encoding'' = Some (JString (if bits t = 64 then ''decimalString'' else ''number''))"

fun typed_shape :: "(string \<Rightarrow> (string \<times> json) list option) \<Rightarrow> (string \<times> json) list \<Rightarrow> cpp_type \<Rightarrow> bool" where
  "typed_shape types d BoolType \<longleftrightarrow> kind_is d ''boolean''"
| "typed_shape types d (IntType t) \<longleftrightarrow> integer_shape d t"
| "typed_shape types d (EnumType t) \<longleftrightarrow> kind_is d ''enum''
     \<and> (\<exists>u du. member d ''underlyingType'' = Some (JString u) \<and> types u = Some du \<and> integer_shape du t)"
| "typed_shape types d (FloatType f) \<longleftrightarrow> kind_is d ''float''
     \<and> member d ''nonFinite'' = Some (JArray [JString ''NaN'', JString ''Infinity'', JString ''-Infinity''])
     \<and> (f = binary32 \<and> member d ''bits'' = Some (JInt64 32) \<or> f = binary64 \<and> member d ''bits'' = Some (JInt64 64))"
| "typed_shape types d StringType \<longleftrightarrow> kind_is d ''string''"
| "typed_shape types d (VectorType t) \<longleftrightarrow> kind_is d ''array'' \<and> member d ''length'' = Some JNull
     \<and> (\<exists>e de. member d ''elementType'' = Some (JString e) \<and> types e = Some de \<and> typed_shape types de t)"
| "typed_shape types d (ArrayType n t) \<longleftrightarrow> False"

definition length_of :: "nat option \<Rightarrow> json" where
  "length_of len = (case len of None \<Rightarrow> JNull | Some n \<Rightarrow> JInt64 (word_of_nat n))"

inductive shows_codec ::
  "(string \<Rightarrow> (string \<times> json) list option) \<Rightarrow> (nat \<Rightarrow> string) \<Rightarrow> string \<Rightarrow> codec_object \<Rightarrow> bool" for types name_of where
  shows_typed: "types n = Some d \<Longrightarrow> typed_shape types d t \<Longrightarrow> shows_codec types name_of n (TypedCodec t)"
| shows_void: "types n = Some d \<Longrightarrow> kind_is d ''void'' \<Longrightarrow> shows_codec types name_of n VoidCodec"
| shows_sequence: "types n = Some d \<Longrightarrow> kind_is d ''array'' \<Longrightarrow>
    member d ''elementType'' = Some (JString (name_of ety)) \<Longrightarrow> member d ''length'' = Some (length_of len) \<Longrightarrow>
    shows_codec types name_of (name_of ety) cd \<Longrightarrow> shows_codec types name_of n (SequenceCodec ty len ety cd rd)"
| shows_structure: "types n = Some d \<Longrightarrow> kind_is d ''object'' \<Longrightarrow>
    member d ''fields'' = Some (JArray (map (\<lambda>(name, mty, cd). field_of name (name_of mty)) ms)) \<Longrightarrow>
    distinct (map fst ms) \<Longrightarrow> (\<forall>x \<in> set ms. shows_codec types name_of (name_of (fst (snd x))) (snd (snd x))) \<Longrightarrow>
    shows_codec types name_of n (StructureCodec ty ms rd)"

section \<open>Typed conversions conform\<close>

text \<open>The values of a C++ type; a \<open>std::string\<close> holds any bytes.\<close>

fun holds_type :: "cpp_type \<Rightarrow> cpp_value \<Rightarrow> bool" where
  "holds_type (IntType t) (VInt i) = in_range t i"
| "holds_type (FloatType f) (VFloat x) = fp_in f x"
| "holds_type (VectorType t) (VSeq vs) = list_all (holds_type t) vs"
| "holds_type (ArrayType n t) (VSeq vs) = (length vs = n \<and> list_all (holds_type t) vs)"
| "holds_type t v = True"

definition typed_views :: "('w, 's) rtt_sources \<Rightarrow> bool" where
  "typed_views rtt \<longleftrightarrow> (\<forall>t w s v. content (source_view rtt t w s) = Some v \<longrightarrow> holds_type t v)"

lemma cast_int_range: "cpp_int_type t \<Longrightarrow> in_range t (cast_int t i)"
  by (auto simp: in_range_def imin_def imax_def cast_int_def cpp_int_type_def)

lemma word_number:
  assumes "in_range t i" "cpp_int_type t" "bits t \<noteq> 64"
  shows "json_number (if signed t then JInt64 (word_of_int i) else JUint64 (word_of_int i)) i"
  using assms
  by (auto simp: json_number_def cpp_int_type_def in_range_def imin_def imax_def unsigned_of_int take_bit_int_eq_self
      signed_of_int signed_take_bit_int_eq_self split: if_splits)

lemma integer_conforms:
  assumes "types n = Some d" "integer_shape d t" "in_range t i" "int_encode t i c = (Ok j, c')"
  shows "conforms types n j"
proof (cases "bits t = 64")
  case True
  with assms(4) have "j = JString (to_chars i)" by (auto simp: int_encode_def codec_simps)
  with True assms show ?thesis
    by (cases t) (auto simp: integer_shape_def intro!: conforms_decimal [of types n d])
next
  case False
  with assms have "json_number j i"
    using word_number [of t i] by (auto simp: int_encode_def codec_simps integer_shape_def)
  moreover have "unat (word_of_nat (bits t) :: u64) = bits t"
    using assms(2) by (auto simp: integer_shape_def cpp_int_type_def)
  ultimately show ?thesis
    using False assms by (cases t) (auto simp: integer_shape_def intro!: conforms_number [of types n d])
qed

lemma map_codec_all:
  assumes "map_codec f xs c = (Ok ys, c')" and "\<And>x y c c'. x \<in> set xs \<Longrightarrow> f x c = (Ok y, c') \<Longrightarrow> P y"
  shows "list_all P ys \<and> length ys = length xs"
  using assms
proof (induction xs arbitrary: c ys)
  case (Cons x xs)
  then show ?case by (fastforce simp: codec_simps)
qed (simp add: codec_simps)

lemma typed_conforms:
  "types n = Some d \<Longrightarrow> typed_shape types d t \<Longrightarrow> holds_type t v \<Longrightarrow> encode_value t v c = (Ok j, c') \<Longrightarrow>
     conforms types n j"
proof (induction t arbitrary: n d v c j c')
  case BoolType
  then show ?case
    by (cases v) (auto simp: bool_encode_def ill_typed_def codec_simps intro: conforms_boolean)
next
  case (IntType t)
  then show ?case by (cases v) (auto simp: ill_typed_def codec_simps intro: integer_conforms)
next
  case (EnumType t)
  then obtain u du i where u: "kind_is d ''enum''" "member d ''underlyingType'' = Some (JString u)"
    "types u = Some du" "integer_shape du t" "int_encode t (cast_int t i) c = (Ok j, c')"
    by (cases v) (auto simp: ill_typed_def enum_encode_def codec_simps)
  then have "in_range t (cast_int t i)" by (intro cast_int_range) (simp add: integer_shape_def)
  with u have "conforms types u j" by (intro integer_conforms)
  with EnumType u show ?case by (auto intro: conforms_enum)
next
  case (FloatType f)
  then obtain x where x: "v = VFloat x" "fp_in f x" "fp_encode x c = (Ok j, c')"
    by (cases v) (auto simp: ill_typed_def codec_simps)
  show ?case
  proof (cases "isfinite x")
    case True
    with x have j: "j = JDouble x" by (cases x) (auto simp: fp_encode_def codec_simps)
    from FloatType.prems(2) consider "f = binary32" "member d ''bits'' = Some (JInt64 32)"
      | "f = binary64" "member d ''bits'' = Some (JInt64 64)" by auto
    then show ?thesis
      using conforms_float [of types n d _ x] FloatType.prems x True j by cases fastforce+
  next
    case False
    with x have "j \<in> set [JString ''NaN'', JString ''Infinity'', JString ''-Infinity'']"
      by (cases x) (auto simp: fp_encode_def codec_simps)
    with FloatType.prems show ?thesis by (auto intro: conforms_nonfinite)
  qed
next
  case StringType
  then show ?case
    by (cases v) (auto simp: ill_typed_def codec_simps string_encode_Ok intro: conforms_string)
next
  case (VectorType t)
  then obtain vs js c1 c2 where vs: "v = VSeq vs" "list_all (holds_type t) vs" "j = JArray js"
    "map_codec (encode_value t) vs c1 = (Ok js, c2)"
    by (cases v) (auto simp: ill_typed_def vector_encode_def codec_simps split: if_splits)
  from VectorType.prems(2) obtain e de where e: "kind_is d ''array''" "member d ''length'' = Some JNull"
    "member d ''elementType'' = Some (JString e)" "types e = Some de" "typed_shape types de t" by auto
  have "list_all (conforms types e) js \<and> length js = length vs"
    using vs(4) by (rule map_codec_all) (use vs(2) VectorType.IH e in \<open>auto simp: list_all_iff\<close>)
  with VectorType.prems(1) vs(3) e show ?case
    by (auto simp: list_all_iff intro: conforms_array)
qed simp

section \<open>Every codec emits what its definition promises\<close>

lemma void_json: "void_toJson result c = (Ok u, Some (store, j), c') \<Longrightarrow> j = JNull"
  by (auto simp: void_toJson_def deliver_def bind_codec_def return_def split: if_splits prod.splits res.splits)

lemma typed_toJson_Ok:
  "typed_toJson enc src result c = (Ok u, Some (store, j), c') \<Longrightarrow>
     \<exists>s v. src = Some s \<and> content s = Some v \<and> enc v c = (Ok j, c')"
  by (auto simp: typed_toJson_def typed_content_def split: option.split_asm if_split_asm prod.split_asm res.split_asm)

lemma staged_json_Ok:
  assumes "staged_json f c = (Ok j, c')" "contained f"
  shows "\<exists>u store. f (Some (storage c, JNull)) c = (Ok u, Some (store, j), c')"
  using assms by (fastforce simp: staged_json_def split: prod.splits res.splits dest: containedD)

lemma reflected_json_Ok:
  assumes "reflected_json rtt w ty body src result c = (Ok u, Some (store, j), c')"
  shows "\<exists>s c1 c2. src = Some s \<and> body s c1 = (Ok j, c2)"
proof -
  from assms obtain m c1 where m: "scoped (\<lambda>c. if \<not> reflected_guard rtt w ty src result c then (codecFailure InvalidDataSource, c)
       else bind_codec (account 2) (\<lambda>_. body (the src)) c) c = (Ok m, c1)"
    "map_option (\<lambda>(store, old). (store, m)) result = Some (store, j)"
    by (auto simp: reflected_json_def deliver_def split: prod.splits res.splits)
  then have "m = j" by auto
  with m(1) show ?thesis
    by (auto simp: codec_simps reflected_guard_def split: if_splits option.splits)
qed

lemma part_json_Ok:
  assumes "part_json rtt w ty s name mty f c = (Ok j, c')" "\<And>src. contained (f src)"
  shows "\<exists>m u store c1. f (Some m) (Some (storage c1, JNull)) c1 = (Ok u, Some (store, j), c')"
  using assms by (fastforce simp: part_json_def codec_simps split: option.splits if_splits dest: staged_json_Ok)

text \<open>What one call of a codec emits, and the promise about it.\<close>

definition emits :: "(json_result \<Rightarrow> codec_context \<Rightarrow> unit res \<times> json_result \<times> codec_context) \<Rightarrow> json \<Rightarrow> bool" where
  "emits f j \<longleftrightarrow> (\<exists>result c u store c'. f result c = (Ok u, Some (store, j), c'))"

definition truthful ::
  "('w, 's) rtt_sources \<Rightarrow> 'w \<Rightarrow> (string \<Rightarrow> (string \<times> json) list option) \<Rightarrow> string \<Rightarrow> codec_object \<Rightarrow> bool" where
  "truthful rtt w types n cd \<longleftrightarrow> (\<forall>src j. emits (toJson rtt w cd src) j \<longrightarrow> conforms types n j)"

lemma members_json_Ok:
  assumes "others_ok rtt"
  shows "members_json rtt w ty ms s built c = (Ok obj, c') \<Longrightarrow> distinct (map fst ms) \<Longrightarrow>
    fst ` set built \<inter> fst ` set ms = {} \<Longrightarrow>
    (\<forall>x \<in> set ms. truthful rtt w types (name_of (fst (snd x))) (snd (snd x))) \<Longrightarrow>
    \<exists>new. obj = built @ new \<and> map fst new = map fst ms
      \<and> list_all2 (conforms types) (map (\<lambda>x. name_of (fst (snd x))) ms) (map snd new)"
proof (induction ms arbitrary: built c)
  case Nil
  then show ?case by (simp add: codec_simps)
next
  case (Cons x ms)
  obtain name mty cd where x: "x = (name, mty, cd)" by (cases x) auto
  from Cons.prems(1) obtain j c1 c2 where
    j: "part_json rtt w ty s name mty (toJson rtt w cd) c1 = (Ok j, c2)"
    and rest: "members_json rtt w ty ms s (object_emplace name j built) c2 = (Ok obj, c')"
    by (auto simp: x codec_simps)
  have "object_emplace name j built = built @ [(name, j)]"
    using Cons.prems(3) by (auto simp: x object_emplace_def)
  with Cons.IH [OF rest] Cons.prems(2-4) obtain new where new: "obj = (built @ [(name, j)]) @ new"
    "map fst new = map fst ms" "list_all2 (conforms types) (map (\<lambda>x. name_of (fst (snd x))) ms) (map snd new)"
    by (auto simp: x)
  have "conforms types (name_of mty) j"
    using part_json_Ok [OF j] toJson_contained(1) [of rtt w cd] assms Cons.prems(4)
    by (fastforce simp: x truthful_def emits_def)
  with new show ?case by (intro exI [of _ "(name, j) # new"]) (simp add: x)
qed

lemma codec_truthful:
  assumes rtt: "others_ok rtt" "typed_views rtt"
  shows "shows_codec types name_of n cd \<Longrightarrow> truthful rtt w types n cd"
proof (induction rule: shows_codec.induct)
  case (shows_typed n d t)
  have "conforms types n j" if "emits (toJson rtt w (TypedCodec t) src) j" for src j
  proof -
    from that obtain s v c c' where "src = Some s" "content (source_view rtt t w s) = Some v"
      "encode_value t v c = (Ok j, c')"
      by (auto simp: emits_def dest!: typed_toJson_Ok)
    with typed_conforms [OF shows_typed] rtt(2) show ?thesis unfolding typed_views_def by blast
  qed
  then show ?case by (simp add: truthful_def)
next
  case (shows_void n d)
  then show ?case by (auto simp: truthful_def emits_def dest!: void_json intro: conforms_void)
next
  case (shows_sequence n d ety len cd ty rd)
  have "conforms types n j" if "emits (toJson rtt w (SequenceCodec ty len ety cd rd) src) j" for src j
  proof -
    from that obtain s c1 c2 where "sequence_json rtt w ty len ety (toJson rtt w cd) s c1 = (Ok j, c2)"
      by (auto simp: emits_def dest!: reflected_json_Ok)
    then obtain count js c3 where j: "j = JArray js" "len = None \<or> len = Some (nat count)"
      and elements: "map_codec (\<lambda>i. part_json rtt w ty s (to_chars (int i)) ety (toJson rtt w cd)) [0..<nat count] c3 = (Ok js, c2)"
      by (auto simp: sequence_json_def codec_simps split: option.splits if_splits)
    have "list_all (conforms types (name_of ety)) js \<and> length js = length [0..<nat count]"
      using elements
    proof (rule map_codec_all)
      fix i y c c'
      assume "part_json rtt w ty s (to_chars (int i)) ety (toJson rtt w cd) c = (Ok y, c')"
      then show "conforms types (name_of ety) y"
        using part_json_Ok toJson_contained(1) [of rtt w cd] rtt(1) shows_sequence.IH
        unfolding truthful_def emits_def by meson
    qed
    with j shows_sequence show ?thesis
      by (auto simp: list_all_iff length_of_def intro: conforms_array)
  qed
  then show ?case by (simp add: truthful_def)
next
  case (shows_structure n d ms ty rd)
  have "conforms types n j" if "emits (toJson rtt w (StructureCodec ty ms rd) src) j" for src j
  proof -
    from that obtain s obj c1 c2 where j: "j = JObject obj"
      and members: "members_json rtt w ty ms s [] c1 = (Ok obj, c2)"
      by (auto simp: emits_def codec_simps dest!: reflected_json_Ok)
    from members_json_Ok [OF rtt(1) members, of types name_of] shows_structure
    have obj: "map fst obj = map fst ms"
      "list_all2 (conforms types) (map (\<lambda>x. name_of (fst (snd x))) ms) (map snd obj)"
      by auto
    define fs where "fs = map (\<lambda>(name, mty, cd). (name, name_of mty)) ms"
    have fs: "map fst fs = map fst ms" "map snd fs = map (\<lambda>x. name_of (fst (snd x))) ms"
      "map (\<lambda>(name, t). field_of name t) fs = map (\<lambda>(name, mty, cd). field_of name (name_of mty)) ms"
      by (auto simp: fs_def)
    show ?thesis unfolding j
    proof (rule conforms_object [of types n d fs])
      show "list_all2 (conforms types) (map snd fs) (map snd obj)" using obj(2) by (simp only: fs)
    qed (use obj(1) shows_structure fs in simp_all)
  qed
  then show ?case by (simp add: truthful_def)
qed

text \<open>More definitions never make a promise false.\<close>

lemma map_le_Some: "types \<subseteq>\<^sub>m types' \<Longrightarrow> types n = Some d \<Longrightarrow> types' n = Some d"
  by (metis map_le_def domI)

lemma typed_shape_mono: "typed_shape types d t \<Longrightarrow> types \<subseteq>\<^sub>m types' \<Longrightarrow> typed_shape types' d t"
proof (induction t arbitrary: d)
  case (EnumType t)
  from EnumType.prems(1) map_le_Some [OF EnumType.prems(2)] show ?case by auto
next
  case (VectorType t)
  from VectorType.prems(1) map_le_Some [OF VectorType.prems(2)] VectorType.IH VectorType.prems(2)
  show ?case by (auto; blast)
qed auto

lemma shows_codec_mono:
  assumes "types \<subseteq>\<^sub>m types'"
  shows "shows_codec types name_of n cd \<Longrightarrow> shows_codec types' name_of n cd"
proof (induction rule: shows_codec.induct)
  case (shows_typed n d t)
  with typed_shape_mono map_le_Some assms show ?case by (intro shows_codec.shows_typed)
next
  case (shows_void n d)
  with map_le_Some [OF assms] show ?case by (intro shows_codec.shows_void)
next
  case (shows_sequence n d ety len cd ty rd)
  with map_le_Some [OF assms] show ?case by (intro shows_codec.shows_sequence)
next
  case (shows_structure n d ms ty rd)
  then have "\<forall>x \<in> set ms. shows_codec types' name_of (name_of (fst (snd x))) (snd (snd x))" by blast
  with map_le_Some [OF assms] shows_structure show ?case by (intro shows_codec.shows_structure)
qed

end
