(* ===== verification/Catalog_Preparation.thy ===== *)
theory Catalog_Preparation
  imports Reflection Type_Conformance
begin

text \<open>
  The preparation of the type catalog by \<open>Server::start\<close> (\<open>server.cpp\<close>): the canonical protocols,
  then the reflected ones, then the freeze.  The lemmas follow the registry through the two loops:
  what is registered stays complete, acyclic and true to its codecs.
\<close>

section \<open>Preparation\<close>

text \<open>\<open>None\<close> is an exception that escapes; \<open>Inl\<close> the message that \<open>start\<close> throws.\<close>

definition freeze_prepared ::
  "('w, codec_object) type_slots \<Rightarrow> (string \<times> string) list \<Rightarrow> 'w \<Rightarrow> codec_object registry \<Rightarrow>
     ((string + codec_object type_catalog \<times> (string \<times> string) list) \<times> 'w \<times> codec_object registry) option" where
  "freeze_prepared api diagnostics w st =
     (case freezeTypeCatalog api w st of
        (None, st') \<Rightarrow> None
      | (Some None, st') \<Rightarrow> Some (Inl (freezeError st'), w, st')
      | (Some (Some cat), st') \<Rightarrow> Some (Inr (cat, diagnostics), w, st'))"

definition prepare_catalog ::
  "('w, codec_object) type_slots \<Rightarrow> platform \<Rightarrow> rtt_reflection \<Rightarrow> type_repository \<Rightarrow> json_lib \<Rightarrow> nat \<Rightarrow> nat \<Rightarrow>
     'w \<Rightarrow> codec_object registry \<Rightarrow>
     ((string + codec_object type_catalog \<times> (string \<times> string) list) \<times> 'w \<times> codec_object registry) option" where
  "prepare_catalog api pf rx repo lib store addr w st =
     (if frozen st then freeze_prepared api [] w st
      else case registerCanonicalTypeProtocols api pf lib (named_type repo) store addr w st of
          (Raised, w1, st1) \<Rightarrow> None
        | (Refused e, w1, st1) \<Rightarrow> Some (Inl e, w1, st1)
        | (Accepted, w1, st1) \<Rightarrow>
            (case registerReflectedTypeProtocols api rx repo lib store (addr + length (canonical_names pf)) w1 st1 of
               None \<Rightarrow> None
             | Some (diagnostics, left, w2, st2) \<Rightarrow> freeze_prepared api diagnostics w2 st2))"

section \<open>The slots of RTT\<close>

text \<open>
  \<open>TypeInfo::addProtocol\<close> accepts a protocol for a free slot, and changes no other slot.
\<close>

definition slot_contract :: "('w, codec_object) type_slots \<Rightarrow> bool" where
  "slot_contract api \<longleftrightarrow> (\<forall>t occ w. getProtocol api w t = None \<longrightarrow>
     (\<exists>w'. addProtocol api t occ w = (Some True, w')
       \<and> (\<forall>u. getProtocol api w' u = (if u = t then Some occ else getProtocol api w u))))"

lemma slot_contractD:
  "slot_contract api \<Longrightarrow> getProtocol api w t = None \<Longrightarrow> \<exists>w'. addProtocol api t occ w = (Some True, w')
     \<and> (\<forall>u. getProtocol api w' u = (if u = t then Some occ else getProtocol api w u))"
  unfolding slot_contract_def by blast

text \<open>Under the contract a call either fills a free slot or leaves everything as it was.\<close>

lemma register_cases:
  assumes "slot_contract api" "registerTypeProtocol api (Some t) (Some p) w st = (r, w', st')"
  shows "(r = Accepted \<and> getProtocol api w t = None \<and> map_of (registrations st) t = None \<and> \<not> frozen st
      \<and> admitted api t p \<and> st' = st\<lparr>registrations := map_emplace t p (registrations st)\<rparr>
      \<and> (\<forall>u. getProtocol api w' u = (if u = t then Some (Http p) else getProtocol api w u)))
    \<or> (r \<noteq> Raised \<and> w' = w \<and> st' = st
      \<and> (r = Accepted \<longrightarrow> (\<exists>e q. getProtocol api w t = Some (Http e) \<and> map_of (registrations st) t = Some q
           \<and> address q = address e)))"
proof (cases "getProtocol api w t")
  case None
  from slot_contractD [OF assms(1) None, of "Http p"] obtain w1 where
    w1: "addProtocol api t (Http p) w = (Some True, w1)"
      "\<forall>u. getProtocol api w1 u = (if u = t then Some (Http p) else getProtocol api w u)" by blast
  with assms(2) None show ?thesis
    by (auto simp: registerTypeProtocol_def admitted_def Let_def split: if_splits sum.splits)
next
  case (Some occ)
  with assms(2) show ?thesis
    by (auto simp: registerTypeProtocol_def split: if_splits sum.splits option.splits occupant.splits)
qed

section \<open>What the registrations stand for\<close>

definition types_of :: "('w, 'c) type_slots \<Rightarrow> (nat \<times> 'c type_protocol) list \<Rightarrow> string \<Rightarrow> json_object option" where
  "types_of api regs n = map_option (\<lambda>b. descriptor (bound b)) (map_of (catalog_types (published api regs)) n)"

definition unique_names :: "('w, 'c) type_slots \<Rightarrow> (nat \<times> 'c type_protocol) list \<Rightarrow> bool" where
  "unique_names api regs \<longleftrightarrow> distinct (map fst regs) \<and> inj_on (getTypeName api) (fst ` set regs)"

lemma published_mem:
  assumes "unique_names api regs"
  shows "map_of (catalog_types (published api regs)) n = Some b \<longleftrightarrow>
    (\<exists>t p. (t, p) \<in> set regs \<and> n = getTypeName api t \<and> b = binding_of p)"
proof -
  let ?named = "map (\<lambda>(t, p). (getTypeName api t, binding_of p)) regs"
  have names: "map fst ?named = map (getTypeName api) (map fst regs)" by auto
  have "distinct (map fst ?named)"
    unfolding names distinct_map [of "getTypeName api"] using assms by (simp add: unique_names_def)
  then have "map_of ?named n = Some b \<longleftrightarrow> (n, b) \<in> set ?named" by (rule map_of_eq_Some_iff)
  then show ?thesis by (auto simp: published_def)
qed

lemma published_absent:
  assumes "unique_names api regs"
  shows "map_of (catalog_types (published api regs)) n = None \<longleftrightarrow> n \<notin> getTypeName api ` fst ` set regs"
proof -
  have "map_of (catalog_types (published api regs)) n = None \<longleftrightarrow>
      (\<nexists>b. map_of (catalog_types (published api regs)) n = Some b)" by auto
  then show ?thesis unfolding published_mem [OF assms] by force
qed

text \<open>One more registration adds one entry.\<close>

lemma published_extend:
  assumes "unique_names api (map_emplace t p regs)" "ordered regs" "map_of regs t = None"
  shows "map_of (catalog_types (published api (map_emplace t p regs))) =
      (map_of (catalog_types (published api regs)))(getTypeName api t \<mapsto> binding_of p)"
    and "map_of (catalog_types (published api regs)) (getTypeName api t) = None"
proof -
  have entries: "set (map_emplace t p regs) = insert (t, p) (set regs)"
    using assms(2,3) ordered_mem [of "map_emplace t p regs"] ordered_mem [of regs]
    by (auto simp: set_eq_iff split: if_splits)
  have fresh: "t \<notin> fst ` set regs" using assms(3) by (simp add: map_of_eq_None_iff)
  have old: "unique_names api regs"
    using assms(1,2) by (auto simp: unique_names_def entries ordered_distinct intro: inj_on_subset)
  have name: "getTypeName api t \<notin> getTypeName api ` fst ` set regs"
    using assms(1) fresh by (auto simp: unique_names_def entries inj_on_def)
  then show "map_of (catalog_types (published api regs)) (getTypeName api t) = None"
    by (simp add: published_absent [OF old])
  show "map_of (catalog_types (published api (map_emplace t p regs))) =
      (map_of (catalog_types (published api regs)))(getTypeName api t \<mapsto> binding_of p)"
  proof
    fix n
    show "map_of (catalog_types (published api (map_emplace t p regs))) n =
      ((map_of (catalog_types (published api regs)))(getTypeName api t \<mapsto> binding_of p)) n"
    proof (cases "n = getTypeName api t")
      case True
      then show ?thesis using published_mem [OF assms(1), of n "binding_of p"] by (auto simp: entries)
    next
      case False
      have "map_of (catalog_types (published api (map_emplace t p regs))) n = Some b \<longleftrightarrow>
          map_of (catalog_types (published api regs)) n = Some b" for b
        using False by (auto simp: published_mem [OF assms(1)] published_mem [OF old] entries)
      then show ?thesis using False by (metis fun_upd_other not_None_eq)
    qed
  qed
qed

section \<open>A new type that refers to known ones\<close>

lemma trancl_fresh:
  assumes "(x, y) \<in> (r \<union> {n} \<times> D)\<^sup>+" "n \<notin> Range r" "n \<notin> D" "x \<noteq> n"
  shows "(x, y) \<in> r\<^sup>+"
  using assms(1,4)
proof (induction rule: converse_trancl_induct)
  case (base x)
  then show ?case by auto
next
  case (step x z)
  then have "(x, z) \<in> r" by auto
  moreover from this assms(2) have "z \<noteq> n" by auto
  ultimately show ?case using step.IH by (meson trancl_into_trancl2)
qed

lemma acyclic_fresh:
  assumes "acyclic r" "n \<notin> Range r" "n \<notin> D"
  shows "acyclic (r \<union> {n} \<times> D)"
proof (rule acyclicI, rule allI, rule notI)
  fix x assume cycle: "(x, x) \<in> (r \<union> {n} \<times> D)\<^sup>+"
  then have "x \<in> Range (r \<union> {n} \<times> D)" by (meson RangeI tranclE)
  with assms have "x \<noteq> n" by auto
  from trancl_fresh [OF cycle assms(2,3) this] assms(1) show False by (auto simp: acyclic_def)
qed

lemma well_founded_extend:
  assumes types: "map_of types' = (map_of types)(n \<mapsto> b)" "map_of types n = None" "well_founded_types types"
    and deps: "\<And>d. d \<in> set (dependencies (bound b)) \<Longrightarrow> map_of types d \<noteq> None
      \<and> (kind_at (bound b) = Some (JString ''enum'') \<longrightarrow> kind_of types d = Some (JString ''integer''))"
  shows "well_founded_types types'"
proof -
  have refs: "refers types' = refers types \<union> {n} \<times> set (dependencies (bound b))"
    using types(1,2) by (auto simp: refers_def deps_def split: if_splits)
  have unknown: "n \<notin> Range (refers types)" "n \<notin> set (dependencies (bound b))"
    using types(2,3) deps [of n] by (auto simp: well_founded_types_def sound_ref_def)
  have kinds: "kind_of types' m = (if m = n then kind_at (bound b) else kind_of types m)" for m
    using types(1) by (simp add: kind_of_def)
  have "sound_ref types' m d" if "(m, d) \<in> refers types'" for m d
  proof (cases "m = n")
    case True
    have "(n, d) \<notin> refers types" using types(2) by (auto simp: refers_def deps_def)
    with True that have "d \<in> set (dependencies (bound b))" by (auto simp: refs)
    with True deps [OF this] unknown(2) types(1) show ?thesis by (auto simp: sound_ref_def kinds)
  next
    case False
    with that have "(m, d) \<in> refers types" by (auto simp: refs)
    with types(3) have "sound_ref types m d" "d \<noteq> n" using unknown(1) by (auto simp: well_founded_types_def)
    with False types(1) show ?thesis by (simp add: sound_ref_def kinds)
  qed
  moreover have "acyclic (refers types')"
    unfolding refs using types(3) unknown by (intro acyclic_fresh) (simp_all add: well_founded_types_def)
  ultimately show ?thesis by (auto simp: well_founded_types_def)
qed

end
