(* ===== verification/Catalog_Soundness.thy ===== *)
theory Catalog_Soundness
  imports Catalog_Preparation
begin

text \<open>
  The registry while the catalog is prepared: every registered definition is complete, acyclic
  and true to its codec.  The two registration loops keep this, so the freeze succeeds.
\<close>

section \<open>A sound registry\<close>

definition shown :: "('w, codec_object) type_slots \<Rightarrow> (nat \<times> codec_object type_protocol) list \<Rightarrow> bool" where
  "shown api regs \<longleftrightarrow> (\<forall>t p cd. (t, p) \<in> set regs \<longrightarrow> codec p = Some cd \<longrightarrow>
     shows_codec (types_of api regs) (getTypeName api) (getTypeName api t) cd)"

definition sound_registry ::
  "('w, codec_object) type_slots \<Rightarrow> nat set \<Rightarrow> 'w \<Rightarrow> codec_object registry \<Rightarrow> bool" where
  "sound_registry api T w st \<longleftrightarrow> \<not> frozen st \<and> ordered (registrations st)
     \<and> list_all (\<lambda>(t, p). admitted api t p) (registrations st) \<and> intact api w st
     \<and> fst ` set (registrations st) \<subseteq> T
     \<and> well_founded_types (catalog_types (published api (registrations st))) \<and> shown api (registrations st)"

lemma sound_unique:
  "sound_registry api T w st \<Longrightarrow> inj_on (getTypeName api) T \<Longrightarrow> unique_names api (registrations st)"
  by (auto simp: sound_registry_def unique_names_def ordered_distinct intro: inj_on_subset)

lemma sound_new: "sound_registry api T w new_registry"
  by (simp add: sound_registry_def new_registry_def intact_def published_def map_build_def shown_def
      well_founded_types_def refers_def deps_def acyclic_def)

lemma emplace_entries:
  "ordered regs \<Longrightarrow> map_of regs t = None \<Longrightarrow> set (map_emplace t p regs) = insert (t, p) (set regs)"
  using ordered_mem [of "map_emplace t p regs"] ordered_mem [of regs]
  by (auto simp: set_eq_iff split: if_splits)

lemma types_extend:
  assumes "unique_names api (map_emplace t p regs)" "ordered regs" "map_of regs t = None"
  shows "types_of api (map_emplace t p regs) =
      (types_of api regs)(getTypeName api t \<mapsto> descriptor (registration p))"
    and "types_of api regs \<subseteq>\<^sub>m types_of api (map_emplace t p regs)"
proof -
  show "types_of api (map_emplace t p regs) =
      (types_of api regs)(getTypeName api t \<mapsto> descriptor (registration p))"
    by (rule ext) (simp add: types_of_def published_extend(1) [OF assms] binding_of_def)
  then show "types_of api regs \<subseteq>\<^sub>m types_of api (map_emplace t p regs)"
    using published_extend(2) [OF assms] by (auto simp: types_of_def map_le_def)
qed

lemma sound_extend:
  assumes sound: "sound_registry api T w st" "inj_on (getTypeName api) T"
    and new: "t \<in> T" "map_of (registrations st) t = None" "admitted api t p"
    and slots: "\<And>u. getProtocol api w' u = (if u = t then Some (Http p) else getProtocol api w u)"
    and deps: "\<And>d. d \<in> set (dependencies (registration p)) \<Longrightarrow>
      map_of (catalog_types (published api (registrations st))) d \<noteq> None
      \<and> (kind_at (registration p) = Some (JString ''enum'') \<longrightarrow>
           kind_of (catalog_types (published api (registrations st))) d = Some (JString ''integer''))"
    and emits: "\<And>cd. codec p = Some cd \<Longrightarrow>
      shows_codec ((types_of api (registrations st))(getTypeName api t \<mapsto> descriptor (registration p)))
        (getTypeName api) (getTypeName api t) cd"
  shows "sound_registry api T w' (st\<lparr>registrations := map_emplace t p (registrations st)\<rparr>)"
proof -
  let ?regs = "registrations st"
  have old: "ordered ?regs" "list_all (\<lambda>(t, p). admitted api t p) ?regs" "intact api w st" "fst ` set ?regs \<subseteq> T"
    "well_founded_types (catalog_types (published api ?regs))" "shown api ?regs" "\<not> frozen st"
    using sound(1) by (auto simp: sound_registry_def)
  have entries: "set (map_emplace t p ?regs) = insert (t, p) (set ?regs)"
    by (rule emplace_entries [OF old(1) new(2)])
  have "fst ` set (map_emplace t p ?regs) \<subseteq> T" using old(4) new(1) by (simp add: entries)
  then have names: "unique_names api (map_emplace t p ?regs)"
    using old(1) inj_on_subset [OF sound(2)] by (auto simp only: unique_names_def ordered_distinct ordered_emplace)
  note types = types_extend [OF names old(1) new(2)]
  have "holds (getProtocol api w' u) q" if "(u, q) \<in> insert (t, p) (set ?regs)" for u q
  proof (cases "u = t")
    case True
    with that new(2) have "q = p" by (auto simp: map_of_eq_None_iff image_iff)
    with True slots [of u] show ?thesis by (simp add: holds_def)
  next
    case False
    with that have "(u, q) \<in> set ?regs" by simp
    with old(3) have "holds (getProtocol api w u) q" by (fastforce simp: intact_def list_all_iff)
    moreover from False slots [of u] have "getProtocol api w' u = getProtocol api w u" by simp
    ultimately show ?thesis by simp
  qed
  then have "intact api w' (st\<lparr>registrations := map_emplace t p ?regs\<rparr>)"
    by (auto simp: intact_def list_all_iff entries)
  moreover have "well_founded_types (catalog_types (published api (map_emplace t p ?regs)))"
  proof (rule well_founded_extend [OF published_extend [OF names old(1) new(2)] old(5)])
    show "map_of (catalog_types (published api ?regs)) d \<noteq> None
      \<and> (kind_at (bound (binding_of p)) = Some (JString ''enum'') \<longrightarrow>
           kind_of (catalog_types (published api ?regs)) d = Some (JString ''integer''))"
      if "d \<in> set (dependencies (bound (binding_of p)))" for d
      using that unfolding binding_of_def type_binding.simps by (rule deps)
  qed
  moreover have "shown api (map_emplace t p ?regs)"
    unfolding shown_def
  proof (intro allI impI)
    fix u q cd
    assume "(u, q) \<in> set (map_emplace t p ?regs)" "codec q = Some cd"
    then consider "u = t" "q = p" "codec p = Some cd" | "(u, q) \<in> set ?regs" "codec q = Some cd" by (auto simp: entries)
    then show "shows_codec (types_of api (map_emplace t p ?regs)) (getTypeName api) (getTypeName api u) cd"
    proof cases
      case 1
      with emits show ?thesis by (simp add: types(1))
    next
      case 2
      with old(6) have "shows_codec (types_of api ?regs) (getTypeName api) (getTypeName api u) cd"
        by (auto simp: shown_def)
      then show ?thesis by (rule shows_codec_mono [OF types(2)])
    qed
  qed
  ultimately show ?thesis
    using old new by (auto simp: sound_registry_def list_all_iff entries)
qed

text \<open>A sound registry freezes to its catalog.\<close>

lemma sound_freezes:
  assumes "sound_registry api T w st"
  shows "freezeTypeCatalog api w st = (Some (Some (published api (registrations st))),
    st\<lparr>frozen := True, catalog := Some (published api (registrations st)), freezeError := []\<rparr>)"
  using assms freeze_eq [of api st w] by (auto simp: sound_registry_def)

section \<open>What a registered type offers to others\<close>

lemma registered_codec:
  assumes "registeredTypeCodec api w st (Some t) = Some cd"
  shows "\<exists>q. map_of (registrations st) t = Some q \<and> codec q = Some cd"
  using assms by (auto simp: registeredTypeCodec_def split: option.splits if_splits)

lemma registered_known:
  assumes "sound_registry api T w st" "inj_on (getTypeName api) T"
    and "registeredTypeCodec api w st (Some t) = Some cd"
  shows "map_of (catalog_types (published api (registrations st))) (getTypeName api t) \<noteq> None
    \<and> shows_codec (types_of api (registrations st)) (getTypeName api) (getTypeName api t) cd"
proof -
  from registered_codec [OF assms(3)] obtain q where q: "(t, q) \<in> set (registrations st)" "codec q = Some cd"
    by (auto dest: map_of_SomeD)
  from q published_mem [OF sound_unique [OF assms(1,2)], of "getTypeName api t" "binding_of q"]
  have "map_of (catalog_types (published api (registrations st))) (getTypeName api t) = Some (binding_of q)" by blast
  with q assms(1) show ?thesis by (auto simp: sound_registry_def shown_def)
qed

end
