(* ===== verification/Reflection_Sound.thy ===== *)
theory Reflection_Sound
  imports Catalog_Soundness
begin

text \<open>
  Reflection keeps the registry sound: a reflected definition refers only to registered types
  and says what its codec does.  The fixpoint loop ends when no pending type can be registered,
  with one diagnostic for each of them.
\<close>

section \<open>What a successful reflection gives\<close>

lemma member_normalized:
  "k \<noteq> ''reason'' \<Longrightarrow> k \<noteq> ''jsonSupported'' \<Longrightarrow> member (descriptor (normalized r)) k = member (descriptor r) k"
  by (simp add: normalized_def update_conv')

lemma normalized_dependencies [simp]: "set (dependencies (normalized r)) = set (dependencies r)"
  by (simp add: normalized_def)

lemma normalized_type [simp]: "rttType (normalized r) = rttType r"
  by (simp add: normalized_def)

lemma addMember_codec: "addMember api w st v = Some (mty, cd) \<Longrightarrow> registeredTypeCodec api w st (Some mty) = Some cd"
  by (auto simp: addMember_def split: option.splits if_splits)

lemma probing_Inr [simp]: "probing m f = Inr y \<longleftrightarrow> (\<exists>x. m = Inr x \<and> f x = Inr y)"
  by (auto simp: probing_def split: sum.splits)

lemma reflect_members_Inr:
  "reflect_members api rx w st ty seen names = Inr ms \<Longrightarrow>
     distinct (map fst ms) \<and> fst ` set ms \<inter> seen = {} \<and> map fst ms = names
     \<and> (\<forall>x \<in> set ms. registeredTypeCodec api w st (Some (fst (snd x))) = Some (snd (snd x)))"
proof (induction names arbitrary: seen ms)
  case (Cons name names)
  then obtain v where fresh: "name \<notin> seen" and step: "(case addMember api w st v of
      None \<Rightarrow> Inl (''missing HTTP field codec or assignable metadata: '' @ name)
    | Some (mty, cd) \<Rightarrow>
        (case reflect_members api rx w st ty (insert name seen) names of
           Inl e \<Rightarrow> Inl e | Inr ms \<Rightarrow> Inr ((name, mty, cd) # ms))) = Inr ms"
    by (auto split: if_split_asm)
  then obtain x where "addMember api w st v = Some x" by (cases "addMember api w st v") auto
  with step obtain mty cd ms' where ms: "ms = (name, mty, cd) # ms'" "addMember api w st v = Some (mty, cd)"
    "reflect_members api rx w st ty (insert name seen) names = Inr ms'"
    by (cases x) (auto split: sum.splits)
  with Cons.IH [OF ms(3)] addMember_codec [OF ms(2)] fresh show ?case by auto
qed simp

lemma makeReflected_Inr:
  assumes "makeReflectedTypeProtocol api rx lib store addr (Some t) identity rd w st = Inr p"
  shows "\<exists>d ds cd. reflect_type api rx w st t rd = Inr (d, ds, cd) \<and> codec p = Some cd
    \<and> registration p = normalized (identity\<lparr>rttType := getTypeName api t, descriptor := d, dependencies := ds\<rparr>)"
  using assms
  by (auto simp: makeReflectedTypeProtocol_def make_protocol_def Let_def split: sum.splits option.splits)

lemma reflect_type_Inr:
  assumes "reflect_type api rx w st t rd = Inr (d, ds, cd)"
  shows "(\<exists>ety ecd len. registeredTypeCodec api w st (Some ety) = Some ecd
        \<and> d = sequence_descriptor (getTypeName api ety) len \<and> ds = [getTypeName api ety]
        \<and> cd = SequenceCodec t len ety ecd rd \<and> sequence_length rx t = Inr len)
    \<or> (\<exists>ms. ms \<noteq> [] \<and> distinct (map fst ms)
        \<and> (\<forall>x \<in> set ms. registeredTypeCodec api w st (Some (fst (snd x))) = Some (snd (snd x)))
        \<and> d = structure_descriptor (map (\<lambda>(name, mty, cd). (name, getTypeName api mty)) ms)
        \<and> set ds = (\<lambda>x. getTypeName api (fst (snd x))) ` set ms \<and> cd = StructureCodec t ms rd)"
proof -
  from assms consider (seq) y where "reflect_sequence api rx w st t (Some y) rd = Inr (d, ds, cd)"
    | (struct) "reflect_structure api rx w st t rd = Inr (d, ds, cd)"
    by (auto simp: reflect_type_def split: if_split_asm)
  then show ?thesis
  proof cases
    case seq
    then obtain ety ecd len where found: "addMember api w st (Some y) = Some (ety, ecd)"
      and parts: "d = sequence_descriptor (getTypeName api ety) len" "ds = [getTypeName api ety]"
      "cd = SequenceCodec t len ety ecd rd" "sequence_length rx t = Inr len"
      by (auto simp: reflect_sequence_def split: option.split_asm sum.split_asm)
    from addMember_codec [OF found] parts show ?thesis by (intro disjI1 exI conjI)
  next
    case struct
    then obtain names ms where ms: "names \<noteq> []" "reflect_members api rx w st t {} names = Inr ms"
      "d = structure_descriptor (map (\<lambda>(name, mty, cd). (name, getTypeName api mty)) ms)"
      "ds = remdups_adj (sort (map (\<lambda>(name, mty, cd). getTypeName api mty) ms))" "cd = StructureCodec t ms rd"
      by (auto simp: reflect_structure_def split: if_split_asm sum.split_asm)
    from reflect_members_Inr [OF ms(2)] ms show ?thesis by (auto simp: case_prod_beta)
  qed
qed

lemma structure_fields:
  "member (structure_descriptor (map (\<lambda>(name, mty, cd). (name, name_of mty)) ms)) ''fields'' =
     Some (JArray (map (\<lambda>(name, mty, cd). field_of name (name_of mty)) ms))"
  by (simp add: structure_descriptor_def field_of_def case_prod_beta)

lemma reflected_shows:
  assumes sound: "sound_registry api T w st" "inj_on (getTypeName api) T"
    and refl: "reflect_type api rx w st t rd = Inr (d, ds, cd)"
    and types: "types_of api (registrations st) \<subseteq>\<^sub>m types'" "types' n = Some (descriptor (normalized r))" "descriptor r = d"
  shows "shows_codec types' (getTypeName api) n cd"
proof -
  have known: "shows_codec types' (getTypeName api) (getTypeName api u) ecd"
    if "registeredTypeCodec api w st (Some u) = Some ecd" for u ecd
    using registered_known [OF sound that] by (auto intro: shows_codec_mono [OF types(1)])
  note read = member_normalized [of _ r, unfolded types(3)]
  from reflect_type_Inr [OF refl] show ?thesis
  proof (elim disjE exE conjE)
    fix ety ecd len
    assume seq: "registeredTypeCodec api w st (Some ety) = Some ecd"
      "d = sequence_descriptor (getTypeName api ety) len" "cd = SequenceCodec t len ety ecd rd"
    show ?thesis unfolding seq(3)
      by (rule shows_sequence [of types' n, OF types(2)])
        (simp_all add: read, simp_all add: seq(2) sequence_descriptor_def length_of_def known [OF seq(1)])
  next
    fix ms
    assume struct: "distinct (map fst ms)" "cd = StructureCodec t ms rd"
      "\<forall>x \<in> set ms. registeredTypeCodec api w st (Some (fst (snd x))) = Some (snd (snd x))"
      "d = structure_descriptor (map (\<lambda>(name, mty, cd). (name, getTypeName api mty)) ms)"
    show ?thesis unfolding struct(2)
    proof (rule shows_structure [of types' n, OF types(2)])
      show "member (descriptor (normalized r)) ''fields'' =
          Some (JArray (map (\<lambda>(name, mty, cd). field_of name (getTypeName api mty)) ms))"
        by (simp add: read struct(4) structure_fields)
      show "member (descriptor (normalized r)) ''kind'' = Some (JString ''object'')"
        by (simp add: read) (simp add: struct(4) structure_descriptor_def)
    qed (use struct(1,3) known in auto)
  qed
qed

lemma reflected_dependencies:
  assumes "sound_registry api T w st" "inj_on (getTypeName api) T"
    and "reflect_type api rx w st t rd = Inr (d, ds, cd)"
  shows "(\<forall>n \<in> set ds. map_of (catalog_types (published api (registrations st))) n \<noteq> None)
    \<and> member d ''kind'' \<noteq> Some (JString ''enum'')"
proof -
  have known: "map_of (catalog_types (published api (registrations st))) (getTypeName api u) \<noteq> None"
    if "registeredTypeCodec api w st (Some u) = Some ecd" for u ecd
    using registered_known [OF assms(1,2) that] by blast
  from reflect_type_Inr [OF assms(3)] show ?thesis
  proof (elim disjE exE conjE)
    fix ety ecd len
    assume "registeredTypeCodec api w st (Some ety) = Some ecd" "ds = [getTypeName api ety]"
      "d = sequence_descriptor (getTypeName api ety) len"
    with known show ?thesis by (simp add: sequence_descriptor_def)
  next
    fix ms
    assume "\<forall>x \<in> set ms. registeredTypeCodec api w st (Some (fst (snd x))) = Some (snd (snd x))"
      "d = structure_descriptor (map (\<lambda>(name, mty, cd). (name, getTypeName api mty)) ms)"
      "set ds = (\<lambda>x. getTypeName api (fst (snd x))) ` set ms"
    with known show ?thesis by (simp add: structure_descriptor_def)
  qed
qed

section \<open>The registration loop\<close>

lemma sound_registered:
  assumes "sound_registry api T w st" "map_of (registrations st) t = Some q"
  shows "registeredTypeCodec api w st (Some t) = codec q \<and> codec q \<noteq> None"
proof -
  from assms(2) have "(t, q) \<in> set (registrations st)" by (rule map_of_SomeD)
  with assms(1) have "holds (getProtocol api w t) q" "admitted api t q"
    by (auto simp: sound_registry_def intact_def list_all_iff)
  with assms(2) show ?thesis by (simp add: registeredTypeCodec_def admitted_def)
qed

lemma attempt_sound:
  assumes contract: "slot_contract api" and sound: "sound_registry api T w st" "inj_on (getTypeName api) T" "t \<in> T"
    and attempt: "attempt_type api rx lib store addr t w st = (r, w', st')"
  shows "sound_registry api T w' st'" and "r \<noteq> Raised"
    and "r = Accepted \<Longrightarrow> map_of (registrations st') t \<noteq> None"
    and "r \<noteq> Accepted \<Longrightarrow> w' = w \<and> st' = st"
    and "map_of (registrations st) \<subseteq>\<^sub>m map_of (registrations st')"
proof -
  let ?identity = "reflected_identity (getTypeName api t)"
  have ord: "ordered (registrations st)" using sound(1) by (simp add: sound_registry_def)
  consider e where "r = Refused e" "w' = w" "st' = st"
    | p where "makeReflectedTypeProtocol api rx lib store addr (Some t) ?identity None w st = Inr p"
        "registerTypeProtocol api (Some t) (Some p) w st = (r, w', st')"
    using attempt by (auto simp: attempt_type_def split: sum.split_asm)
  then have "sound_registry api T w' st' \<and> r \<noteq> Raised \<and> (r = Accepted \<longrightarrow> map_of (registrations st') t \<noteq> None)
      \<and> (r \<noteq> Accepted \<longrightarrow> w' = w \<and> st' = st)
      \<and> map_of (registrations st) \<subseteq>\<^sub>m map_of (registrations st')"
  proof cases
    case 1
    with sound show ?thesis by simp
  next
    case (2 p)
    from makeReflected_Inr [OF 2(1)] obtain d ds cd where p: "reflect_type api rx w st t None = Inr (d, ds, cd)"
      "codec p = Some cd" "registration p =
        normalized (?identity\<lparr>rttType := getTypeName api t, descriptor := d, dependencies := ds\<rparr>)" by blast
    from register_cases [OF contract 2(2)] show ?thesis
    proof (elim disjE conjE)
      assume new: "r = Accepted" "map_of (registrations st) t = None" "admitted api t p"
        "st' = st\<lparr>registrations := map_emplace t p (registrations st)\<rparr>"
        "\<forall>u. getProtocol api w' u = (if u = t then Some (Http p) else getProtocol api w u)"
      have fresh: "types_of api (registrations st) (getTypeName api t) = None"
      proof -
        have "fst ` set (registrations st) \<subseteq> T" using sound(1) by (simp add: sound_registry_def)
        moreover have "t \<notin> fst ` set (registrations st)" using new(2) by (simp add: map_of_eq_None_iff)
        ultimately have "getTypeName api t \<notin> getTypeName api ` fst ` set (registrations st)"
          using sound(2,3) by (metis inj_on_image_mem_iff)
        then show ?thesis
          using published_absent [OF sound_unique [OF sound(1,2)], of "getTypeName api t"]
          unfolding types_of_def by fastforce
      qed
      note deps = reflected_dependencies [OF sound(1,2) p(1)]
      have "sound_registry api T w' (st\<lparr>registrations := map_emplace t p (registrations st)\<rparr>)"
      proof (rule sound_extend [OF sound(1,2) sound(3) new(2,3)])
        show "map_of (catalog_types (published api (registrations st))) n \<noteq> None
            \<and> (kind_at (registration p) = Some (JString ''enum'') \<longrightarrow>
                 kind_of (catalog_types (published api (registrations st))) n = Some (JString ''integer''))"
          if "n \<in> set (dependencies (registration p))" for n
          using that deps by (simp add: p(3) kind_at_def member_normalized)
        show "shows_codec ((types_of api (registrations st))(getTypeName api t \<mapsto> descriptor (registration p)))
            (getTypeName api) (getTypeName api t) cd'" if "codec p = Some cd'" for cd'
        proof -
          have "cd' = cd" using that p(2) by simp
          moreover have "shows_codec ((types_of api (registrations st))(getTypeName api t \<mapsto> descriptor (registration p)))
              (getTypeName api) (getTypeName api t) cd"
            by (rule reflected_shows [OF sound(1,2) p(1),
                  where r = "?identity\<lparr>rttType := getTypeName api t, descriptor := d, dependencies := ds\<rparr>"])
              (use fresh in \<open>auto simp: p(3) map_le_def\<close>)
          ultimately show ?thesis by simp
        qed
      qed (use new(5) in blast)
      with new ord show ?thesis by (auto simp: map_le_def split: option.splits)
    next
      assume "r \<noteq> Raised" "w' = w" "st' = st" "r = Accepted \<longrightarrow> (\<exists>e q. getProtocol api w t = Some (Http e)
          \<and> map_of (registrations st) t = Some q \<and> address q = address e)"
      with sound(1) show ?thesis by auto
    qed
  qed
  then show "sound_registry api T w' st'" "r \<noteq> Raised" "r = Accepted \<Longrightarrow> map_of (registrations st') t \<noteq> None"
    "r \<noteq> Accepted \<Longrightarrow> w' = w \<and> st' = st"
    "map_of (registrations st) \<subseteq>\<^sub>m map_of (registrations st')" by blast+
qed

end
