(* ===== verification/Reflection_Fixpoint.thy ===== *)
theory Reflection_Fixpoint
  imports Reflection_Sound
begin

text \<open>
  The fixpoint loop of \<open>registerReflectedTypeProtocols\<close>: it returns, it keeps the registry sound,
  and it stops exactly when none of the types left can be registered in the final registry.
\<close>

definition known :: "codec_object registry \<Rightarrow> nat \<Rightarrow> bool" where
  "known st t \<longleftrightarrow> map_of (registrations st) t \<noteq> None"

definition refused_with ::
  "('w, codec_object) type_slots \<Rightarrow> rtt_reflection \<Rightarrow> json_lib \<Rightarrow> nat \<Rightarrow> nat \<Rightarrow> 'w \<Rightarrow> codec_object registry \<Rightarrow> string \<Rightarrow> bool" where
  "refused_with api rx lib store t w st e \<longleftrightarrow> (\<exists>addr. attempt_type api rx lib store addr t w st = (Refused e, w, st))"

text \<open>What a pass over \<open>ts\<close> does to the pending types, the diagnostics and the registry.\<close>

definition pass_effect ::
  "('w, codec_object) type_slots \<Rightarrow> rtt_reflection \<Rightarrow> json_lib \<Rightarrow> nat \<Rightarrow> nat set \<Rightarrow> nat list \<Rightarrow> (string \<times> string) list \<Rightarrow>
     bool \<Rightarrow> 'w \<Rightarrow> codec_object registry \<Rightarrow> 'w pass \<Rightarrow> bool" where
  "pass_effect api rx lib store T ts un pr w st result = (case result of (left, un', pr', addr', w', st') \<Rightarrow>
     sound_registry api T w' st' \<and> set left \<subseteq> set ts \<and> distinct left \<and> ordered un'
     \<and> fst ` set un' = (fst ` set un - getTypeName api ` set ts) \<union> getTypeName api ` set left
     \<and> (\<forall>k. k \<notin> getTypeName api ` set ts \<longrightarrow> map_of un' k = map_of un k)
     \<and> map_of (registrations st) \<subseteq>\<^sub>m map_of (registrations st') \<and> (\<forall>t \<in> set ts. t \<notin> set left \<longrightarrow> known st' t)
     \<and> (\<not> pr' \<longrightarrow> \<not> pr \<and> left = ts \<and> w' = w \<and> st' = st
          \<and> (\<forall>t \<in> set ts. \<exists>e. map_of un' (getTypeName api t) = Some e \<and> refused_with api rx lib store t w st e)))"

lemma keys_erase [simp]: "fst ` set (map_erase k m) = fst ` set m - {k}"
  by (auto simp: map_erase_def)

lemma pass_sound:
  assumes contract: "slot_contract api" "inj_on (getTypeName api) T"
  shows "sound_registry api T w st \<Longrightarrow> set ts \<subseteq> T \<Longrightarrow> distinct ts \<Longrightarrow> ordered un \<Longrightarrow>
    \<exists>result. reflect_pass api rx lib store ts un pr addr w st = Some result
      \<and> pass_effect api rx lib store T ts un pr w st result"
proof (induction ts arbitrary: un pr addr w st)
  case Nil
  then show ?case by (simp add: pass_effect_def)
next
  case (Cons t ts)
  let ?n = "getTypeName api t"
  have t: "t \<in> T" "set ts \<subseteq> T" "distinct ts" "t \<notin> set ts" using Cons.prems by auto
  with contract(2) have other: "?n \<notin> getTypeName api ` set ts" by (auto simp: inj_on_def)
  obtain r w1 st1 where attempt: "attempt_type api rx lib store addr t w st = (r, w1, st1)" by (metis prod_cases3)
  note step = attempt_sound [OF contract(1) Cons.prems(1) contract(2) t(1) attempt]
  show ?case
  proof (cases r)
    case Raised
    with step(2) show ?thesis by simp
  next
    case Accepted
    have "ordered (map_erase ?n un)" using Cons.prems(4) by simp
    from Cons.IH [OF step(1) t(2,3) this, of True "Suc addr"] obtain left un' pr' addr' w' st' where run:
      "reflect_pass api rx lib store ts (map_erase ?n un) True (Suc addr) w1 st1 = Some (left, un', pr', addr', w', st')"
      and eff: "pass_effect api rx lib store T ts (map_erase ?n un) True w1 st1 (left, un', pr', addr', w', st')"
      by (metis prod_cases6)
    have "known st1 t" using step(3) [OF Accepted] by (simp add: known_def)
    moreover have "map_of (registrations st1) \<subseteq>\<^sub>m map_of (registrations st')" using eff by (simp add: pass_effect_def)
    ultimately have "known st' t" "map_of (registrations st) \<subseteq>\<^sub>m map_of (registrations st')"
      using step(5) map_le_trans by (auto simp: known_def dest: map_le_Some)
    then have "pass_effect api rx lib store T (t # ts) un pr w st (left, un', pr', addr', w', st')"
      using eff unfolding pass_effect_def by auto
    with run show ?thesis by (simp add: attempt Accepted)
  next
    case (Refused e)
    with step(4) have same: "w1 = w" "st1 = st" by auto
    let ?un = "map_emplace ?n e (map_erase ?n un)"
    have ord: "ordered ?un" using Cons.prems(4) by simp
    have at: "map_of ?un ?n = Some e" "\<And>k. k \<noteq> ?n \<Longrightarrow> map_of ?un k = map_of un k"
      using Cons.prems(4) by simp_all
    from Cons.IH [OF step(1) t(2,3) ord, of pr "Suc addr"] obtain left un' pr' addr' w' st' where run:
      "reflect_pass api rx lib store ts ?un pr (Suc addr) w1 st1 = Some (left, un', pr', addr', w', st')"
      and eff: "pass_effect api rx lib store T ts ?un pr w1 st1 (left, un', pr', addr', w', st')"
      by (metis prod_cases6)
    have "refused_with api rx lib store t w st e"
      using attempt Refused same by (auto simp: refused_with_def)
    moreover have "map_of un' ?n = Some e" using eff other at(1) by (simp add: pass_effect_def)
    moreover have "fst ` set un' = (fst ` set un - getTypeName api ` set (t # ts)) \<union> getTypeName api ` set (t # left)"
      using eff other by (auto simp: pass_effect_def)
    moreover have "map_of un' k = map_of un k" if "k \<notin> getTypeName api ` set (t # ts)" for k
      using eff that at(2) by (simp add: pass_effect_def)
    ultimately have "pass_effect api rx lib store T (t # ts) un pr w st (t # left, un', pr', addr', w', st')"
      using eff same t(4) unfolding pass_effect_def by auto
    with run show ?thesis by (simp add: attempt Refused)
  qed
qed

text \<open>What the whole loop gives.\<close>

definition settled_reflection ::
  "('w, codec_object) type_slots \<Rightarrow> rtt_reflection \<Rightarrow> json_lib \<Rightarrow> nat \<Rightarrow> nat set \<Rightarrow> nat list \<Rightarrow> codec_object registry \<Rightarrow>
     (string \<times> string) list \<times> nat list \<times> 'w \<times> codec_object registry \<Rightarrow> bool" where
  "settled_reflection api rx lib store T ts st result = (case result of (un', left, w', st') \<Rightarrow>
     sound_registry api T w' st' \<and> set left \<subseteq> set ts
     \<and> fst ` set un' = getTypeName api ` set left
     \<and> map_of (registrations st) \<subseteq>\<^sub>m map_of (registrations st') \<and> (\<forall>t \<in> set ts. t \<notin> set left \<longrightarrow> known st' t)
     \<and> (\<forall>t \<in> set left. \<exists>e. map_of un' (getTypeName api t) = Some e \<and> refused_with api rx lib store t w' st' e))"

lemma loop_settles:
  assumes contract: "slot_contract api" "inj_on (getTypeName api) T"
  shows "sound_registry api T w st \<Longrightarrow> set ts \<subseteq> T \<Longrightarrow> distinct ts \<Longrightarrow> ordered un \<Longrightarrow>
    fst ` set un \<subseteq> getTypeName api ` set ts \<Longrightarrow>
    \<exists>result. reflect_loop api rx lib store ts un addr w st = Some result
      \<and> settled_reflection api rx lib store T ts st result"
proof (induction "length ts" arbitrary: ts un addr w st rule: less_induct)
  case less
  from pass_sound [OF contract less.prems(1-4), of rx lib store False addr]
  obtain left un' pr' addr' w' st' where run:
    "reflect_pass api rx lib store ts un False addr w st = Some (left, un', pr', addr', w', st')"
    and eff: "pass_effect api rx lib store T ts un False w st (left, un', pr', addr', w', st')"
    by (metis prod_cases6)
  have keys: "fst ` set un' = getTypeName api ` set left" using eff less.prems(5) by (auto simp: pass_effect_def)
  show ?case
  proof (cases pr')
    case False
    with eff keys have "settled_reflection api rx lib store T ts st (un', left, w', st')"
      by (auto simp: pass_effect_def settled_reflection_def)
    with run False show ?thesis by (subst reflect_loop.simps) simp
  next
    case True
    with pass_shrinks [OF run] have "length left < length ts" by simp
    moreover have "sound_registry api T w' st'" "set left \<subseteq> T" "distinct left" "ordered un'"
      using eff less.prems(2) by (auto simp: pass_effect_def)
    ultimately obtain un2 left2 w2 st2 where loop: "reflect_loop api rx lib store left un' addr' w' st' = Some (un2, left2, w2, st2)"
      and rest: "settled_reflection api rx lib store T left st' (un2, left2, w2, st2)"
      using less.hyps [of left w' st' un' addr'] keys by (metis prod_cases4 order_refl)
    have grow: "map_of (registrations st) \<subseteq>\<^sub>m map_of (registrations st')"
      "map_of (registrations st') \<subseteq>\<^sub>m map_of (registrations st2)"
      using rest eff by (simp_all add: settled_reflection_def pass_effect_def)
    then have "known st2 t" if "known st' t" for t using that by (auto simp: known_def dest: map_le_Some)
    with rest eff map_le_trans [OF grow] have "settled_reflection api rx lib store T ts st (un2, left2, w2, st2)"
      unfolding settled_reflection_def pass_effect_def by auto
    with run loop True show ?thesis by (subst reflect_loop.simps) simp
  qed
qed

end
