(* ===== verification/Canonical_Sound.thy ===== *)
theory Canonical_Sound
  imports Reflection_Fixpoint
begin

text \<open>
  The canonical table keeps the registry sound: its definitions say what its codecs do, and each
  refers only to definitions that the loop has registered before.
\<close>

section \<open>The table tells the truth\<close>

text \<open>The definition that the table publishes for a name.\<close>

definition canonical_definition :: "platform \<Rightarrow> string \<Rightarrow> json_object option" where
  "canonical_definition pf name =
     map_option (\<lambda>(d, ds, cd). descriptor (normalized (canonical_registration name d ds))) (canonical_entry pf name)"

lemma canonical_member:
  assumes "canonical_definition pf n = Some dn" "canonical_entry pf n = Some (d, ds, cd)" "k \<noteq> ''reason''" "k \<noteq> ''jsonSupported''"
  shows "member dn k = member d k"
  using assms member_normalized [of k "canonical_registration n d ds"]
  by (auto simp: canonical_definition_def canonical_registration_def)

lemma integer_entry_shape:
  assumes "cpp_int_type t" "\<And>k. k \<noteq> ''reason'' \<Longrightarrow> k \<noteq> ''jsonSupported'' \<Longrightarrow> member dn k = member (integerDescriptor t) k"
  shows "integer_shape dn t"
  using assms by (simp add: integer_shape_def integerDescriptor_def)

lemma dependency_entries:
  "canonical_entry pf ''Int32'' = Some (integer_entry (int_of 32 True))"
  "canonical_entry pf ''Float64'' = Some (floatDescriptor 64, [], TypedCodec (FloatType binary64))"
  "canonical_entry pf ''String'' = Some (stringDescriptor, [], TypedCodec StringType)"
  by (simp_all add: canonical_entry_def)

lemma canonical_scalar_shapes:
  "canonical_definition pf ''Int32'' = Some dn \<Longrightarrow> typed_shape types dn (IntType (int_of 32 True))"
  "canonical_definition pf ''Float64'' = Some dn \<Longrightarrow> typed_shape types dn (FloatType binary64)"
  "canonical_definition pf ''String'' = Some dn \<Longrightarrow> typed_shape types dn StringType"
proof -
  assume dn: "canonical_definition pf ''Int32'' = Some dn"
  show "typed_shape types dn (IntType (int_of 32 True))"
    using canonical_member [OF dn dependency_entries(1) [unfolded integer_entry_def]]
    by (simp add: integer_entry_shape cpp_int_type_def)
next
  assume dn: "canonical_definition pf ''Float64'' = Some dn"
  show "typed_shape types dn (FloatType binary64)"
    using canonical_member [OF dn dependency_entries(2)] by (simp add: floatDescriptor_def)
next
  assume dn: "canonical_definition pf ''String'' = Some dn"
  show "typed_shape types dn StringType"
    using canonical_member [OF dn dependency_entries(3)] by (simp add: stringDescriptor_def)
qed

lemma canonical_entry_values:
  assumes "canonical_entry pf n = Some x"
  shows "(\<exists>t. cpp_int_type t \<and> x = integer_entry t) \<or> x \<in> {([(''kind'', JString ''boolean'')], [], TypedCodec BoolType),
    (floatDescriptor 32, [], TypedCodec (FloatType binary32)), (floatDescriptor 64, [], TypedCodec (FloatType binary64)),
    (stringDescriptor, [], TypedCodec StringType), array_entry ''Float64'' (FloatType binary64),
    array_entry ''Int32'' (IntType (int_of 32 True)), array_entry ''String'' StringType, enum_entry,
    ([(''kind'', JString ''void'')], [], VoidCodec)}"
proof -
  have ints: "\<exists>t. cpp_int_type t \<and> integer_entry (int_of b s) = integer_entry t" if "b \<in> {8, 16, 32, 64}" for b s
    using that by (intro exI [of _ "int_of b s"]) (simp add: cpp_int_type_def)
  from assms show ?thesis
    by (auto simp: canonical_entry_def ints split: if_split_asm)
qed

lemma canonical_shows:
  assumes entry: "canonical_entry pf n = Some (d, ds, cd)"
    and types: "types n = canonical_definition pf n" "\<And>u. u \<in> set ds \<Longrightarrow> types u = canonical_definition pf u"
  shows "shows_codec types name_of n cd"
proof -
  obtain dn where dn: "types n = Some dn" "canonical_definition pf n = Some dn"
    using entry types(1) by (simp add: canonical_definition_def)
  note read = canonical_member [OF dn(2) entry]
  have element: "\<exists>du. types u = Some du \<and> canonical_definition pf u = Some du"
    if "u \<in> set ds" "canonical_entry pf u \<noteq> None" for u
    using types(2) [OF that(1)] that(2) by (auto simp: canonical_definition_def)
  show ?thesis
  proof (cases cd)
    case (TypedCodec t)
    have vector: "typed_shape types dn t" if e: "(d, ds, cd) = array_entry u s"
      and shape: "\<And>du. canonical_definition pf u = Some du \<Longrightarrow> typed_shape types du s"
      and u: "canonical_entry pf u \<noteq> None" for u s
    proof -
      from e element [of u] u obtain du where "types u = Some du" "canonical_definition pf u = Some du"
        by (auto simp: array_entry_def)
      with e shape TypedCodec read show ?thesis by (simp add: array_entry_def arrayDescriptor_def)
    qed
    have "typed_shape types dn t"
      using canonical_entry_values [OF entry]
    proof (elim disjE exE conjE insertE emptyE)
      fix s assume "cpp_int_type s" "(d, ds, cd) = integer_entry s"
      with TypedCodec read show ?thesis by (simp add: integer_entry_def integer_entry_shape)
    next
      assume "(d, ds, cd) = array_entry ''Float64'' (FloatType binary64)"
      then show ?thesis using canonical_scalar_shapes(2) by (rule vector) (simp_all add: dependency_entries)
    next
      assume "(d, ds, cd) = array_entry ''Int32'' (IntType (int_of 32 True))"
      then show ?thesis using canonical_scalar_shapes(1) by (rule vector) (simp_all add: dependency_entries)
    next
      assume "(d, ds, cd) = array_entry ''String'' StringType"
      then show ?thesis using canonical_scalar_shapes(3) by (rule vector) (simp_all add: dependency_entries)
    next
      assume e: "(d, ds, cd) = enum_entry"
      with element [of "''Int32''"] dependency_entries(1) [of pf] obtain du where
        "types ''Int32'' = Some du" "canonical_definition pf ''Int32'' = Some du"
        by (auto simp: enum_entry_def)
      with e TypedCodec read canonical_scalar_shapes(1) [of pf du types] show ?thesis
        by (simp add: enum_entry_def enumDescriptor_def)
    qed (use TypedCodec read in \<open>simp_all add: floatDescriptor_def stringDescriptor_def\<close>)
    with dn(1) TypedCodec show ?thesis by (auto intro: shows_typed)
  next
    case VoidCodec
    with canonical_entry_values [OF entry] have "d = [(''kind'', JString ''void'')]"
      by (auto simp: integer_entry_def array_entry_def enum_entry_def)
    with read have "member dn ''kind'' = Some (JString ''void'')" by simp
    with dn(1) VoidCodec show ?thesis by (auto intro: shows_void)
  qed (use canonical_entry_values [OF entry] in \<open>auto simp: integer_entry_def array_entry_def enum_entry_def\<close>)
qed

section \<open>The loop over the names\<close>

text \<open>The order of the table: a dependency comes before the types that refer to it.\<close>

fun in_order :: "platform \<Rightarrow> string set \<Rightarrow> string list \<Rightarrow> bool" where
  "in_order pf seen [] = True"
| "in_order pf seen (n # ns) \<longleftrightarrow>
     (case canonical_entry pf n of None \<Rightarrow> False | Some (d, ds, cd) \<Rightarrow> set ds \<subseteq> seen) \<and> in_order pf (insert n seen) ns"

lemma canonical_in_order: "in_order pf {} (canonical_names pf)"
  by (simp add: canonical_names_def canonical_entry_def integer_entry_def array_entry_def enum_entry_def)

lemma canonical_distinct: "distinct (canonical_names pf)"
  by (simp add: canonical_names_def)

text \<open>The names done so far have their canonical definitions in the registry.\<close>

definition canonical_binding :: "platform \<Rightarrow> string \<Rightarrow> codec_object type_binding \<Rightarrow> bool" where
  "canonical_binding pf n b \<longleftrightarrow> (\<exists>d ds cd. canonical_entry pf n = Some (d, ds, cd)
     \<and> bound b = normalized (canonical_registration n d ds) \<and> bound_codec b = Some cd)"

definition canonical_done ::
  "('w, codec_object) type_slots \<Rightarrow> platform \<Rightarrow> string set \<Rightarrow> codec_object registry \<Rightarrow> bool" where
  "canonical_done api pf seen st \<longleftrightarrow>
     (\<forall>u \<in> seen. \<exists>b. map_of (catalog_types (published api (registrations st))) u = Some b \<and> canonical_binding pf u b)"

lemma done_types:
  "canonical_done api pf seen st \<Longrightarrow> u \<in> seen \<Longrightarrow> types_of api (registrations st) u = canonical_definition pf u"
  by (fastforce simp: canonical_done_def canonical_binding_def types_of_def canonical_definition_def)

text \<open>A free type object of RTT for each name still to be registered.\<close>

definition free_types ::
  "('w, codec_object) type_slots \<Rightarrow> (string \<Rightarrow> nat option) \<Rightarrow> nat set \<Rightarrow> 'w \<Rightarrow> codec_object registry \<Rightarrow> string list \<Rightarrow> bool" where
  "free_types api types T w st names \<longleftrightarrow>
     (\<forall>n \<in> set names. \<exists>t. types n = Some t \<and> t \<in> T \<and> getTypeName api t = n
        \<and> getProtocol api w t = None \<and> map_of (registrations st) t = None)"

definition constructible :: "platform \<Rightarrow> json_lib \<Rightarrow> nat \<Rightarrow> bool" where
  "constructible pf lib store \<longleftrightarrow> (\<forall>n d ds cd. canonical_entry pf n = Some (d, ds, cd) \<longrightarrow>
     fingerprint_of lib store (normalized (canonical_registration n d ds)) \<noteq> None)"

lemma canonical_admitted:
  assumes "canonical_entry pf n = Some (d, ds, cd)" "getTypeName api t = n" "codec p = Some cd"
    "registration p = normalized (canonical_registration n d ds)"
  shows "admitted api t p"
proof -
  have "n \<in> set (canonical_names pf)" using assms(1) canonical_entry_names [of pf n] by simp
  with canonical_described [OF assms(1)] canonical_name [of n pf] canonical_identities [of True]
  have "validateRegistration (normalized (canonical_registration n d ds)) = Inr ()"
    by (simp add: validate_normalized canonical_registration_def)
  with assms show ?thesis by (simp add: admitted_def canonical_registration_def)
qed

lemma canonical_kind:
  assumes "canonical_entry pf n = Some (d, ds, cd)" "u \<in> set ds"
    "kind_at (normalized (canonical_registration n d ds)) = Some (JString ''enum'')"
  shows "u = ''Int32''"
  using assms canonical_entry_values [OF assms(1)]
  by (auto simp: kind_at_def member_normalized canonical_registration_def integer_entry_def array_entry_def
      arrayDescriptor_def enum_entry_def integerDescriptor_def)

lemma done_present:
  assumes "sound_registry api T w st" "inj_on (getTypeName api) T" "canonical_done api pf seen st" "u \<in> seen"
  shows "map_of (catalog_types (published api (registrations st))) u \<noteq> None"
    and "u = ''Int32'' \<Longrightarrow> kind_of (catalog_types (published api (registrations st))) u = Some (JString ''integer'')"
proof -
  from assms(3,4) obtain b where b: "map_of (catalog_types (published api (registrations st))) u = Some b"
    "canonical_definition pf u = Some (descriptor (bound b))"
    by (fastforce simp: canonical_done_def canonical_binding_def canonical_definition_def)
  then show "map_of (catalog_types (published api (registrations st))) u \<noteq> None" by simp
  assume u: "u = ''Int32''"
  have "member (descriptor (bound b)) ''kind'' = Some (JString ''integer'')"
    using canonical_scalar_shapes(1) [OF b(2) [unfolded u]] by (simp add: integer_shape_def)
  with b show "kind_of (catalog_types (published api (registrations st))) u = Some (JString ''integer'')"
    by (simp add: kind_of_def kind_at_def)
qed

lemma canonical_step:
  assumes contract: "slot_contract api" "inj_on (getTypeName api) T" "constructible pf lib store"
    and sound: "sound_registry api T w st" "canonical_done api pf seen st"
    and free: "types n = Some t" "t \<in> T" "getTypeName api t = n" "getProtocol api w t = None"
      "map_of (registrations st) t = None"
    and entry: "canonical_entry pf n = Some (d, ds, cd)" "set ds \<subseteq> seen" "n \<notin> seen"
  shows "\<exists>w' p. registerCanonicalTypeProtocol api pf lib store addr n (types n) w st =
      (Accepted, w', st\<lparr>registrations := map_emplace t p (registrations st)\<rparr>)
    \<and> (\<forall>u. getProtocol api w' u = (if u = t then Some (Http p) else getProtocol api w u))
    \<and> sound_registry api T w' (st\<lparr>registrations := map_emplace t p (registrations st)\<rparr>)
    \<and> canonical_done api pf (insert n seen) (st\<lparr>registrations := map_emplace t p (registrations st)\<rparr>)"
proof -
  let ?r = "canonical_registration n d ds"
  from contract(3) entry(1) obtain digest where "fingerprint_of lib store (normalized ?r) = Some digest"
    by (fastforce simp: constructible_def)
  then obtain p where p: "canonicalProtocol pf lib store addr n = Some (Some p)" "codec p = Some cd"
    "registration p = normalized ?r"
    by (auto simp: canonicalProtocol_def entry(1) make_protocol_def)
  have adm: "admitted api t p" using entry(1) free(3) p(2,3) by (rule canonical_admitted)
  from slot_contractD [OF contract(1) free(4), of "Http p"] obtain w' where w': "addProtocol api t (Http p) w = (Some True, w')"
    "\<And>u. getProtocol api w' u = (if u = t then Some (Http p) else getProtocol api w u)" by blast
  have "\<not> frozen st" "ordered (registrations st)" using sound(1) by (simp_all add: sound_registry_def)
  then have "registerTypeProtocol api (Some t) (Some p) w st =
      (Accepted, w', st\<lparr>registrations := map_emplace t p (registrations st)\<rparr>)"
    using adm free(4,5) w'(1) by (intro register_fresh) (simp_all add: admitted_def)
  then have run: "registerCanonicalTypeProtocol api pf lib store addr n (types n) w st =
      (Accepted, w', st\<lparr>registrations := map_emplace t p (registrations st)\<rparr>)"
    by (simp add: registerCanonicalTypeProtocol_def p(1) free(1))
  have def_n: "canonical_definition pf n = Some (descriptor (registration p))"
    by (simp add: canonical_definition_def entry(1) p(3))
  note present = done_present [OF sound(1) contract(2) sound(2)]
  have deps: "set (dependencies (registration p)) = set ds" by (simp add: p(3) canonical_registration_def)
  have ext: "sound_registry api T w' (st\<lparr>registrations := map_emplace t p (registrations st)\<rparr>)"
  proof (rule sound_extend [OF sound(1) contract(2) free(2,5) adm w'(2)])
    fix u assume u: "u \<in> set (dependencies (registration p))"
    then have "u \<in> seen" using deps entry(2) by auto
    moreover have "u = ''Int32''" if "kind_at (registration p) = Some (JString ''enum'')"
      using canonical_kind [OF entry(1), of u] u deps that p(3) by simp
    ultimately show "map_of (catalog_types (published api (registrations st))) u \<noteq> None
        \<and> (kind_at (registration p) = Some (JString ''enum'') \<longrightarrow>
             kind_of (catalog_types (published api (registrations st))) u = Some (JString ''integer''))"
      using present by blast
  next
    fix cd' assume "codec p = Some cd'"
    with p(2) have "cd' = cd" by simp
    moreover have "shows_codec ((types_of api (registrations st))(n \<mapsto> descriptor (registration p))) (getTypeName api) n cd"
    proof (rule canonical_shows [OF entry(1)])
      fix u assume "u \<in> set ds"
      with entry(2,3) done_types [OF sound(2)] show "((types_of api (registrations st))(n \<mapsto> descriptor (registration p))) u =
          canonical_definition pf u"
        by auto
    qed (simp add: def_n)
    ultimately show "shows_codec ((types_of api (registrations st))(getTypeName api t \<mapsto> descriptor (registration p)))
        (getTypeName api) (getTypeName api t) cd'" by (simp add: free(3))
  qed
  have "unique_names api (map_emplace t p (registrations st))"
    using sound_unique [OF ext contract(2)] by simp
  note more = published_extend(1) [OF this \<open>ordered (registrations st)\<close> free(5)]
  have "canonical_binding pf n (binding_of p)"
    by (simp add: canonical_binding_def entry(1) binding_of_def p(2,3))
  with sound(2) entry(3)
  have "canonical_done api pf (insert n seen) (st\<lparr>registrations := map_emplace t p (registrations st)\<rparr>)"
    by (auto simp: canonical_done_def free(3) more)
  with run w'(2) ext show ?thesis by blast
qed

lemma canonical_loop:
  assumes contract: "slot_contract api" "inj_on (getTypeName api) T" "constructible pf lib store"
  shows "sound_registry api T w st \<Longrightarrow> canonical_done api pf seen st \<Longrightarrow> in_order pf seen names \<Longrightarrow>
    distinct names \<Longrightarrow> seen \<inter> set names = {} \<Longrightarrow> free_types api types T w st names \<Longrightarrow>
    \<exists>w' st'. register_names api pf lib types store addr names w st = (Accepted, w', st')
      \<and> sound_registry api T w' st' \<and> canonical_done api pf (seen \<union> set names) st'"
proof (induction names arbitrary: seen addr w st)
  case (Cons n ns)
  from Cons.prems(6) obtain t where free: "types n = Some t" "t \<in> T" "getTypeName api t = n"
    "getProtocol api w t = None" "map_of (registrations st) t = None"
    by (auto simp: free_types_def)
  from Cons.prems(3) obtain d ds cd where entry: "canonical_entry pf n = Some (d, ds, cd)" "set ds \<subseteq> seen"
    by (auto split: option.splits)
  have "n \<notin> seen" using Cons.prems(5) by auto
  from canonical_step [where types = types and n = n, OF contract Cons.prems(1,2) free entry this, of addr] obtain w1 p where step:
    "registerCanonicalTypeProtocol api pf lib store addr n (types n) w st =
      (Accepted, w1, st\<lparr>registrations := map_emplace t p (registrations st)\<rparr>)"
    "\<forall>u. getProtocol api w1 u = (if u = t then Some (Http p) else getProtocol api w u)"
    "sound_registry api T w1 (st\<lparr>registrations := map_emplace t p (registrations st)\<rparr>)"
    "canonical_done api pf (insert n seen) (st\<lparr>registrations := map_emplace t p (registrations st)\<rparr>)" by blast
  let ?st1 = "st\<lparr>registrations := map_emplace t p (registrations st)\<rparr>"
  have "ordered (registrations st)" using Cons.prems(1) by (simp add: sound_registry_def)
  then have still: "free_types api types T w1 ?st1 ns"
    using Cons.prems(4,6) free(3) step(2) unfolding free_types_def by fastforce
  have "in_order pf (insert n seen) ns" "distinct ns" "insert n seen \<inter> set ns = {}"
    using Cons.prems(3-5) by auto
  from Cons.IH [OF step(3,4) this still, of "Suc addr"] show ?case by (simp add: step(1))
qed simp

end
