(* ===== verification/Catalog_Properties.thy ===== *)
theory Catalog_Properties
  imports Canonical_Sound
begin

text \<open>
  The properties of the prepared catalog: reflection reaches its fixpoint, preparation of a fresh
  registry succeeds, and the values that the published codecs emit conform to the published
  definitions.
\<close>

section \<open>Preparation of a fresh registry\<close>

definition fresh_process ::
  "('w, codec_object) type_slots \<Rightarrow> platform \<Rightarrow> type_repository \<Rightarrow> json_lib \<Rightarrow> nat \<Rightarrow> 'w \<Rightarrow> bool" where
  "fresh_process api pf repo lib store w \<longleftrightarrow>
     slot_contract api \<and> inj_on (getTypeName api) (ran (named_type repo)) \<and> constructible pf lib store
     \<and> free_types api (named_type repo) (ran (named_type repo)) w new_registry (canonical_names pf)"

lemma pending_in_repository: "set (pending_types api repo w st) \<subseteq> ran (named_type repo)"
  by (auto simp: pending_types_def List.map_filter_def ran_def)

lemma pending_distinct: "distinct (pending_types api repo w st)"
  by (simp add: pending_types_def)

lemma reflection_run:
  assumes "slot_contract api" "inj_on (getTypeName api) (ran (named_type repo))"
    "sound_registry api (ran (named_type repo)) w st"
  shows "\<exists>result. registerReflectedTypeProtocols api rx repo lib store addr w st = Some result
    \<and> settled_reflection api rx lib store (ran (named_type repo)) (pending_types api repo w st) st result"
  unfolding registerReflectedTypeProtocols_def
  by (rule loop_settles [OF assms(1,2,3) pending_in_repository pending_distinct]) simp_all

lemma prepared:
  assumes "fresh_process api pf repo lib store w"
  shows "\<exists>diags w' st1. prepare_catalog api pf rx repo lib store addr w new_registry =
      Some (Inr (published api (registrations st1), diags), w',
        st1\<lparr>frozen := True, catalog := Some (published api (registrations st1)), freezeError := []\<rparr>)
    \<and> sound_registry api (ran (named_type repo)) w' st1 \<and> canonical_done api pf (set (canonical_names pf)) st1"
proof -
  let ?T = "ran (named_type repo)"
  have fresh: "slot_contract api" "inj_on (getTypeName api) ?T" "constructible pf lib store"
    "free_types api (named_type repo) ?T w new_registry (canonical_names pf)"
    using assms by (simp_all add: fresh_process_def)
  have "canonical_done api pf {} new_registry" by (simp add: canonical_done_def)
  from canonical_loop [OF fresh(1-3) sound_new this canonical_in_order canonical_distinct _ fresh(4), of addr]
  obtain w1 st1 where first:
    "registerCanonicalTypeProtocols api pf lib (named_type repo) store addr w new_registry = (Accepted, w1, st1)"
    "sound_registry api ?T w1 st1" "canonical_done api pf (set (canonical_names pf)) st1"
    by (auto simp: registerCanonicalTypeProtocols_def)
  from reflection_run [OF fresh(1,2) first(2), of rx lib store "addr + length (canonical_names pf)"]
  obtain diags left w2 st2 where second:
    "registerReflectedTypeProtocols api rx repo lib store (addr + length (canonical_names pf)) w1 st1 = Some (diags, left, w2, st2)"
    "sound_registry api ?T w2 st2" "map_of (registrations st1) \<subseteq>\<^sub>m map_of (registrations st2)"
    by (auto simp: settled_reflection_def)
  have "canonical_done api pf (set (canonical_names pf)) st2"
    unfolding canonical_done_def
  proof
    fix u assume "u \<in> set (canonical_names pf)"
    with first(3) obtain b where b: "map_of (catalog_types (published api (registrations st1))) u = Some b"
      "canonical_binding pf u b" by (auto simp: canonical_done_def)
    then obtain t p where "(t, p) \<in> set (registrations st1)" and tp: "u = getTypeName api t" "b = binding_of p"
      using published_mem [OF sound_unique [OF first(2) fresh(2)]] by blast
    then have "map_of (registrations st1) t = Some p"
      using first(2) by (simp add: sound_registry_def ordered_mem)
    then have "(t, p) \<in> set (registrations st2)"
      using map_le_Some [OF second(3)] by (auto dest: map_of_SomeD)
    with tp published_mem [OF sound_unique [OF second(2) fresh(2)], of u b]
    have "map_of (catalog_types (published api (registrations st2))) u = Some b" by blast
    with b(2) show "\<exists>b. map_of (catalog_types (published api (registrations st2))) u = Some b \<and> canonical_binding pf u b"
      by blast
  qed
  with second(2) first(1) second(1) sound_freezes [OF second(2)] show ?thesis
    by (intro exI [of _ diags] exI [of _ w2] exI [of _ st2])
      (simp add: prepare_catalog_def freeze_prepared_def new_registry_def)
qed

section \<open>A small process\<close>

text \<open>
  The canonical types, numbered as in the table, and a structure \<open>Point\<close>, the type 100, whose one
  member \<open>x\<close> has the type \<open>Int32\<close>, the type 5.
\<close>

definition small_platform :: platform where
  "small_platform = \<lparr>char_signed = True, rt_malloc = False\<rparr>"

definition small_repository :: type_repository where
  "small_repository = \<lparr>named_type = map_of ((''Point'', 100) # zip (canonical_names small_platform) [0..<20]),
     type_names = ''Point'' # canonical_names small_platform\<rparr>"

definition small_slots :: "(nat \<Rightarrow> codec_object occupant option, codec_object) type_slots" where
  "small_slots =
     \<lparr>getTypeName = (\<lambda>t. if t = 100 then ''Point'' else if t < 20 then canonical_names small_platform ! t else ''unknown_t''),
      getProtocol = (\<lambda>w t. w t),
      addProtocol = (\<lambda>t occ w. case w t of None \<Rightarrow> (Some True, w(t := Some occ)) | Some old \<Rightarrow> (Some False, w))\<rparr>"

definition small_printer :: json_lib where
  "small_printer = \<lparr>tokenize = (\<lambda>c t. None), parse_document = (\<lambda>c t. None), walk_fits = (\<lambda>c v. True),
     serialize_parts = (\<lambda>c v. Some [''{}''])\<rparr>"

definition small_reflection :: rtt_reflection where
  "small_reflection =
     \<lparr>has_members = (\<lambda>t. t = 100), prototype = (\<lambda>t. Inr (Some True)), first_element = (\<lambda>t. Inr None),
      named_part = (\<lambda>t name. Inr (if name = ''x'' then Some \<lparr>part_type = Some 5, part_assignable = True, part_int = None\<rparr>
        else None)),
      can_resize = (\<lambda>t. Inr False), member_names = (\<lambda>t. Inr [''x''])\<rparr>"

lemma small_contract: "slot_contract small_slots"
  by (auto simp: slot_contract_def small_slots_def)

lemma small_names: "inj_on (getTypeName small_slots) (ran (named_type small_repository))"
proof -
  have "ran (named_type small_repository) \<subseteq> set (100 # [0..<20])"
    by (auto simp: small_repository_def ran_def dest!: map_of_SomeD set_zip_rightD)
  moreover have "distinct (map (getTypeName small_slots) (100 # [0..<20]))"
    by code_simp
  then have "inj_on (getTypeName small_slots) (set (100 # [0..<20]))"
    by (simp only: distinct_map)
  ultimately show ?thesis by (rule inj_on_subset [rotated])
qed

text \<open>Documents of valid text without numbers in floating point, nested at most \<open>d\<close> deep.\<close>

fun tidy :: "nat \<Rightarrow> json \<Rightarrow> bool" where
  "tidy d (JString t) = validUtf8 t"
| "tidy d (JDouble x) = False"
| "tidy 0 (JArray xs) = False"
| "tidy (Suc d) (JArray xs) = list_all (tidy d) xs"
| "tidy 0 (JObject ms) = False"
| "tidy (Suc d) (JObject ms) = list_all (\<lambda>(k, x). validUtf8 k \<and> tidy d x) ms"
| "tidy d v = True"

lemma tidy_defect:
  "tidy d j \<Longrightarrow> defect d j = None"
  "list_all (tidy d) xs \<Longrightarrow> defect_items d xs = None"
  "list_all (\<lambda>(k, x). validUtf8 k \<and> tidy d x) ms \<Longrightarrow> defect_members d ms = None"
  by (induction d j and d xs and d ms rule: defect_defect_items_defect_members.induct) auto

lemma tidy_canonical: "tidy d j \<Longrightarrow> tidy d (canonicalJson j)"
proof (induction j arbitrary: d rule: canonicalJson.induct)
  case (1 ms)
  then show ?case using set_build [of ms] by (cases d) (fastforce simp: list_all_iff)+
next
  case (2 xs)
  then show ?case by (cases d) (auto simp: list_all_iff)
qed auto

lemma tidy_update:
  "list_all (\<lambda>(k, x). validUtf8 k \<and> tidy d x) ms \<Longrightarrow> validUtf8 k \<Longrightarrow> tidy d x \<Longrightarrow>
     list_all (\<lambda>(k, x). validUtf8 k \<and> tidy d x) (AList.update k x ms)"
  by (induction ms) auto

lemma table_words:
  "list_all validUtf8 [''kind'', ''bits'', ''signed'', ''encoding'', ''nonFinite'', ''elementType'', ''length'',
     ''underlyingType'', ''boolean'', ''void'', ''integer'', ''float'', ''string'', ''array'', ''enum'', ''number'',
     ''decimalString'', ''utf8'', ''NaN'', ''Infinity'', ''-Infinity'', ''Float64'', ''Int32'', ''String'',
     ''jsonSupported'', ''reason'', ''orocos.rtt.http'', ''1'']"
  by code_simp

lemma canonical_tidy:
  assumes "canonical_entry pf n = Some (d, ds, cd)"
  shows "list_all (\<lambda>(k, x). validUtf8 k \<and> tidy (Suc e) x) d \<and> list_all validUtf8 ds"
  using canonical_entry_values [OF assms] table_words
  by (auto simp: integer_entry_def array_entry_def enum_entry_def integerDescriptor_def floatDescriptor_def
      stringDescriptor_def arrayDescriptor_def enumDescriptor_def simp del: validUtf8.simps)

lemma small_serializes: "tidy 32 v \<Longrightarrow> maxDepth (limits c) = 32 \<Longrightarrow> 2 \<le> maxDocumentBytes (limits c) \<Longrightarrow>
    serializeJson small_printer v c (Some old) = (Ok (), Some ''{}'')"
  by (simp add: serializeJson_def small_printer_def validateOutput_defect tidy_defect(1))

lemma small_fingerprint:
  assumes members: "\<And>e. list_all (\<lambda>(k, x). validUtf8 k \<and> tidy (Suc (Suc e)) x) (descriptor r)"
    and names: "list_all validUtf8 (providerId r # providerVersion r # codecId r # codecVersion r # rttType r # dependencies r)"
  shows "fingerprint_of small_printer 1 (normalized r) \<noteq> None"
proof -
  let ?r = "normalized r"
  have desc: "tidy (Suc (Suc (Suc e))) (JObject (descriptor ?r))" for e
    using members [of e] table_words by (simp add: normalized_def tidy_update del: validUtf8.simps)
  have "list_all validUtf8 (dependencies ?r)" using names by (auto simp: list_all_iff simp del: validUtf8.simps)
  then have deps: "tidy (Suc e) (JArray (map JString (dependencies ?r)))" for e
    by (simp add: list_all_iff del: validUtf8.simps)
  have ids: "list_all validUtf8 [providerId ?r, providerVersion ?r, codecId ?r, codecVersion ?r, rttType ?r]"
    using names by (simp add: normalized_def del: validUtf8.simps)
  have doc: "tidy (Suc (Suc (Suc (Suc e)))) (identity_document ?r)" for e
    unfolding identity_document_def using ids deps tidy_canonical [OF desc [of e]]
    by (simp del: validUtf8.simps canonicalJson.simps)
  have depth: "(32 :: nat) = Suc (Suc (Suc 29))" "(32 :: nat) = Suc (Suc (Suc (Suc 28)))" by simp_all
  from desc [of 29, folded depth(1)] doc [of 28, folded depth(2)] show ?thesis
    by (simp add: fingerprint_of_def make_context_def fingerprint_limits_def small_serializes)
qed

lemma small_constructible: "constructible small_platform small_printer 1"
  unfolding constructible_def
proof (intro allI impI)
  fix n d ds cd assume entry: "canonical_entry small_platform n = Some (d, ds, cd)"
  have "n \<in> set (canonical_names small_platform)" using entry canonical_entry_names [of small_platform n] by simp
  from canonical_name [OF this] have name: "validUtf8 n" by (simp add: identity_name_def)
  show "fingerprint_of small_printer 1 (normalized (canonical_registration n d ds)) \<noteq> None"
    using canonical_tidy [OF entry, of "Suc _"] name table_words
    by (intro small_fingerprint) (simp_all add: canonical_registration_def del: validUtf8.simps)
qed

lemma small_fresh: "fresh_process small_slots small_platform small_repository small_printer 1 (\<lambda>t. None)"
proof -
  have "list_all (\<lambda>n. case named_type small_repository n of None \<Rightarrow> False
      | Some t \<Rightarrow> getTypeName small_slots t = n) (canonical_names small_platform)"
    by code_simp
  moreover have free: "getProtocol small_slots (\<lambda>t. None) t = None" for t by (simp add: small_slots_def)
  ultimately have "free_types small_slots (named_type small_repository) (ran (named_type small_repository)) (\<lambda>t. None)
      new_registry (canonical_names small_platform)"
    by (fastforce simp: free_types_def list_all_iff new_registry_def ranI free split: option.splits)
  with small_contract small_names small_constructible show ?thesis by (simp add: fresh_process_def)
qed

definition small_views :: "(nat \<Rightarrow> cpp_value, nat) rtt_sources" where
  "small_views = small_rtt\<lparr>source_view := (\<lambda>t w s.
     \<lparr>content = (if holds_type t (w s) then Some (w s) else None), evaluates = True, writable = True\<rparr>)\<rparr>"

lemma small_views_typed: "typed_views small_views" "others_ok small_views"
  using small_others by (auto simp: typed_views_def small_views_def others_ok_def)

section \<open>Properties of the prepared catalog\<close>

text \<open>
  C4: on a registry whose definitions are sound, registration by reflection always returns, after
  finitely many passes; every type that was pending is then registered or still pending, the
  types still pending have exactly one diagnostic each, and it is the message with which the
  final registry refuses that very type: no order of the types could have registered more.
\<close>

theorem reflection_settles:
  assumes "slot_contract api" "inj_on (getTypeName api) (ran (named_type repo))"
    "sound_registry api (ran (named_type repo)) w st"
  shows "\<exists>unresolved left w' st'.
    registerReflectedTypeProtocols api rx repo lib store addr w st = Some (unresolved, left, w', st')
    \<and> fst ` set unresolved = getTypeName api ` set left
    \<and> (\<forall>t \<in> set (pending_types api repo w st). t \<in> set left \<or> registeredTypeCodec api w' st' (Some t) \<noteq> None)
    \<and> (\<forall>t \<in> set left. \<exists>e. map_of unresolved (getTypeName api t) = Some e
         \<and> refused_with api rx lib store t w' st' e)"
proof -
  from reflection_run [OF assms, of rx lib store addr] obtain unresolved left w' st' where run:
    "registerReflectedTypeProtocols api rx repo lib store addr w st = Some (unresolved, left, w', st')"
    and outcome: "settled_reflection api rx lib store (ran (named_type repo)) (pending_types api repo w st) st
      (unresolved, left, w', st')"
    by (metis prod_cases4)
  have sound: "sound_registry api (ran (named_type repo)) w' st'"
    using outcome by (simp add: settled_reflection_def)
  have "registeredTypeCodec api w' st' (Some t) \<noteq> None" if "known st' t" for t
  proof -
    from that obtain q where "map_of (registrations st') t = Some q" by (auto simp: known_def)
    from sound_registered [OF sound this] show ?thesis by simp
  qed
  with outcome have "\<forall>t \<in> set (pending_types api repo w st). t \<in> set left \<or> registeredTypeCodec api w' st' (Some t) \<noteq> None"
    unfolding settled_reflection_def split_conv by blast
  with outcome run show ?thesis
    unfolding settled_reflection_def split_conv by (elim conjE, intro exI conjI)
qed

lemma reflection_settles_witness:
  "\<exists>unresolved left w' st'.
    registerReflectedTypeProtocols small_slots small_reflection small_repository small_printer 1 0 (\<lambda>t. None) new_registry
      = Some (unresolved, left, w', st')
    \<and> fst ` set unresolved = getTypeName small_slots ` set left"
  using reflection_settles [OF small_contract small_names sound_new, of small_reflection small_printer 1 0] by blast

text \<open>
  C3: in a fresh process \<open>start\<close> gets its catalog: whatever types reflection finds, no dependency is
  left dangling, no definition is recursive, the freeze succeeds, and every canonical name has
  its canonical definition and codec in the catalog.
\<close>

theorem preparation_succeeds:
  assumes "fresh_process api pf repo lib store w"
  shows "\<exists>cat diags w' st'. prepare_catalog api pf rx repo lib store addr w new_registry = Some (Inr (cat, diags), w', st')
    \<and> frozen st' \<and> catalog st' = Some cat \<and> well_founded_types (catalog_types cat)
    \<and> list_all (\<lambda>n. \<exists>b. find_name cat n = Some b \<and> canonical_binding pf n b) (canonical_names pf)"
proof -
  from prepared [OF assms] obtain diags w' st1 where run:
    "prepare_catalog api pf rx repo lib store addr w new_registry =
      Some (Inr (published api (registrations st1), diags), w',
        st1\<lparr>frozen := True, catalog := Some (published api (registrations st1)), freezeError := []\<rparr>)"
    and sound: "sound_registry api (ran (named_type repo)) w' st1"
    and table: "canonical_done api pf (set (canonical_names pf)) st1" by blast
  have "well_founded_types (catalog_types (published api (registrations st1)))"
    using sound by (simp add: sound_registry_def)
  with run table show ?thesis
    by (auto simp: canonical_done_def list_all_iff find_name_def)
qed

lemma preparation_succeeds_witness:
  "\<exists>cat diags w' st'. prepare_catalog small_slots small_platform small_reflection small_repository small_printer 1 0
      (\<lambda>t. None) new_registry = Some (Inr (cat, diags), w', st')
    \<and> (\<exists>b. find_name cat ''TaskState'' = Some b)"
proof -
  have "''TaskState'' \<in> set (canonical_names small_platform)" by (simp add: canonical_names_def)
  then show ?thesis
    using preparation_succeeds [OF small_fresh, of small_reflection 0] by (fastforce simp: list_all_iff)
qed

lemma small_int32:
  obtains cat diags w' st' b where
    "prepare_catalog small_slots small_platform small_reflection small_repository small_printer 1 0 (\<lambda>t. None) new_registry =
      Some (Inr (cat, diags), w', st')"
    "find_name cat ''Int32'' = Some b" "bound_codec b = Some (TypedCodec (IntType (int_of 32 True)))"
proof -
  from prepared [OF small_fresh, of small_reflection 0] obtain diags w' st1 where run:
    "prepare_catalog small_slots small_platform small_reflection small_repository small_printer 1 0 (\<lambda>t. None) new_registry =
      Some (Inr (published small_slots (registrations st1), diags), w',
        st1\<lparr>frozen := True, catalog := Some (published small_slots (registrations st1)), freezeError := []\<rparr>)"
    and table: "canonical_done small_slots small_platform (set (canonical_names small_platform)) st1" by blast
  have "''Int32'' \<in> set (canonical_names small_platform)" by (simp add: canonical_names_def)
  with table obtain b where b: "find_name (published small_slots (registrations st1)) ''Int32'' = Some b"
    "bound_codec b = Some (TypedCodec (IntType (int_of 32 True)))"
    by (auto simp: canonical_done_def canonical_binding_def find_name_def dependency_entries integer_entry_def)
  from that [OF run b] show ?thesis .
qed

lemma emitted_conforms:
  assumes "fresh_process api pf repo lib store w" "others_ok rtt" "typed_views rtt"
    and "prepare_catalog api pf rx repo lib store addr w new_registry = Some (Inr (cat, diags), w', st')"
    and "find_name cat n = Some b" "bound_codec b = Some cd"
    and "toJson rtt v cd src result c = (Ok u, Some (resource, j), c')"
  shows "conforms (\<lambda>m. map_option (\<lambda>b. descriptor (bound b)) (find_name cat m)) n j"
proof -
  from prepared [OF assms(1), of rx addr] assms(4) obtain st1 where cat: "cat = published api (registrations st1)"
    and sound: "sound_registry api (ran (named_type repo)) w' st1" by auto
  have names: "inj_on (getTypeName api) (ran (named_type repo))" using assms(1) by (simp add: fresh_process_def)
  from assms(5) obtain t p where tp: "(t, p) \<in> set (registrations st1)" "n = getTypeName api t" "b = binding_of p"
    using published_mem [OF sound_unique [OF sound names]] by (auto simp: cat find_name_def)
  with assms(6) sound have "shows_codec (types_of api (registrations st1)) (getTypeName api) n cd"
    by (auto simp: sound_registry_def shown_def binding_of_def)
  from codec_truthful [OF assms(2,3) this, of v] assms(7)
  have "conforms (types_of api (registrations st1)) n j"
    unfolding truthful_def emits_def by blast
  moreover have "types_of api (registrations st1) = (\<lambda>m. map_option (\<lambda>b. descriptor (bound b)) (find_name cat m))"
    by (rule ext) (simp add: types_of_def find_name_def cat)
  ultimately show ?thesis by simp
qed

text \<open>
  C1: the type documents tell the truth.  In the catalog that a fresh process prepares, whatever
  JSON the codec of a type emits, for any content of RTT's sources, conforms to the definition
  that the catalog publishes for the type: integers within their width and in the announced
  encoding, floats in their format, objects with exactly the announced members, arrays of the
  announced length, all the way down through the referenced definitions.
\<close>

theorem published_values_conform:
  assumes "fresh_process api pf repo lib store w" "others_ok rtt" "typed_views rtt"
    and "prepare_catalog api pf rx repo lib store addr w new_registry = Some (Inr (cat, diags), w', st')"
    and "find_name cat n = Some b" "bound_codec b = Some cd"
    and "toJson rtt v cd src result c = (Ok u, Some (resource, j), c')"
  shows "conforms (\<lambda>m. map_option (\<lambda>b. descriptor (bound b)) (find_name cat m)) n j"
  using assms by (rule emitted_conforms)

lemma published_values_conform_witness:
  "\<exists>cat :: codec_object type_catalog. conforms (\<lambda>m. map_option (\<lambda>b. descriptor (bound b)) (find_name cat m)) ''Int32'' (JInt64 7)"
proof -
  obtain cat diags w' st' b where run:
    "prepare_catalog small_slots small_platform small_reflection small_repository small_printer 1 0 (\<lambda>t. None) new_registry =
      Some (Inr (cat, diags), w', st')"
    and b: "find_name cat ''Int32'' = Some b" "bound_codec b = Some (TypedCodec (IntType (int_of 32 True)))"
    by (rule small_int32)
  have "toJson small_views (\<lambda>s. VInt 7) (TypedCodec (IntType (int_of 32 True))) (Some 1) (Some (1, JNull)) roomy_context =
      (Ok (), Some (1, JInt64 7), roomy_context\<lparr>remaining := 99\<rparr>)"
    by code_simp
  from published_values_conform [OF small_fresh small_views_typed(2,1) run b this] show ?thesis by blast
qed

section \<open>Which reflected definitions are accepted\<close>

definition codec_names :: "('w, codec_object) type_slots \<Rightarrow> codec_object \<Rightarrow> string list" where
  "codec_names api cd =
     (case cd of
        SequenceCodec ty len ety ecd rd \<Rightarrow> [getTypeName api ety]
      | StructureCodec ty ms rd \<Rightarrow> map fst ms @ map (\<lambda>(name, mty, mcd). getTypeName api mty) ms
      | _ \<Rightarrow> [])"

text \<open>\<open>int\<close> has 32 bits.\<close>

definition int_parts :: "rtt_reflection \<Rightarrow> bool" where
  "int_parts rx \<longleftrightarrow> (\<forall>t name v i. named_part rx t name = Inr (Some v) \<longrightarrow> part_int v = Some i \<longrightarrow> i \<le> 2147483647)"

lemma sequence_length_bound:
  assumes "int_parts rx" "sequence_length rx t = Inr (Some n)"
  shows "n \<le> 2147483647"
proof -
  from assms(2) obtain src where src: "named_part rx t ''size'' = Inr src"
    "(case Option.bind src part_int of
       None \<Rightarrow> Inl ''RTT sequence has no valid size metadata''
     | Some count \<Rightarrow>
         if count < 0 then Inl ''RTT sequence has no valid size metadata''
         else probing (can_resize rx t) (\<lambda>ok. Inr (if ok then None else Some (nat count)))) = Inr (Some n)"
    by (auto simp: sequence_length_def)
  then obtain i where i: "Option.bind src part_int = Some i" by (cases "Option.bind src part_int") auto
  with src(2) have "n = nat i" by (auto split: if_split_asm)
  from i obtain v where "src = Some v" "part_int v = Some i" by (auto simp: bind_eq_Some_conv)
  with src(1) assms(1) have "i \<le> 2147483647" unfolding int_parts_def by blast
  with \<open>n = nat i\<close> show ?thesis by simp
qed

lemma sint_small: "n \<le> 2147483647 \<Longrightarrow> 0 \<le> sint (word_of_nat n :: u64)"
  by (simp add: signed_of_nat signed_take_bit_int_eq_self)

lemma describes_sequence:
  assumes "\<And>n. len = Some n \<Longrightarrow> n \<le> 2147483647"
  shows "describes (sequence_descriptor e len) refs \<longleftrightarrow> identity_name e \<and> refs = {e}"
  using assms by (cases len) (auto simp: describes_iff sequence_descriptor_def sint_small)

lemma check_field_list:
  "check_fields refs seen (map (\<lambda>(name, t). field_of name t) fs) = Inr result \<longleftrightarrow>
     list_all identity_name (map fst fs) \<and> list_all identity_name (map snd fs) \<and> distinct (map fst fs)
     \<and> set (map fst fs) \<inter> seen = {} \<and> result = refs \<union> set (map snd fs)"
proof (induction fs arbitrary: refs seen)
  case Nil
  show ?case by auto
next
  case (Cons x fs)
  obtain name t where x: "x = (name, t)" by (cases x)
  have "hasString [(''name'', JString name), (''rttType'', JString t)] ''name'' = (if identity_name name then Some name else None)"
    "hasString [(''name'', JString name), (''rttType'', JString t)] ''rttType'' = (if identity_name t then Some t else None)"
    by (simp_all add: hasString_def)
  then have "check_fields refs seen (map (\<lambda>(name, t). field_of name t) (x # fs)) =
      (if identity_name name \<and> identity_name t \<and> name \<notin> seen
       then check_fields (insert t refs) (insert name seen) (map (\<lambda>(name, t). field_of name t) fs)
       else Inl ''invalid HTTP object field descriptor'')"
    by (simp add: x field_of_def addReference_def)
  with Cons.IH [of "insert t refs" "insert name seen"] show ?case by (auto simp: x)
qed

lemma describes_structure:
  assumes "distinct (map fst fs)"
  shows "describes (structure_descriptor fs) refs \<longleftrightarrow>
    list_all identity_name (map fst fs @ map snd fs) \<and> refs = set (map snd fs)"
proof -
  have "hasString (structure_descriptor fs) ''kind'' = Some ''object''"
    by (simp add: structure_descriptor_def)
  moreover have "member (structure_descriptor fs) ''fields'' = Some (JArray (map (\<lambda>(name, t). field_of name t) fs))"
    by (simp add: structure_descriptor_def field_of_def)
  ultimately have "check_descriptor (structure_descriptor fs) = check_fields {} {} (map (\<lambda>(name, t). field_of name t) fs)"
    by (simp add: check_descriptor_def)
  with assms show ?thesis
    by (auto simp: check_descriptor_describes [symmetric] check_field_list)
qed

text \<open>
  C27: a protocol made by reflection is accepted by registration exactly when its identity and
  the names it publishes (of its fields and of the types it refers to) are well-formed names:
  the descriptor, its dependencies and its length are always consistent.
\<close>

theorem reflected_definition_accepted:
  assumes "makeReflectedTypeProtocol api rx lib store addr (Some t) identity rd w st = Inr p" "int_parts rx"
  shows "validateRegistration (registration p) = Inr () \<longleftrightarrow>
    list_all identity_name ([providerId identity, providerVersion identity, codecId identity, codecVersion identity,
      getTypeName api t] @ (case codec p of None \<Rightarrow> [] | Some cd \<Rightarrow> codec_names api cd))"
proof -
  from makeReflected_Inr [OF assms(1)] obtain d ds cd where p: "reflect_type api rx w st t rd = Inr (d, ds, cd)"
    "codec p = Some cd"
    "registration p = normalized (identity\<lparr>rttType := getTypeName api t, descriptor := d, dependencies := ds\<rparr>)" by blast
  have "describes d (set ds) \<longleftrightarrow> list_all identity_name (codec_names api cd)"
    using reflect_type_Inr [OF p(1)]
  proof (elim disjE exE conjE)
    fix ety ecd len
    assume seq: "d = sequence_descriptor (getTypeName api ety) len" "ds = [getTypeName api ety]"
      "cd = SequenceCodec t len ety ecd rd" "sequence_length rx t = Inr len"
    have "n \<le> 2147483647" if "len = Some n" for n
      using seq(4) assms(2) that by (auto intro: sequence_length_bound)
    with seq show ?thesis by (simp add: describes_sequence codec_names_def)
  next
    fix ms
    assume struct: "distinct (map fst ms)" "d = structure_descriptor (map (\<lambda>(name, mty, cd). (name, getTypeName api mty)) ms)"
      "set ds = (\<lambda>x. getTypeName api (fst (snd x))) ` set ms" "cd = StructureCodec t ms rd"
    let ?fs = "map (\<lambda>(name, mty, cd). (name, getTypeName api mty)) ms"
    have fs: "map fst ?fs = map fst ms" "map snd ?fs = map (\<lambda>(name, mty, mcd). getTypeName api mty) ms"
      "set (map snd ?fs) = set ds"
      by (simp_all add: struct(3) case_prod_beta image_image comp_def)
    from describes_structure [of ?fs "set ds", unfolded fs(1,2)] struct(1) fs(3) [unfolded fs(2)]
    have "describes (structure_descriptor ?fs) (set ds) \<longleftrightarrow>
        list_all identity_name (map fst ms @ map (\<lambda>(name, mty, mcd). getTypeName api mty) ms)" by blast
    then show ?thesis unfolding struct(2,4) by (simp add: codec_names_def)
  qed
  then show ?thesis by (simp add: p(2,3) validate_normalized)
qed

definition point_registry :: "codec_object registry" where
  "point_registry = new_registry\<lparr>registrations := [(5, \<lparr>address = 1,
     registration = canonical_registration ''Int32'' (integerDescriptor (int_of 32 True)) [],
     fingerprint = [], codec = Some (TypedCodec (IntType (int_of 32 True)))\<rparr>)]\<rparr>"

definition point_slots :: "nat \<Rightarrow> codec_object occupant option" where
  "point_slots t = map_option Http (map_of (registrations point_registry) t)"

lemma reflected_definition_accepted_witness:
  "\<exists>p. makeReflectedTypeProtocol small_slots small_reflection small_printer 1 2 (Some 100) (reflected_identity ''Point'')
      None point_slots point_registry = Inr p
    \<and> codec p = Some (StructureCodec 100 [(''x'', 5, TypedCodec (IntType (int_of 32 True)))] None)
    \<and> validateRegistration (registration p) = Inr ()"
proof -
  have refl: "reflect_type small_slots small_reflection point_slots point_registry 100 None =
      Inr (structure_descriptor [(''x'', ''Int32'')], [''Int32''],
        StructureCodec 100 [(''x'', 5, TypedCodec (IntType (int_of 32 True)))] None)"
    by code_simp
  have types: "getTypeName small_slots 100 = ''Point''" "getTypeName small_slots 5 = ''Int32''"
    by (simp_all add: small_slots_def small_platform_def canonical_names_def)
  have names: "list_all identity_name [''orocos.rtt.http.reflection'', ''1'', ''Point'', ''x'', ''Int32'']"
    "list_all validUtf8 [''orocos.rtt.http.reflection'', ''1'', ''Point'', ''x'', ''Int32'', ''object'', ''fields'', ''name'', ''rttType'']"
    by code_simp+
  let ?r = "(reflected_identity ''Point'')\<lparr>rttType := ''Point'',
    descriptor := structure_descriptor [(''x'', ''Int32'')], dependencies := [''Int32'']\<rparr>"
  have "fingerprint_of small_printer 1 (normalized ?r) \<noteq> None"
    using names(2) table_words
    by (intro small_fingerprint)
      (simp_all add: reflected_identity_def structure_descriptor_def del: validUtf8.simps)
  then obtain p where p: "makeReflectedTypeProtocol small_slots small_reflection small_printer 1 2 (Some 100)
      (reflected_identity ''Point'') None point_slots point_registry = Inr p"
    "codec p = Some (StructureCodec 100 [(''x'', 5, TypedCodec (IntType (int_of 32 True)))] None)"
    by (auto simp: makeReflectedTypeProtocol_def refl types make_protocol_def)
  have ints: "int_parts small_reflection"
    by (auto simp: int_parts_def small_reflection_def)
  from reflected_definition_accepted [OF p(1) ints] p names(1)
  show ?thesis by (auto simp: codec_names_def reflected_identity_def types)
qed

end
