(* ===== verification/Request_Syntax.thy ===== *)
theory Request_Syntax
  imports Json_Text Publication_Map
begin

text \<open>
  Requests and responses, and the small functions of \<open>server.cpp\<close> that read the one and fill
  the other: media types, allowed methods, problem documents.

  httplib is a parameter: a request carries its method, target, body and the values of each
  header (a lookup that ignores case), and \<open>status_message\<close> is its table of status texts.
\<close>

record request =
  req_method :: string
  req_target :: string
  req_header :: "string \<Rightarrow> string list"
  req_body :: string

record response =
  resp_status :: nat
  resp_allow :: "string option"
  resp_content :: "(string \<times> string) option"

text \<open>What a handler is given besides the request: the JSON library and httplib's texts.\<close>

record http_lib =
  json_of :: json_lib
  status_message :: "nat \<Rightarrow> string"

definition empty_response :: response where
  "empty_response = \<lparr>resp_status = 0, resp_allow = None, resp_content = None\<rparr>"

definition has_header :: "request \<Rightarrow> string \<Rightarrow> bool" where
  "has_header req h \<longleftrightarrow> req_header req h \<noteq> []"

definition get_header :: "request \<Rightarrow> string \<Rightarrow> string" where
  "get_header req h = (case req_header req h of [] \<Rightarrow> [] | v # _ \<Rightarrow> v)"

section \<open>Strings\<close>

definition starts_with :: "string \<Rightarrow> string \<Rightarrow> bool" where
  "starts_with s p \<longleftrightarrow> take (length p) s = p"

definition has_substring :: "string \<Rightarrow> string \<Rightarrow> bool" where
  "has_substring s p \<longleftrightarrow> list_ex (\<lambda>i. starts_with (drop i s) p) [0..<Suc (length s)]"

definition blank :: "char \<Rightarrow> bool" where
  "blank ch \<longleftrightarrow> ch = CHR '' '' \<or> ch = CHR 0x09"

definition lower :: "char \<Rightarrow> char" where
  "lower ch = (if byte CHR ''A'' \<le> byte ch \<and> byte ch \<le> byte CHR ''Z'' then char_of (byte ch + 32) else ch)"

definition lowerTrim :: "string \<Rightarrow> string" where
  "lowerTrim s = map lower (rev (dropWhile blank (rev (dropWhile blank s))))"

definition before :: "char \<Rightarrow> string \<Rightarrow> string" where
  "before ch s = takeWhile (\<lambda>x. x \<noteq> ch) s"

text \<open>\<open>find\<close> and the text after the place found.\<close>

definition after :: "char \<Rightarrow> string \<Rightarrow> string option" where
  "after ch s = (case dropWhile (\<lambda>x. x \<noteq> ch) s of [] \<Rightarrow> None | _ # rest \<Rightarrow> Some rest)"

section \<open>Media types\<close>

definition jsonMediaType :: "request \<Rightarrow> bool" where
  "jsonMediaType req =
     (if length (req_header req ''Content-Type'') \<noteq> 1 \<or> has_header req ''Content-Encoding'' then False
      else let raw = get_header req ''Content-Type'' in
        if lowerTrim (before (CHR '';'') raw) \<noteq> ''application/json'' then False
        else case after (CHR '';'') raw of
          None \<Rightarrow> True
        | Some rest \<Rightarrow>
            let parameter = lowerTrim rest in
            (case after (CHR ''='') parameter of
               None \<Rightarrow> False
             | Some v \<Rightarrow>
                 if lowerTrim (before (CHR ''='') parameter) \<noteq> ''charset'' then False
                 else lowerTrim v = ''utf-8'' \<or> lowerTrim v = [CHR 0x22] @ ''utf-8'' @ [CHR 0x22]))"

section \<open>Problems\<close>

definition suffixFor :: "nat \<Rightarrow> string" where
  "suffixFor status =
     (if status = 400 then ''invalid-request''
      else if status = 404 then ''not-found''
      else if status = 405 then ''method-not-allowed''
      else if status = 413 then ''request-too-large''
      else if status = 415 then ''unsupported-media-type''
      else if status = 422 then ''type-mismatch''
      else if status = 501 then ''json-unsupported''
      else if status = 503 then ''dispatch-unavailable''
      else if status = 504 then ''operation-timeout''
      else ''internal-error'')"

definition problem_context :: codec_context where
  "problem_context = \<lparr>limits = \<lparr>maxDocumentBytes = 4096, maxDepth = 8, maxAllocationBytes = 32768\<rparr>,
     storage = 0, depth = 0, remaining = 4096\<rparr>"

text \<open>The literal of the source: a fixed problem document.\<close>

definition quote :: "string \<Rightarrow> string" where
  "quote s = [CHR 0x22] @ s @ [CHR 0x22]"

definition fixed_problem :: string where
  "fixed_problem = ''{'' @ quote ''type'' @ '':'' @ quote ''urn:rtt-http:error:internal-error'' @ '',''
     @ quote ''title'' @ '':'' @ quote ''Internal Server Error'' @ '','' @ quote ''status'' @ '':500}''"

definition problem_body :: "http_lib \<Rightarrow> request \<Rightarrow> nat \<Rightarrow> string \<Rightarrow> json_object" where
  "problem_body lib req status suffix =
     (let body = [(''type'', JString (''urn:rtt-http:error:'' @ suffix)),
                  (''title'', JString (status_message lib status)), (''status'', JInt64 (of_nat status))];
          path = before (CHR ''?'') (req_target req) in
      if length path \<le> 512 \<and> validUtf8 path then AList.update ''instance'' (JString path) body else body)"

definition problem :: "http_lib \<Rightarrow> request \<Rightarrow> response \<Rightarrow> nat \<Rightarrow> string option \<Rightarrow> response" where
  "problem lib req resp status suffix =
     (case serializeJson (json_of lib)
         (JObject (problem_body lib req status (case suffix of Some s \<Rightarrow> s | None \<Rightarrow> suffixFor status)))
         problem_context (Some []) of
        (Ok _, Some encoded) \<Rightarrow>
          resp\<lparr>resp_status := status, resp_content := Some (''application/problem+json'', encoded)\<rparr>
      | _ \<Rightarrow>
          resp\<lparr>resp_status := 500, resp_content := Some (''application/problem+json'', fixed_problem)\<rparr>)"

section \<open>Methods and overflow\<close>

definition methodAllowed :: "'c resource \<Rightarrow> string \<Rightarrow> bool" where
  "methodAllowed r m =
     (if m = ''OPTIONS'' then True
      else if m = ''GET'' \<or> m = ''HEAD'' then starts_with (res_allow r) ''GET''
      else if m = ''PUT'' then has_substring (res_allow r) ''PUT''
      else m = ''POST'' \<and> starts_with (res_allow r) ''POST'')"

definition responseOverflow :: "codec_error option \<Rightarrow> bool" where
  "responseOverflow e \<longleftrightarrow> failure_code e = DocumentLimit \<or> failure_code e = AllocationLimit"

section \<open>Facts\<close>

lemma problem_status: "resp_status (problem lib req resp status suffix) \<in> {status, 500}"
  by (auto simp: problem_def split: prod.splits res.splits option.splits)

lemma problem_allow [simp]: "resp_allow (problem lib req resp status suffix) = resp_allow resp"
  by (auto simp: problem_def split: prod.splits res.splits option.splits)

text \<open>The methods a resource of each kind admits.\<close>

lemma allowed_methods:
  assumes "resource_ok view r" "methodAllowed r m"
  shows "case res_kind r of
      Description \<Rightarrow> m \<in> {''OPTIONS'', ''GET'', ''HEAD''}
    | Value \<Rightarrow> m \<in> {''OPTIONS'', ''GET'', ''HEAD'', ''PUT''}
    | OperationResource \<Rightarrow> m \<in> {''OPTIONS'', ''POST''}
    | Latest \<Rightarrow> m \<in> {''OPTIONS'', ''GET'', ''HEAD''}
    | Samples \<Rightarrow> m \<in> {''OPTIONS'', ''POST''}"
proof -
  have "\<not> starts_with ''GET, HEAD, OPTIONS'' ''POST''" "\<not> has_substring ''GET, HEAD, OPTIONS'' ''PUT''"
    "\<not> starts_with ''GET, HEAD, PUT, OPTIONS'' ''POST''" "\<not> starts_with ''POST, OPTIONS'' ''GET''"
    "\<not> has_substring ''POST, OPTIONS'' ''PUT''"
    by code_simp+
  with assms show ?thesis
    by (auto simp: resource_ok_def methodAllowed_def split: resource_kind.splits if_splits)
qed

end
