(* ===== verification/Invocation_Setup.thy ===== *)
theory Invocation_Setup
  imports Publication_Shape Server_Options Typed_Codec
begin

text \<open>
  Preparation of an operation call (\<open>prepareInvocation\<close> in \<open>operation_executor.cpp\<close>): decoded
  arguments, and one data source for each value that the call will yield.

  A data source is a number; the codecs are virtual, so they and RTT's callers are parameters
  (\<open>codec_ops\<close>, \<open>rtt_calls\<close>).  Any of their calls may throw.  \<open>Refused_by e\<close> is a null result
  with the error \<open>e\<close> written, if one was; \<open>Undefined\<close> is a null dereference or an index out of
  range.
\<close>

section \<open>What is called\<close>

datatype 'a attempt = Gave 'a | AllocThrown | OtherThrown

record 'c codec_ops =
  codec_toJson :: "'c \<Rightarrow> nat \<Rightarrow> codec_context \<Rightarrow> (json res \<times> codec_context) attempt"
  codec_make :: "'c \<Rightarrow> json \<Rightarrow> codec_context \<Rightarrow> (nat res \<times> codec_context) attempt"
  codec_assign :: "'c \<Rightarrow> nat \<Rightarrow> nat \<Rightarrow> unit res attempt"
  codec_portValue ::
    "'c \<Rightarrow> nat \<Rightarrow> codec_context \<Rightarrow> (port_value_status \<times> codec_error option \<times> json \<times> codec_context) attempt"

text \<open>
  \<open>build_value\<close> is \<open>buildValue\<close> of a type; \<open>caller_ready\<close> and \<open>collector_ready\<close> are \<open>check\<close>
  and \<open>ready\<close> with the arguments given; \<open>send_source\<close> is the handle of a sent call.
\<close>

record rtt_calls =
  build_value :: "nat \<Rightarrow> nat option attempt"
  caller_ready :: "nat \<Rightarrow> nat list \<Rightarrow> bool attempt"
  send_source :: "nat \<Rightarrow> nat list \<Rightarrow> nat option attempt"
  is_assignable :: "nat \<Rightarrow> bool"
  collector_ready :: "nat \<Rightarrow> nat list \<Rightarrow> bool attempt"

section \<open>Computations that may throw\<close>

datatype 'a run = Ran 'a | Refused_by "codec_error option" | Thrown bool | Undefined

definition run_bind :: "'a run \<Rightarrow> ('a \<Rightarrow> 'b run) \<Rightarrow> 'b run" where
  "run_bind m f = (case m of Ran x \<Rightarrow> f x | Refused_by e \<Rightarrow> Refused_by e | Thrown b \<Rightarrow> Thrown b | Undefined \<Rightarrow> Undefined)"

text \<open>A call, and a call that reports failure through a \<open>res\<close>; \<open>Thrown True\<close> is \<open>bad_alloc\<close>.\<close>

definition attempted :: "'a attempt \<Rightarrow> 'a run" where
  "attempted a = (case a of Gave x \<Rightarrow> Ran x | AllocThrown \<Rightarrow> Thrown True | OtherThrown \<Rightarrow> Thrown False)"

definition converted :: "('a res \<times> codec_context) attempt \<Rightarrow> ('a \<times> codec_context) run" where
  "converted a = run_bind (attempted a) (\<lambda>(r, c). case r of Ok x \<Rightarrow> Ran (x, c) | Fail e \<Rightarrow> Refused_by e)"

definition refuse :: "codec_error_code \<Rightarrow> 'a run" where
  "refuse e = Refused_by (Some \<lparr>code = e, location = []\<rparr>)"

text \<open>\<open>binding->codec\<close>.\<close>

definition codec_at :: "'c type_binding option \<Rightarrow> 'c run" where
  "codec_at found =
     (case found of
        None \<Rightarrow> Undefined
      | Some b \<Rightarrow> (case bound_codec b of None \<Rightarrow> Undefined | Some c \<Rightarrow> Ran c))"

definition nth_at :: "'a list \<Rightarrow> nat \<Rightarrow> 'a run" where
  "nth_at xs i = (if i < length xs then Ran (xs ! i) else Undefined)"

section \<open>Preparation\<close>

record prepared =
  inv_operation :: nat
  inv_arguments :: "nat list"
  inv_values :: "nat list"
  inv_send :: "nat option"

fun decode_arguments ::
  "'c codec_ops \<Rightarrow> 'c type_binding option list \<Rightarrow> json list \<Rightarrow> codec_context \<Rightarrow> nat list run" where
  "decode_arguments ops bindings [] c = Ran []"
| "decode_arguments ops [] (j # js) c = Undefined"
| "decode_arguments ops (b # bs) (j # js) c =
     run_bind (codec_at b) (\<lambda>cd.
     run_bind (converted (codec_make ops cd j c)) (\<lambda>(s, c').
     run_bind (decode_arguments ops bs js c') (\<lambda>rest. Ran (s # rest))))"

definition fresh_value ::
  "'c codec_ops \<Rightarrow> rtt_calls \<Rightarrow> 'c operation \<Rightarrow> nat \<Rightarrow> codec_context \<Rightarrow> (nat \<times> codec_context) run" where
  "fresh_value ops rtt opn i c =
     run_bind (nth_at (op_collect_types opn) i) (\<lambda>ty.
     case ty of None \<Rightarrow> Undefined | Some t \<Rightarrow>
     run_bind (attempted (build_value rtt t)) (\<lambda>prototype.
     case prototype of None \<Rightarrow> Refused_by None | Some p \<Rightarrow>
     run_bind (nth_at (op_collect_bindings opn) i) (\<lambda>b.
     run_bind (codec_at b) (\<lambda>cd.
     run_bind (converted (codec_toJson ops cd p c)) (\<lambda>(initial, c1).
     converted (codec_make ops cd initial c1))))))"

definition value_source ::
  "'c codec_ops \<Rightarrow> rtt_calls \<Rightarrow> 'c operation \<Rightarrow> nat option \<Rightarrow> nat list \<Rightarrow> nat \<Rightarrow> codec_context \<Rightarrow>
     (nat \<times> codec_context) run" where
  "value_source ops rtt opn send args i c =
     (if send = None \<and> \<not> (op_has_result opn \<and> i = 0) then
        run_bind (nth_at (op_outputs opn) (i - (if op_has_result opn then 1 else 0))) (\<lambda>k.
        run_bind (nth_at args k) (\<lambda>s. Ran (s, c)))
      else fresh_value ops rtt opn i c)"

fun value_sources ::
  "'c codec_ops \<Rightarrow> rtt_calls \<Rightarrow> 'c operation \<Rightarrow> nat option \<Rightarrow> nat list \<Rightarrow> nat list \<Rightarrow> codec_context \<Rightarrow>
     nat list run" where
  "value_sources ops rtt opn send args [] c = Ran []"
| "value_sources ops rtt opn send args (i # is) c =
     run_bind (value_source ops rtt opn send args i c) (\<lambda>(s, c').
     run_bind (value_sources ops rtt opn send args is c') (\<lambda>rest. Ran (s # rest)))"

definition request_context :: "server_options \<Rightarrow> codec_context run" where
  "request_context opts =
     (case make_context 1 \<lparr>maxDocumentBytes = unat (maxRequestBodyBytes opts), maxDepth = unat (maxJsonDepth opts),
         maxAllocationBytes = unat (maxRequestBodyBytes opts) * 8\<rparr> of
        None \<Rightarrow> Thrown False | Some c \<Rightarrow> Ran c)"

definition response_context :: "server_options \<Rightarrow> codec_context run" where
  "response_context opts =
     (case make_context 2 \<lparr>maxDocumentBytes = unat (maxResponseBodyBytes opts), maxDepth = unat (maxJsonDepth opts),
         maxAllocationBytes = unat (maxResponseBodyBytes opts) * 8\<rparr> of
        None \<Rightarrow> Thrown False | Some c \<Rightarrow> Ran c)"

definition prepareInvocation ::
  "'c codec_ops \<Rightarrow> rtt_calls \<Rightarrow> 'c operation \<Rightarrow> json list \<Rightarrow> server_options \<Rightarrow> prepared run" where
  "prepareInvocation ops rtt opn arguments opts =
     (if length arguments \<noteq> length (op_arguments opn) then refuse TypeMismatch
      else
        run_bind (request_context opts) (\<lambda>input.
        run_bind (decode_arguments ops (op_arguments opn) arguments input) (\<lambda>args.
        run_bind (attempted (caller_ready rtt (op_part opn) args)) (\<lambda>ready.
        if \<not> ready then refuse Unavailable
        else
        run_bind (if op_own_thread opn then attempted (send_source rtt (op_part opn) args) else Ran None) (\<lambda>send.
        if send \<noteq> None \<and> \<not> is_assignable rtt (the send) then refuse Unavailable
        else
        run_bind (response_context opts) (\<lambda>out.
        run_bind (value_sources ops rtt opn send args [0..<length (op_collect_types opn)] out) (\<lambda>vals.
        run_bind (if send = None then Ran True else attempted (collector_ready rtt (op_part opn) vals)) (\<lambda>ready.
        if \<not> ready then refuse Unavailable
        else Ran \<lparr>inv_operation = op_part opn, inv_arguments = args, inv_values = vals, inv_send = send\<rparr>))))))))"

section \<open>Facts\<close>

lemma run_bind_Ran [simp]: "run_bind m f = Ran y \<longleftrightarrow> (\<exists>x. m = Ran x \<and> f x = Ran y)"
  by (auto simp: run_bind_def split: run.splits)

lemma run_bind_Undefined: "run_bind m f = Undefined \<longleftrightarrow> m = Undefined \<or> (\<exists>x. m = Ran x \<and> f x = Undefined)"
  by (auto simp: run_bind_def split: run.splits)

lemma attempted_defined [simp]: "attempted a \<noteq> Undefined"
  by (simp add: attempted_def split: attempt.splits)

lemma converted_defined [simp]: "converted a \<noteq> Undefined"
  by (auto simp: converted_def run_bind_Undefined split: res.splits)

lemma refuse_simps [simp]: "refuse e \<noteq> Undefined" "refuse e \<noteq> Ran x"
  by (simp_all add: refuse_def)

lemma contexts_defined [simp]: "request_context opts \<noteq> Undefined" "response_context opts \<noteq> Undefined"
  by (simp_all add: request_context_def response_context_def split: option.splits)

lemma usable_codec: "usable_binding b \<Longrightarrow> \<exists>cd. codec_at b = Ran cd"
  by (auto simp: usable_binding_def codec_at_def split: option.splits)

lemma decode_arguments_length: "decode_arguments ops bs js c = Ran args \<Longrightarrow> length args = length js"
  by (induction ops bs js c arbitrary: args rule: decode_arguments.induct) auto

lemma decode_arguments_defined:
  "list_all usable_binding bs \<Longrightarrow> length js \<le> length bs \<Longrightarrow> decode_arguments ops bs js c \<noteq> Undefined"
proof (induction ops bs js c rule: decode_arguments.induct)
  case (3 ops b bs j js c)
  then show ?case by (auto simp: run_bind_Undefined dest!: usable_codec)
qed simp_all


lemma codec_at_usable: "usable_binding b \<Longrightarrow> codec_at b \<noteq> Undefined"
  using usable_codec by fastforce

lemma value_sources_related:
  "value_sources ops rtt opn send args is c = Ran vals \<Longrightarrow>
     list_all2 (\<lambda>i s. \<exists>c c'. value_source ops rtt opn send args i c = Ran (s, c')) is vals"
  by (induction ops rtt opn send args "is" c arbitrary: vals rule: value_sources.induct) auto

lemma value_sources_defined:
  "\<forall>i \<in> set is. \<forall>c. value_source ops rtt opn send args i c \<noteq> Undefined \<Longrightarrow>
     value_sources ops rtt opn send args is c \<noteq> Undefined"
  by (induction ops rtt opn send args "is" c rule: value_sources.induct) (auto simp: run_bind_Undefined)

lemma value_source_defined:
  assumes "operation_ok opn" "length args = length (op_arguments opn)" "i < length (op_collect_types opn)"
  shows "value_source ops rtt opn send args i c \<noteq> Undefined"
proof -
  have len: "length (op_collect_types opn) = (if op_has_result opn then 1 else 0) + length (op_outputs opn)"
    using assms(1) by (auto simp: operation_ok_def)
  have usable: "usable_binding (op_collect_bindings opn ! i)" "op_collect_types opn ! i \<noteq> None"
    "i < length (op_collect_bindings opn)"
    using assms(1,3) by (auto simp: operation_ok_def list_all_iff nth_append nth_Cons' split: if_splits)
  show ?thesis
  proof (cases "send = None \<and> \<not> (op_has_result opn \<and> i = 0)")
    case True
    let ?j = "i - (if op_has_result opn then 1 else 0)"
    have j: "?j < length (op_outputs opn)" using True len assms(3) by (auto split: if_splits)
    then have "op_outputs opn ! ?j < length args"
      using assms(1,2) by (auto simp: operation_ok_def list_all_iff)
    with True j show ?thesis by (simp add: value_source_def nth_at_def run_bind_Undefined)
  next
    case False
    then show ?thesis
      using usable codec_at_usable [OF usable(1)] assms(3)
      by (auto simp: value_source_def fresh_value_def run_bind_Undefined nth_at_def split: option.splits)
  qed
qed

lemma prepared_sound:
  assumes "operation_ok opn"
  shows "case prepareInvocation ops rtt opn arguments opts of
      Undefined \<Rightarrow> False
    | Ran p \<Rightarrow> length (inv_arguments p) = length (op_arguments opn)
        \<and> length (inv_values p) = length (op_collect_bindings opn)
        \<and> (inv_send p = None \<longrightarrow>
             drop (if op_has_result opn then 1 else 0) (inv_values p) = map (\<lambda>k. inv_arguments p ! k) (op_outputs opn))
    | _ \<Rightarrow> True"
proof (cases "prepareInvocation ops rtt opn arguments opts")
  case (Ran p)
  then obtain input args send out vals where run: "length arguments = length (op_arguments opn)"
    "decode_arguments ops (op_arguments opn) arguments input = Ran args"
    "value_sources ops rtt opn send args [0..<length (op_collect_types opn)] out = Ran vals"
    "p = \<lparr>inv_operation = op_part opn, inv_arguments = args, inv_values = vals, inv_send = send\<rparr>"
    by (auto simp: prepareInvocation_def split: if_splits)
  have args: "length args = length (op_arguments opn)" using decode_arguments_length [OF run(2)] run(1) by simp
  have rel: "list_all2 (\<lambda>i s. \<exists>c c'. value_source ops rtt opn send args i c = Ran (s, c'))
      [0..<length (op_collect_types opn)] vals" by (rule value_sources_related [OF run(3)])
  then have len: "length vals = length (op_collect_types opn)" by (simp add: list_all2_lengthD [symmetric])
  let ?off = "if op_has_result opn then 1 else 0 :: nat"
  have total: "length (op_collect_types opn) = ?off + length (op_outputs opn)"
    using assms by (auto simp: operation_ok_def)
  have "drop ?off vals = map (\<lambda>k. args ! k) (op_outputs opn)" if "send = None"
  proof (rule nth_equalityI)
    show "length (drop ?off vals) = length (map (\<lambda>k. args ! k) (op_outputs opn))" using len total by simp
    fix j assume "j < length (drop ?off vals)"
    then have j: "?off + j < length vals" by simp
    then obtain c c' where "value_source ops rtt opn send args (?off + j) c = Ran (vals ! (?off + j), c')"
      using list_all2_nthD2 [OF rel j] len by auto
    with \<open>send = None\<close> have "vals ! (?off + j) = args ! (op_outputs opn ! j)"
      by (auto simp: value_source_def nth_at_def split: if_splits)
    then show "drop ?off vals ! j = map (\<lambda>k. args ! k) (op_outputs opn) ! j"
      using j len total by simp
  qed
  moreover have "length vals = length (op_collect_bindings opn)" using len assms by (simp add: operation_ok_def)
  ultimately show ?thesis using Ran run(4) args by simp
next
  case Undefined
  have "decode_arguments ops (op_arguments opn) arguments input \<noteq> Undefined"
    if "length arguments = length (op_arguments opn)" for input
  proof (rule decode_arguments_defined)
    show "list_all usable_binding (op_arguments opn)" using assms by (simp add: operation_ok_def)
  qed (simp add: that)
  moreover have "value_sources ops rtt opn send args [0..<length (op_collect_types opn)] out \<noteq> Undefined"
    if "length args = length (op_arguments opn)" for args send out
    using value_source_defined [OF assms that] by (intro value_sources_defined) simp
  moreover have "length args = length (op_arguments opn)"
    if "decode_arguments ops (op_arguments opn) arguments input = Ran args"
      "length arguments = length (op_arguments opn)" for args input
    using decode_arguments_length [OF that(1)] that(2) by simp
  ultimately show ?thesis
    using Undefined by (auto simp: prepareInvocation_def run_bind_Undefined split: if_splits)
qed simp_all

lemma prepareInvocation_defined: "operation_ok opn \<Longrightarrow> prepareInvocation ops rtt opn arguments opts \<noteq> Undefined"
  using prepared_sound [of opn ops rtt arguments opts] by auto

text \<open>
  C40: preparing a call of a supported operation never dereferences a null pointer or indexes
  out of range, whatever the arguments; a prepared call has one decoded argument for each
  parameter and one value for each collected binding, and when the call runs in the calling
  thread, the output values are the argument data sources themselves, so that a reply reports
  what the operation wrote into them.
\<close>

theorem prepareInvocation_sound:
  assumes "operation_ok opn"
  shows "case prepareInvocation ops rtt opn arguments opts of
      Undefined \<Rightarrow> False
    | Ran p \<Rightarrow> length (inv_arguments p) = length (op_arguments opn)
        \<and> length (inv_values p) = length (op_collect_bindings opn)
        \<and> (inv_send p = None \<longrightarrow>
             drop (if op_has_result opn then 1 else 0) (inv_values p) = map (\<lambda>k. inv_arguments p ! k) (op_outputs opn))
    | _ \<Rightarrow> True"
  using assms by (rule prepared_sound)

definition sample_binding :: "nat type_binding" where
  "sample_binding = \<lparr>bound = \<lparr>providerId = [], providerVersion = [], codecId = [], codecVersion = [],
     rttType = ''Int32'', descriptor = [], dependencies = []\<rparr>, bound_codec = Some 4\<rparr>"

text \<open>An operation with a result, an input and an output argument, called in this thread.\<close>

definition sample_operation :: "nat operation" where
  "sample_operation = \<lparr>op_part = 8, op_arguments = [Some sample_binding, Some sample_binding],
     op_collect_types = [Some 3, Some 3], op_collect_bindings = [Some sample_binding, Some sample_binding],
     op_result = Some sample_binding, op_has_result = True, op_own_thread = False, op_outputs = [1]\<rparr>"

definition sample_ops :: "nat codec_ops" where
  "sample_ops = \<lparr>codec_toJson = (\<lambda>cd s c. Gave (Ok JNull, c)),
     codec_make = (\<lambda>cd j c. Gave (Ok (case j of JBool b \<Rightarrow> if b then 21 else 20 | _ \<Rightarrow> 22), c)),
     codec_assign = (\<lambda>cd s d. Gave (Ok ())), codec_portValue = (\<lambda>cd p c. Gave (PortError, None, JNull, c))\<rparr>"

definition sample_rtt :: rtt_calls where
  "sample_rtt = \<lparr>build_value = (\<lambda>t. Gave (Some 12)), caller_ready = (\<lambda>p args. Gave True),
     send_source = (\<lambda>p args. Gave None), is_assignable = (\<lambda>s. True), collector_ready = (\<lambda>p vals. Gave True)\<rparr>"

lemma prepareInvocation_sound_witness:
  "case prepareInvocation sample_ops sample_rtt sample_operation [JBool False, JBool True] default_options of
     Ran p \<Rightarrow> drop 1 (inv_values p) = [inv_arguments p ! 1] | Undefined \<Rightarrow> False | _ \<Rightarrow> True"
proof -
  have "operation_ok sample_operation"
    by (simp add: operation_ok_def sample_operation_def usable_binding_def sample_binding_def)
  note sound = prepareInvocation_sound [OF this, of sample_ops sample_rtt "[JBool False, JBool True]" default_options]
  show ?thesis
  proof (cases "prepareInvocation sample_ops sample_rtt sample_operation [JBool False, JBool True] default_options")
    case (Ran p)
    then have "inv_send p = None"
      by (auto simp: prepareInvocation_def sample_operation_def split: if_splits)
    with Ran sound show ?thesis by (simp add: sample_operation_def)
  qed (use sound in simp_all)
qed

end
