(* ===== verification/Http_Handler.thy ===== *)
theory Http_Handler
  imports Request_Syntax Invocation_Setup
begin

text \<open>
  One request (\<open>Server::Impl::preflight\<close> and \<open>Server::Impl::handle\<close> in \<open>server.cpp\<close>).

  Other threads change the server while a request is handled, and RTT answers what it likes.
  What the handler sees at each of its points is its argument \<open>server_sight\<close>: the state under
  the mutex at preflight and at admission, the publications at the two lookups, the
  executor's answer, and the outcome of each turn of the loop that waits for an operation.  The
  calls that reach live RTT objects are returned as effects, in order.
\<close>

datatype write_status = WriteSuccess | NotConnected | WriteFailure | OtherWriteStatus

text \<open>\<open>write_port\<close>: no status if the bridge's peer is not an output port.\<close>

record 'c handler_env =
  env_lib :: http_lib
  env_ops :: "'c codec_ops"
  env_rtt :: rtt_calls
  env_write_port :: "nat \<Rightarrow> nat \<Rightarrow> write_status option attempt"
  env_options :: server_options

text \<open>
  One turn of the loop that waits for an operation: whether it is complete, what \<open>graceExpired\<close> and
  the clock were, and what \<open>is_connection_closed\<close> answered, where the request has that function.
\<close>

record wait_turn =
  turn_complete :: bool
  turn_grace :: bool
  turn_time :: nat
  turn_closed :: "bool option"

record 'c server_sight =
  running_at_entry :: bool
  published_at_entry :: "'c publications"
  published_later :: "'c publications"
  running_at_admission :: bool
  executor_admits :: bool
  wait_deadline :: nat
  wait_turns :: "wait_turn list"
  final_status :: nat

datatype effect = ReadSource nat | ReadPort nat | Assigned nat nat | WrotePort nat nat | AdmittedCall prepared

datatype outcome = Replied response | StillWaiting | Broken

section \<open>Preflight\<close>

definition uint64 :: int_type where
  "uint64 = \<lparr>bits = 64, signed = False\<rparr>"

definition mutation :: "request \<Rightarrow> bool" where
  "mutation req \<longleftrightarrow> req_method req = ''PUT'' \<or> req_method req = ''POST''"

text \<open>\<open>None\<close> lets the request pass; otherwise the response is final.\<close>

definition declared_length :: "'c handler_env \<Rightarrow> request \<Rightarrow> response option" where
  "declared_length env req =
     (if \<not> has_header req ''Content-Length'' then None
      else case from_chars uint64 (get_header req ''Content-Length'') of
        Some (declared, []) \<Rightarrow>
          if uint (maxRequestBodyBytes (env_options env)) < declared
          then Some (problem (env_lib env) req empty_response 413 None) else None
      | _ \<Rightarrow> Some (problem (env_lib env) req empty_response 400 None))"

definition preflight :: "'c handler_env \<Rightarrow> 'c server_sight \<Rightarrow> request \<Rightarrow> response option" where
  "preflight env sight req =
     (let bad = (\<lambda>status. Some (problem (env_lib env) req empty_response status None)) in
      case canonicalRequestPath (req_target req) of
        None \<Rightarrow> bad 400
      | Some path \<Rightarrow>
          if \<not> running_at_entry sight then bad 503
          else case resolve (published_at_entry sight) path of
            None \<Rightarrow> bad 404
          | Some r \<Rightarrow>
              let allow = empty_response\<lparr>resp_allow := Some (res_allow r)\<rparr> in
              if \<not> methodAllowed r (req_method req) then Some (problem (env_lib env) req allow 405 None)
              else if req_method req = ''OPTIONS'' then Some (allow\<lparr>resp_status := 204\<rparr>)
              else if has_header req ''Content-Encoding'' \<or> (mutation req \<and> \<not> jsonMediaType req) then bad 415
              else declared_length env req)"

section \<open>Phases before live access\<close>

text \<open>
  A phase continues, stops with a problem, leaves through an exception (\<open>Caught True\<close> for
  \<open>bad_alloc\<close>), or is undefined.
\<close>

datatype 'a phase = Continue 'a | Stop nat "string option" | Caught bool | Wrong

definition phase_then :: "'a phase \<Rightarrow> ('a \<Rightarrow> 'b phase) \<Rightarrow> 'b phase" where
  "phase_then m f = (case m of Continue x \<Rightarrow> f x | Stop s t \<Rightarrow> Stop s t | Caught b \<Rightarrow> Caught b | Wrong \<Rightarrow> Wrong)"

definition phase_of :: "(codec_error option \<Rightarrow> nat \<times> string option) \<Rightarrow> 'a run \<Rightarrow> 'a phase" where
  "phase_of g m =
     (case m of
        Ran x \<Rightarrow> Continue x
      | Refused_by e \<Rightarrow> Stop (fst (g e)) (snd (g e))
      | Thrown b \<Rightarrow> Caught b
      | Undefined \<Rightarrow> Wrong)"

definition check_body :: "'c resource \<Rightarrow> json \<Rightarrow> json phase" where
  "check_body r v =
     (let field = (if res_kind r = OperationResource then ''arguments'' else ''value'') in
      case v of
        JObject ms \<Rightarrow>
          if length ms \<noteq> 1 \<or> member ms field = None then Stop 422 None
          else if res_kind r = OperationResource then
            (case member ms ''arguments'' of
               Some (JArray js) \<Rightarrow>
                 (case res_operation r of
                    None \<Rightarrow> Wrong
                  | Some opn \<Rightarrow> if length js \<noteq> length (op_arguments opn) then Stop 422 None else Continue v)
             | _ \<Rightarrow> Stop 422 None)
          else Continue v
      | _ \<Rightarrow> Stop 422 None)"

definition parse_status :: "codec_error option \<Rightarrow> nat" where
  "parse_status e =
     (if responseOverflow e then 413 else if failure_code e = DuplicateKey then 422 else 400)"

definition read_body :: "'c handler_env \<Rightarrow> request \<Rightarrow> 'c resource \<Rightarrow> codec_context \<Rightarrow> json phase" where
  "read_body env req r input =
     (if \<not> mutation req then Continue JNull
      else case parseJson (json_of (env_lib env)) (req_body req) input (Some (storage input, JNull)) of
        Some (Ok _, Some (_, v)) \<Rightarrow> check_body r v
      | Some (Fail e, _) \<Rightarrow> Stop (parse_status e) None
      | _ \<Rightarrow> Wrong)"

text \<open>\<open>body.at\<close> throws if there is no such member.\<close>

definition body_at :: "json \<Rightarrow> string \<Rightarrow> json phase" where
  "body_at v field =
     (case v of
        JObject ms \<Rightarrow> (case member ms field of Some j \<Rightarrow> Continue j | None \<Rightarrow> Caught False)
      | _ \<Rightarrow> Caught False)"

datatype staged = NothingStaged | StagedValue nat | StagedCall prepared

definition stage_request ::
  "'c handler_env \<Rightarrow> request \<Rightarrow> 'c resource \<Rightarrow> json \<Rightarrow> codec_context \<Rightarrow> staged phase" where
  "stage_request env req r v input =
     (if mutation req \<and> res_kind r \<noteq> OperationResource then
        phase_then (body_at v ''value'') (\<lambda>j.
        phase_of (\<lambda>e. (422, None))
          (run_bind (codec_at (res_binding r)) (\<lambda>cd.
           run_bind (converted (codec_make (env_ops env) cd j input)) (\<lambda>(s, c). Ran (StagedValue s)))))
      else if res_kind r = OperationResource then
        phase_then (body_at v ''arguments'') (\<lambda>j.
        case j of
          JArray js \<Rightarrow>
            phase_of (\<lambda>e. (if failure_code e = Unavailable then 503 else 422, None))
              (case res_operation r of
                 None \<Rightarrow> Undefined
               | Some opn \<Rightarrow>
                   run_bind (prepareInvocation (env_ops env) (env_rtt env) opn js (env_options env))
                     (\<lambda>p. Ran (StagedCall p)))
        | _ \<Rightarrow> Caught False)
      else Continue NothingStaged)"

section \<open>Live access\<close>

text \<open>Replies: the response of a problem, of an exception, and of a document.\<close>

definition reply_problem :: "'c handler_env \<Rightarrow> request \<Rightarrow> nat \<Rightarrow> string option \<Rightarrow> outcome" where
  "reply_problem env req status suffix = Replied (problem (env_lib env) req empty_response status suffix)"

definition reply_caught :: "'c handler_env \<Rightarrow> request \<Rightarrow> bool \<Rightarrow> outcome" where
  "reply_caught env req b = reply_problem env req 500 (if b then Some ''response-too-large'' else None)"

definition overflow_suffix :: "codec_error option \<Rightarrow> string" where
  "overflow_suffix e = (if responseOverflow e then ''response-too-large'' else ''value-not-json-representable'')"

definition reply_json :: "'c handler_env \<Rightarrow> request \<Rightarrow> json \<Rightarrow> codec_context \<Rightarrow> outcome" where
  "reply_json env req result out =
     (case serializeJson (json_of (env_lib env)) result out (Some []) of
        (Ok _, Some encoded) \<Rightarrow>
          Replied (empty_response\<lparr>resp_status := 200, resp_content := Some (''application/json'', encoded)\<rparr>)
      | (Fail e, _) \<Rightarrow> reply_problem env req 500 (Some (overflow_suffix e))
      | _ \<Rightarrow> Broken)"

definition finish_phase :: "'c handler_env \<Rightarrow> request \<Rightarrow> ('a \<Rightarrow> outcome) \<Rightarrow> 'a phase \<Rightarrow> outcome" where
  "finish_phase env req f m =
     (case m of
        Continue x \<Rightarrow> f x
      | Stop s t \<Rightarrow> reply_problem env req s t
      | Caught b \<Rightarrow> reply_caught env req b
      | Wrong \<Rightarrow> Broken)"

definition not_representable :: "codec_error option \<Rightarrow> nat \<times> string option" where
  "not_representable e = (500, Some (overflow_suffix e))"

definition read_value :: "'c handler_env \<Rightarrow> request \<Rightarrow> 'c resource \<Rightarrow> nat \<Rightarrow> codec_context \<Rightarrow> outcome" where
  "read_value env req r src out =
     finish_phase env req (\<lambda>(v, c). reply_json env req (JObject [(''value'', v)]) c)
       (phase_of not_representable
          (run_bind (codec_at (res_binding r)) (\<lambda>cd. converted (codec_toJson (env_ops env) cd src out))))"

definition assign_value :: "'c handler_env \<Rightarrow> request \<Rightarrow> 'c resource \<Rightarrow> nat \<Rightarrow> nat \<Rightarrow> outcome" where
  "assign_value env req r src s =
     finish_phase env req
       (\<lambda>res. case res of Ok _ \<Rightarrow> Replied (empty_response\<lparr>resp_status := 204\<rparr>) | Fail e \<Rightarrow> reply_problem env req 500 None)
       (phase_of (\<lambda>e. (500, None))
          (run_bind (codec_at (res_binding r)) (\<lambda>cd. attempted (codec_assign (env_ops env) cd s src))))"

definition latest_value :: "'c handler_env \<Rightarrow> request \<Rightarrow> 'c resource \<Rightarrow> nat \<Rightarrow> codec_context \<Rightarrow> outcome" where
  "latest_value env req r p out =
     finish_phase env req
       (\<lambda>(status, e, v, c).
          if status = PortError then reply_problem env req 500 (Some (overflow_suffix e))
          else reply_json env req (JObject [(''hasSample'', JBool (status = PortValue)),
                 (''value'', if status = PortValue then v else JNull)]) c)
       (phase_of not_representable
          (run_bind (codec_at (res_binding r)) (\<lambda>cd. attempted (codec_portValue (env_ops env) cd p out))))"

definition write_sample :: "'c handler_env \<Rightarrow> request \<Rightarrow> nat \<Rightarrow> nat \<Rightarrow> outcome" where
  "write_sample env req bridge s =
     finish_phase env req
       (\<lambda>status. case status of
          None \<Rightarrow> reply_problem env req 500 None
        | Some WriteSuccess \<Rightarrow> Replied (empty_response\<lparr>resp_status := 204\<rparr>)
        | Some NotConnected \<Rightarrow> reply_problem env req 503 (Some ''port-not-connected'')
        | Some WriteFailure \<Rightarrow> reply_problem env req 503 (Some ''port-write-failed'')
        | Some OtherWriteStatus \<Rightarrow> reply_problem env req 500 None)
       (phase_of not_representable (attempted (env_write_port env bridge s)))"

text \<open>The loop that waits: completion, cutoff or another turn.\<close>

definition wait_cutoff :: "nat \<Rightarrow> wait_turn \<Rightarrow> bool" where
  "wait_cutoff deadline turn \<longleftrightarrow> turn_grace turn \<or> deadline \<le> turn_time turn \<or> turn_closed turn = Some True"

fun wait_complete :: "nat \<Rightarrow> wait_turn list \<Rightarrow> bool option" where
  "wait_complete deadline [] = None"
| "wait_complete deadline (turn # turns) =
     (if turn_complete turn then Some True
      else if wait_cutoff deadline turn then Some False
      else wait_complete deadline turns)"

fun encode_values ::
  "'c codec_ops \<Rightarrow> 'c operation \<Rightarrow> nat list \<Rightarrow> nat \<Rightarrow> json \<times> json list \<Rightarrow> codec_context \<Rightarrow>
     ((json \<times> json list) \<times> codec_context) run" where
  "encode_values ops opn [] i acc c = Ran (acc, c)"
| "encode_values ops opn (s # ss) i (result, outputs) c =
     run_bind (nth_at (op_collect_bindings opn) i) (\<lambda>b.
     run_bind (codec_at b) (\<lambda>cd.
     run_bind (converted (codec_toJson ops cd s c)) (\<lambda>(v, c').
     encode_values ops opn ss (i + 1)
       (if i = 0 \<and> op_has_result opn then (v, outputs) else (result, outputs @ [v])) c')))"

definition await_call ::
  "'c handler_env \<Rightarrow> 'c server_sight \<Rightarrow> request \<Rightarrow> 'c operation \<Rightarrow> prepared \<Rightarrow> codec_context \<Rightarrow> outcome" where
  "await_call env sight req opn p out =
     (case wait_complete (wait_deadline sight) (wait_turns sight) of
        None \<Rightarrow> StillWaiting
      | Some False \<Rightarrow> reply_problem env req 504 None
      | Some True \<Rightarrow>
          if final_status sight \<noteq> 200 then reply_problem env req (final_status sight) None
          else finish_phase env req
            (\<lambda>((result, outputs), c). reply_json env req (JObject [(''result'', result), (''outputs'', JArray outputs)]) c)
            (phase_of not_representable (encode_values (env_ops env) opn (inv_values p) 0 (JNull, []) out)))"

definition perform ::
  "'c handler_env \<Rightarrow> 'c server_sight \<Rightarrow> request \<Rightarrow> 'c resource \<Rightarrow> staged \<Rightarrow> codec_context \<Rightarrow>
     outcome \<times> effect list" where
  "perform env sight req r st out =
     (case res_kind r of
        Description \<Rightarrow> (reply_json env req (res_description r) out, [])
      | Value \<Rightarrow>
          (case (res_source r, st, mutation req) of
             (Some src, StagedValue s, True) \<Rightarrow> (assign_value env req r src s, [Assigned src s])
           | (Some src, _, False) \<Rightarrow> (read_value env req r src out, [ReadSource src])
           | _ \<Rightarrow> (Broken, []))
      | Latest \<Rightarrow>
          (case res_output r of
             Some p \<Rightarrow> (latest_value env req r p out, [ReadPort p])
           | None \<Rightarrow> (Broken, []))
      | Samples \<Rightarrow>
          (case (res_bridge r, st) of
             (Some bridge, StagedValue s) \<Rightarrow> (write_sample env req bridge s, [WrotePort bridge s])
           | _ \<Rightarrow> (Broken, []))
      | OperationResource \<Rightarrow>
          (case (res_operation r, st) of
             (Some opn, StagedCall p) \<Rightarrow> (await_call env sight req opn p out, [])
           | _ \<Rightarrow> (Broken, [])))"

text \<open>The common admission boundary, immediately before live access.\<close>

definition admitted_call :: "staged \<Rightarrow> effect list" where
  "admitted_call st = (case st of StagedCall p \<Rightarrow> [AdmittedCall p] | _ \<Rightarrow> [])"

definition after_admission ::
  "'c handler_env \<Rightarrow> 'c server_sight \<Rightarrow> request \<Rightarrow> 'c resource \<Rightarrow> staged \<Rightarrow> outcome \<times> effect list" where
  "after_admission env sight req r st =
     (if \<not> running_at_admission sight then (reply_problem env req 503 None, [])
      else if admitted_call st \<noteq> [] \<and> \<not> executor_admits sight
      then (reply_problem env req 503 (Some ''operation-capacity-exhausted''), [])
      else case response_context (env_options env) of
        Ran out \<Rightarrow> (case perform env sight req r st out of (res, effects) \<Rightarrow> (res, admitted_call st @ effects))
      | _ \<Rightarrow> (reply_caught env req False, admitted_call st))"

definition stage_all :: "'c handler_env \<Rightarrow> request \<Rightarrow> 'c resource \<Rightarrow> staged phase" where
  "stage_all env req r =
     phase_then (phase_of (\<lambda>e. (500, None)) (request_context (env_options env))) (\<lambda>input.
     phase_then (read_body env req r input) (\<lambda>v.
     if \<not> res_supported r then Stop 501 None else stage_request env req r v input))"

definition handle :: "'c handler_env \<Rightarrow> 'c server_sight \<Rightarrow> request \<Rightarrow> outcome \<times> effect list" where
  "handle env sight req =
     (case preflight env sight req of
        Some resp \<Rightarrow> (Replied resp, [])
      | None \<Rightarrow>
          (case canonicalRequestPath (req_target req) of
             None \<Rightarrow> (Broken, [])
           | Some path \<Rightarrow>
               (case resolve (published_later sight) path of
                  None \<Rightarrow> (reply_problem env req 404 None, [])
                | Some r \<Rightarrow>
                    (case stage_all env req r of
                       Continue st \<Rightarrow> after_admission env sight req r st
                     | other \<Rightarrow> (finish_phase env req (\<lambda>_. Broken) other, [])))))"

end
