(* ===== verification/Http_Properties.thy ===== *)
theory Http_Properties
  imports Http_Handler
begin

text \<open>
  What a client and RTT can rely on when a request is handled: every request is answered with
  one of a few statuses, live RTT objects are touched at most once and only after complete
  validation and admission, rejected requests have no effect, and replies are bounded.
\<close>


section \<open>What a request finds\<close>

text \<open>Boost.JSON's tokenizer closes what it opens: its events never make the handler undefined.\<close>

definition json_lib_ok :: "json_lib \<Rightarrow> bool" where
  "json_lib_ok lib \<longleftrightarrow> (\<forall>c t events parsed consumed.
     tokenize lib c t = Some (events, parsed, consumed) \<longrightarrow> run_events events new_handler \<noteq> None)"

text \<open>
  A server's publications only grow, and all come from publishing with its catalog; a waiting
  loop ends at its deadline at the latest, and a completed operation has one of the statuses of
  \<open>completed_status_faithful\<close>.
\<close>

definition sight_ok :: "'c type_catalog \<Rightarrow> type_diagnostics \<Rightarrow> 'c server_sight \<Rightarrow> bool" where
  "sight_ok cat diags sight \<longleftrightarrow> coded cat \<and> list_all (\<lambda>(n, reason). reason \<noteq> []) diags
     \<and> committed cat diags (published_at_entry sight) \<and> committed cat diags (published_later sight)
     \<and> map_of (published_at_entry sight) \<subseteq>\<^sub>m map_of (published_later sight)
     \<and> final_status sight \<in> {200, 500, 503}
     \<and> list_ex (\<lambda>turn. turn_complete turn \<or> wait_cutoff (wait_deadline sight) turn) (wait_turns sight)"

lemma resolved_ok:
  assumes "committed cat diags pubs" "coded cat" "list_all (\<lambda>(n, reason). reason \<noteq> []) diags"
    and "resolve pubs path = Some r"
  shows "\<exists>view. resource_ok view r"
proof (cases "path = root")
  case True
  with assms(4) have "resource_ok undefined r"
    by (auto simp: resolve_def resource_ok_def new_resource_def)
  then show ?thesis ..
next
  case False
  with assms(4) obtain name pub where 1: "(name, pub) \<in> set pubs" "map_of (pub_routes pub) path = Some r"
    using find_route_Some by (fastforce simp: resolve_def)
  then obtain view owner where "stage view cat diags owner = Inr pub"
    using committed_staged [OF assms(1)] by blast
  then have "list_all (\<lambda>(p, r). resource_ok view r) (pub_routes pub)"
    by (rule published_resources_ok) (use assms in simp_all)
  with 1(2) show ?thesis by (auto simp: list_all_iff dest!: map_of_SomeD)
qed

lemma resolve_grows:
  assumes "committed cat diags pubs" "committed cat diags pubs'" "map_of pubs \<subseteq>\<^sub>m map_of pubs'"
    and "resolve pubs path = Some r" "path \<noteq> root"
  shows "resolve pubs' path = Some r"
proof -
  obtain name pub where 1: "map_of pubs name = Some pub" "map_of (pub_routes pub) path = Some r"
    using resolve_published [OF assms(1,5)] assms(4) by blast
  from 1(1) have "map_of pubs' name = Some pub" using assms(3) by (auto simp: map_le_def dom_def)
  with 1(2) resolve_published [OF assms(2,5)] show ?thesis by blast
qed

text \<open>A request that passes preflight: the resource found later admits its method.\<close>

lemma preflight_passed:
  assumes "sight_ok cat diags sight" "preflight env sight req = None"
  obtains path r view where "canonicalRequestPath (req_target req) = Some path" "running_at_entry sight"
    "resolve (published_later sight) path = Some r" "resource_ok view r" "methodAllowed r (req_method req)"
    "req_method req \<noteq> ''OPTIONS''"
proof -
  obtain path r where 1: "canonicalRequestPath (req_target req) = Some path" "running_at_entry sight"
    "resolve (published_at_entry sight) path = Some r" "methodAllowed r (req_method req)" "req_method req \<noteq> ''OPTIONS''"
    using assms(2) by (auto simp: preflight_def Let_def split: option.splits if_splits)
  have "\<exists>r'. resolve (published_later sight) path = Some r' \<and> methodAllowed r' (req_method req)"
  proof (cases "path = root")
    case True
    then show ?thesis using 1(3,4) by (auto simp: resolve_def methodAllowed_def new_resource_def)
  next
    case False
    then show ?thesis using resolve_grows 1 assms(1) unfolding sight_ok_def by blast
  qed
  then obtain r' where 2: "resolve (published_later sight) path = Some r'" "methodAllowed r' (req_method req)" by blast
  obtain view where "resource_ok view r'"
    using resolved_ok [OF _ _ _ 2(1)] assms(1) unfolding sight_ok_def by blast
  with 1 2 that show ?thesis by blast
qed


section \<open>What is staged\<close>

lemma attempted_Ran [simp]: "attempted a = Ran x \<longleftrightarrow> a = Gave x"
  by (cases a) (auto simp: attempted_def)

lemma converted_Ran [simp]: "converted a = Ran (x, c) \<longleftrightarrow> a = Gave (Ok x, c)"
  by (cases a) (auto simp: converted_def run_bind_def attempted_def split: res.splits)

lemma body_at_simps [simp]:
  "body_at v f \<noteq> Stop s t" "body_at v f \<noteq> Wrong"
  by (auto simp: body_at_def split: json.splits option.splits)

lemma phase_then_Continue [simp]: "phase_then m f = Continue y \<longleftrightarrow> (\<exists>x. m = Continue x \<and> f x = Continue y)"
  by (cases m) (auto simp: phase_then_def)

lemma phase_then_Wrong: "phase_then m f = Wrong \<longleftrightarrow> m = Wrong \<or> (\<exists>x. m = Continue x \<and> f x = Wrong)"
  by (cases m) (auto simp: phase_then_def)

lemma phase_then_Stop: "phase_then m f = Stop s t \<longleftrightarrow> m = Stop s t \<or> (\<exists>x. m = Continue x \<and> f x = Stop s t)"
  by (cases m) (auto simp: phase_then_def)

lemma phase_of_simps [simp]:
  "phase_of g m = Continue x \<longleftrightarrow> m = Ran x" "phase_of g m = Wrong \<longleftrightarrow> m = Undefined"
  by (cases m; auto simp: phase_of_def)+

lemma phase_of_Stop: "phase_of g m = Stop s t \<Longrightarrow> \<exists>e. s = fst (g e)"
  by (cases m) (auto simp: phase_of_def)

text \<open>The document of a body, once parsed.\<close>

definition parsed_body :: "'c handler_env \<Rightarrow> request \<Rightarrow> codec_context \<Rightarrow> json \<Rightarrow> bool" where
  "parsed_body env req input v \<longleftrightarrow>
     parseJson (json_of (env_lib env)) (req_body req) input (Some (storage input, JNull)) = Some (Ok (), Some (storage input, v))"

definition staged_from :: "'c handler_env \<Rightarrow> request \<Rightarrow> 'c resource \<Rightarrow> staged \<Rightarrow> bool" where
  "staged_from env req r st \<longleftrightarrow> res_supported r \<and>
     (case st of
        NothingStaged \<Rightarrow> \<not> mutation req \<and> res_kind r \<noteq> OperationResource
      | StagedValue s \<Rightarrow> mutation req \<and> res_kind r \<noteq> OperationResource \<and>
          (\<exists>input j cd c. parsed_body env req input (JObject [(''value'', j)]) \<and> codec_at (res_binding r) = Ran cd
             \<and> codec_make (env_ops env) cd j input = Gave (Ok s, c))
      | StagedCall p \<Rightarrow> mutation req \<and> res_kind r = OperationResource \<and>
          (\<exists>input js opn. parsed_body env req input (JObject [(''arguments'', JArray js)]) \<and> res_operation r = Some opn
             \<and> length js = length (op_arguments opn)
             \<and> prepareInvocation (env_ops env) (env_rtt env) opn js (env_options env) = Ran p))"

lemma parseJson_value: "parseJson lib t c (Some (k, old)) = Some (Ok u, w) \<Longrightarrow> \<exists>v. w = Some (k, v)"
  by (auto simp: parseJson_def codecFailure_def codecFailureAt_def split: if_splits option.splits sum.splits prod.splits)

lemma read_body_Continue:
  assumes "read_body env req r input = Continue v"
  shows "(\<not> mutation req \<and> v = JNull) \<or> (mutation req \<and> parsed_body env req input v \<and> check_body r v = Continue v)"
proof (cases "mutation req")
  case True
  then obtain u w where w: "parseJson (json_of (env_lib env)) (req_body req) input (Some (storage input, JNull)) = Some (Ok u, Some w)"
    "check_body r (snd w) = Continue v"
    using assms by (auto simp: read_body_def split: option.splits prod.splits res.splits)
  moreover from this(2) have "snd w = v"
    by (auto simp: check_body_def Let_def split: json.splits if_splits option.splits)
  moreover from this parseJson_value [OF w(1)] have "w = (storage input, v)" by (cases w) auto
  ultimately show ?thesis using True by (auto simp: parsed_body_def)
qed (use assms in \<open>simp add: read_body_def\<close>)

lemma one_member: "length ms = 1 \<Longrightarrow> member ms k = Some j \<Longrightarrow> ms = [(k, j)]"
  by (cases ms) (auto split: if_splits)

lemma check_body_Continue:
  assumes "check_body r v = Continue v'"
  shows "if res_kind r = OperationResource
    then \<exists>js opn. v = JObject [(''arguments'', JArray js)] \<and> res_operation r = Some opn \<and> length js = length (op_arguments opn)
    else \<exists>j. v = JObject [(''value'', j)]"
proof (cases v)
  case (JObject ms)
  show ?thesis
  proof (cases "res_kind r = OperationResource")
    case True
    then obtain js opn where "length ms = 1" "member ms ''arguments'' = Some (JArray js)" "res_operation r = Some opn"
      "length js = length (op_arguments opn)"
      using assms JObject by (auto simp: check_body_def Let_def split: if_splits option.splits json.splits)
    with one_member [OF this(1,2)] True JObject show ?thesis by simp
  next
    case False
    then obtain j where "length ms = 1" "member ms ''value'' = Some j"
      using assms JObject by (auto simp: check_body_def Let_def split: if_splits option.splits)
    with one_member [OF this] False JObject show ?thesis by simp
  qed
qed (use assms in \<open>simp_all add: check_body_def\<close>)

lemma stage_all_from:
  assumes "stage_all env req r = Continue st"
  shows "staged_from env req r st"
proof -
  obtain input v where 1: "read_body env req r input = Continue v" "res_supported r"
    "stage_request env req r v input = Continue st"
    using assms by (auto simp: stage_all_def split: if_splits)
  show ?thesis
  proof (cases "mutation req")
    case False
    with 1 read_body_Continue [OF 1(1)] show ?thesis
      by (auto simp: stage_request_def staged_from_def body_at_def split: if_splits)
  next
    case True
    with read_body_Continue [OF 1(1)] have p: "parsed_body env req input v" "check_body r v = Continue v" by simp_all
    show ?thesis
    proof (cases "res_kind r = OperationResource")
      case True
      with check_body_Continue [OF p(2)] obtain js opn where b: "v = JObject [(''arguments'', JArray js)]"
        "res_operation r = Some opn" "length js = length (op_arguments opn)" by auto
      then obtain q where "st = StagedCall q"
          "prepareInvocation (env_ops env) (env_rtt env) opn js (env_options env) = Ran q"
        using 1(3) True by (auto simp: stage_request_def body_at_def)
      with b p(1) 1(2) True \<open>mutation req\<close> show ?thesis unfolding staged_from_def by auto
    next
      case False
      with check_body_Continue [OF p(2)] obtain j where b: "v = JObject [(''value'', j)]" by auto
      then obtain cd q c where "st = StagedValue q" "codec_at (res_binding r) = Ran cd"
          "codec_make (env_ops env) cd j input = Gave (Ok q, c)"
        using 1(3) False \<open>mutation req\<close> by (auto simp: stage_request_def body_at_def)
      with b p(1) 1(2) False \<open>mutation req\<close> show ?thesis unfolding staged_from_def by auto
    qed
  qed
qed

lemma parseJson_defined:
  assumes "json_lib_ok lib"
  shows "parseJson lib t c (Some w) \<noteq> None"
proof -
  have "run_events events new_handler \<noteq> None" if "tokenize lib c t = Some (events, parsed, consumed)"
    for events parsed consumed
    using assms that unfolding json_lib_ok_def by blast
  then show ?thesis
    by (cases w) (auto simp: parseJson_def split: prod.splits option.splits)
qed

lemma ok_binding:
  "resource_ok view r \<Longrightarrow> res_supported r \<Longrightarrow> res_kind r \<in> {Value, Latest, Samples} \<Longrightarrow> \<exists>cd. codec_at (res_binding r) = Ran cd"
  by (auto simp: resource_ok_def usable_binding_def codec_at_def split: option.splits)

lemma ok_operation:
  "resource_ok view r \<Longrightarrow> res_kind r = OperationResource \<Longrightarrow>
     \<exists>opn. res_operation r = Some opn \<and> (res_supported r \<longrightarrow> operation_ok opn)"
  by (auto simp: resource_ok_def split: option.splits)

lemma mutated_kinds:
  "resource_ok view r \<Longrightarrow> methodAllowed r (req_method req) \<Longrightarrow> mutation req \<Longrightarrow>
     res_kind r \<in> {Value, Samples, OperationResource}"
  using allowed_methods [of view r "req_method req"] by (auto simp: mutation_def split: resource_kind.splits)

lemma check_body_defined: "resource_ok view r \<Longrightarrow> check_body r v \<noteq> Wrong"
  using ok_operation [of view r]
  by (auto simp: check_body_def Let_def split: json.splits option.splits)

lemma read_body_defined:
  assumes "resource_ok view r" "json_lib_ok (json_of (env_lib env))"
  shows "read_body env req r input \<noteq> Wrong"
proof (cases "parseJson (json_of (env_lib env)) (req_body req) input (Some (storage input, JNull))")
  case (Some res)
  then show ?thesis
    using parseJson_value check_body_defined [OF assms(1)]
    by (auto simp: read_body_def split: prod.splits res.splits option.splits) blast
qed (use parseJson_defined [OF assms(2)] in \<open>simp\<close>)

lemma stage_request_defined:
  assumes "resource_ok view r" "methodAllowed r (req_method req)" "res_supported r"
  shows "stage_request env req r v input \<noteq> Wrong"
proof (cases "res_kind r = OperationResource")
  case True
  then obtain opn where "res_operation r = Some opn" "operation_ok opn"
    using ok_operation [OF assms(1)] assms(3) by auto
  then show ?thesis
    using True prepareInvocation_defined [of opn "env_ops env" "env_rtt env" _ "env_options env"]
    by (auto simp: stage_request_def phase_then_Wrong body_at_def run_bind_Undefined split: json.splits option.splits)
next
  case False
  show ?thesis
  proof (cases "mutation req")
    case True
    then obtain cd where "codec_at (res_binding r) = Ran cd"
      using ok_binding [OF assms(1,3)] mutated_kinds [OF assms(1,2)] False by auto
    then show ?thesis
      using True False
      by (auto simp: stage_request_def phase_then_Wrong body_at_def run_bind_Undefined split: json.splits option.splits)
  qed (use False in \<open>simp add: stage_request_def\<close>)
qed

lemma stage_all_defined:
  assumes "resource_ok view r" "methodAllowed r (req_method req)" "json_lib_ok (json_of (env_lib env))"
  shows "stage_all env req r \<noteq> Wrong"
  using read_body_defined [OF assms(1,3)] stage_request_defined [OF assms(1,2)]
  by (auto simp: stage_all_def phase_then_Wrong)

lemma stage_all_Stop:
  assumes "stage_all env req r = Stop s t"
  shows "s \<in> {400, 413, 422, 500, 501, 503}"
proof -
  consider "phase_of (\<lambda>e. (500, None)) (request_context (env_options env)) = Stop s t"
    | input where "read_body env req r input = Stop s t" | "s = 501"
    | input v where "stage_request env req r v input = Stop s t"
    using assms by (auto simp: stage_all_def phase_then_Stop split: if_splits)
  then show ?thesis
  proof cases
    case 1
    then show ?thesis by (auto dest: phase_of_Stop)
  next
    case 2
    then show ?thesis
      by (auto simp: read_body_def check_body_def parse_status_def Let_def
          split: if_splits option.splits prod.splits res.splits json.splits)
  next
    case 4
    show ?thesis
    proof (cases "res_kind r = OperationResource")
      case True
      with 4 obtain j where "(case j of
          JArray js \<Rightarrow>
            phase_of (\<lambda>e. (if failure_code e = Unavailable then 503 else 422, None))
              (case res_operation r of
                 None \<Rightarrow> Undefined
               | Some opn \<Rightarrow>
                   run_bind (prepareInvocation (env_ops env) (env_rtt env) opn js (env_options env))
                     (\<lambda>p. Ran (StagedCall p)))
        | _ \<Rightarrow> Caught False) = Stop s t"
        by (auto simp: stage_request_def phase_then_Stop)
      then show ?thesis by (cases j) (auto dest!: phase_of_Stop split: if_splits)
    next
      case False
      with 4 show ?thesis by (auto simp: stage_request_def phase_then_Stop split: if_splits dest!: phase_of_Stop)
    qed
  qed simp
qed

section \<open>Statuses of live access\<close>

definition answers :: "nat set \<Rightarrow> outcome \<Rightarrow> bool" where
  "answers S res = (case res of Replied resp \<Rightarrow> resp_status resp \<in> S | _ \<Rightarrow> False)"

lemma answers_replied [simp]: "answers S (Replied resp) \<longleftrightarrow> resp_status resp \<in> S"
  by (simp add: answers_def)

lemma answers_problem: "s \<in> S \<Longrightarrow> 500 \<in> S \<Longrightarrow> answers S (reply_problem env req s t)"
  using problem_status [of "env_lib env" req empty_response s t] by (auto simp: answers_def reply_problem_def)

lemma answers_caught: "500 \<in> S \<Longrightarrow> answers S (reply_caught env req b)"
  by (simp add: reply_caught_def answers_problem)

lemma serialize_Some: "serializeJson lib v c (Some t) = (Ok u, w) \<Longrightarrow> \<exists>enc. w = Some enc"
  by (auto simp: serializeJson_def codecFailure_def codecFailureAt_def split: if_splits res.splits option.splits)
     (metis)

lemma answers_json: "200 \<in> S \<Longrightarrow> 500 \<in> S \<Longrightarrow> answers S (reply_json env req v c)"
  using serialize_Some [of "json_of (env_lib env)" v c "[]"]
  by (auto simp: reply_json_def answers_def intro: answers_problem split: prod.splits res.splits option.splits)
     (metis answers_def answers_problem)+

lemma answers_finish:
  assumes "\<And>x. m = Continue x \<Longrightarrow> answers S (f x)" "m \<noteq> Wrong" "\<And>s t. m = Stop s t \<Longrightarrow> s \<in> S" "500 \<in> S"
  shows "answers S (finish_phase env req f m)"
  using assms by (cases m) (auto simp: finish_phase_def answers_problem answers_caught)

lemma live_statuses:
  fixes S :: "nat set"
  assumes "200 \<in> S" "204 \<in> S" "500 \<in> S" "503 \<in> S" "504 \<in> S"
  shows "codec_at (res_binding r) = Ran cd \<Longrightarrow> answers S (read_value env req r src out)"
    and "codec_at (res_binding r) = Ran cd \<Longrightarrow> answers S (assign_value env req r src s)"
    and "codec_at (res_binding r) = Ran cd \<Longrightarrow> answers S (latest_value env req r p out)"
    and "answers S (write_sample env req bridge s)"
proof -
  show "codec_at (res_binding r) = Ran cd \<Longrightarrow> answers S (read_value env req r src out)"
    unfolding read_value_def using assms
    by (intro answers_finish) (auto simp: answers_json run_bind_Undefined not_representable_def dest!: phase_of_Stop)
  show "codec_at (res_binding r) = Ran cd \<Longrightarrow> answers S (assign_value env req r src s)"
    unfolding assign_value_def using assms
    by (intro answers_finish) (auto simp: run_bind_Undefined answers_problem dest!: phase_of_Stop split: res.splits)
  show "codec_at (res_binding r) = Ran cd \<Longrightarrow> answers S (latest_value env req r p out)"
    unfolding latest_value_def using assms
    by (intro answers_finish) (auto simp: answers_json answers_problem run_bind_Undefined not_representable_def dest!: phase_of_Stop)
  show "answers S (write_sample env req bridge s)"
    unfolding write_sample_def using assms
    by (intro answers_finish) (auto simp: not_representable_def answers_problem dest!: phase_of_Stop
        split: option.splits write_status.splits)
qed


lemma wait_complete_ends:
  "list_ex (\<lambda>turn. turn_complete turn \<or> wait_cutoff deadline turn) turns \<Longrightarrow> wait_complete deadline turns \<noteq> None"
  by (induction deadline turns rule: wait_complete.induct) auto

lemma encode_values_defined:
  "list_all usable_binding (op_collect_bindings opn) \<Longrightarrow> i + length ss \<le> length (op_collect_bindings opn) \<Longrightarrow>
     encode_values ops opn ss i acc c \<noteq> Undefined"
proof (induction ss arbitrary: i acc c)
  case (Cons s ss)
  obtain result outputs where acc: "acc = (result, outputs)" by (cases acc)
  have "usable_binding (op_collect_bindings opn ! i)" using Cons(2,3) by (simp add: list_all_length)
  then obtain cd where "codec_at (op_collect_bindings opn ! i) = Ran cd" using usable_codec by blast
  then show ?case using Cons by (auto simp: acc run_bind_Undefined nth_at_def)
qed (cases acc; simp)

lemma await_answers:
  assumes "200 \<in> S" "500 \<in> S" "504 \<in> S" "final_status sight \<in> S"
    and "list_ex (\<lambda>turn. turn_complete turn \<or> wait_cutoff (wait_deadline sight) turn) (wait_turns sight)"
    and "operation_ok opn" "length (inv_values p) = length (op_collect_bindings opn)"
  shows "answers S (await_call env sight req opn p out)"
proof -
  have "list_all usable_binding (op_collect_bindings opn)"
    using assms(6) by (auto simp: operation_ok_def list_all_iff)
  then have "encode_values (env_ops env) opn (inv_values p) 0 (JNull, []) out \<noteq> Undefined"
    using assms(7) by (intro encode_values_defined) simp_all
  moreover obtain b where "wait_complete (wait_deadline sight) (wait_turns sight) = Some b"
    using wait_complete_ends [OF assms(5)] by auto
  ultimately show ?thesis
    using assms(1-4) unfolding await_call_def
    by (cases b) (auto simp: answers_problem answers_json not_representable_def intro!: answers_finish dest!: phase_of_Stop)
qed

lemma perform_answers:
  assumes r: "resource_ok view r" "methodAllowed r (req_method req)" "req_method req \<noteq> ''OPTIONS''"
    and st: "staged_from env req r st"
    and S: "200 \<in> S" "204 \<in> S" "500 \<in> S" "503 \<in> S" "504 \<in> S" "final_status sight \<in> S"
    and turns: "list_ex (\<lambda>turn. turn_complete turn \<or> wait_cutoff (wait_deadline sight) turn) (wait_turns sight)"
  shows "answers S (fst (perform env sight req r st out))"
proof (cases "res_kind r")
  case Description
  then show ?thesis using S by (simp add: perform_def answers_json)
next
  case Value
  have sup: "res_supported r" using st by (simp add: staged_from_def)
  obtain cd where cd: "codec_at (res_binding r) = Ran cd" using ok_binding [OF r(1) sup] Value by auto
  obtain src where src: "res_source r = Some src" using r(1) Value by (auto simp: resource_ok_def)
  show ?thesis
    using live_statuses(1,2) [OF S(1-5) cd] st Value src
    by (auto simp: perform_def staged_from_def split: staged.splits)
next
  case OperationResource
  then obtain q input js opn where "st = StagedCall q" "res_operation r = Some opn"
    "prepareInvocation (env_ops env) (env_rtt env) opn js (env_options env) = Ran q"
    using st allowed_methods [OF r(1,2)] r(3) by (auto simp: staged_from_def mutation_def split: staged.splits)
  moreover from this have "operation_ok opn"
    using ok_operation [OF r(1) OperationResource] st by (auto simp: staged_from_def)
  moreover from this have "length (inv_values q) = length (op_collect_bindings opn)"
    using prepared_sound [of opn "env_ops env" "env_rtt env" js "env_options env"] calculation(3) by simp
  ultimately show ?thesis using OperationResource S turns by (auto simp: perform_def intro: await_answers)
next
  case Latest
  have sup: "res_supported r" using st by (simp add: staged_from_def)
  obtain cd where cd: "codec_at (res_binding r) = Ran cd" using ok_binding [OF r(1) sup] Latest by auto
  obtain p where "res_output r = Some p" using r(1) Latest by (auto simp: resource_ok_def)
  then show ?thesis using live_statuses(3) [OF S(1-5) cd] Latest by (simp add: perform_def)
next
  case Samples
  then obtain bridge where "res_bridge r = Some bridge" using r(1) by (auto simp: resource_ok_def)
  moreover obtain s where "st = StagedValue s"
    using st Samples allowed_methods [OF r(1,2)] r(3) by (auto simp: staged_from_def mutation_def split: staged.splits)
  ultimately show ?thesis using live_statuses(4) [OF S(1-5)] Samples by (simp add: perform_def)
qed

definition statuses :: "nat set" where
  "statuses = {200, 204, 400, 404, 405, 413, 415, 422, 500, 501, 503, 504}"

lemma statuses_in: "500 \<in> statuses" "503 \<in> statuses"
  by (simp_all add: statuses_def)

lemma preflight_status: "preflight env sight req = Some resp \<Longrightarrow> resp_status resp \<in> {204, 400, 404, 405, 413, 415, 500, 503}"
  by (auto simp: preflight_def declared_length_def Let_def split: option.splits if_splits prod.splits list.splits)
     (use problem_status in \<open>fastforce\<close>)+

text \<open>
  C36: every request is answered with one of twelve statuses: whatever the request, the
  publications, the codecs and RTT do, no exception escapes and no null pointer or missing
  member is ever dereferenced.
\<close>

theorem handle_answers:
  assumes "sight_ok cat diags sight" "json_lib_ok (json_of (env_lib env))"
  shows "case fst (handle env sight req) of Replied resp \<Rightarrow> resp_status resp \<in> statuses | _ \<Rightarrow> False"
proof -
  have "answers statuses (fst (handle env sight req))"
  proof (cases "preflight env sight req")
    case (Some resp)
    then show ?thesis using preflight_status [OF Some] by (auto simp: handle_def statuses_def)
  next
    case None
    then obtain path r view where 1: "canonicalRequestPath (req_target req) = Some path"
      "resolve (published_later sight) path = Some r" "resource_ok view r" "methodAllowed r (req_method req)"
      "req_method req \<noteq> ''OPTIONS''"
      using preflight_passed [OF assms(1)] by metis
    show ?thesis
    proof (cases "stage_all env req r")
      case (Continue st)
      have "answers statuses (fst (perform env sight req r st out))" for out
        using perform_answers [OF 1(3-5) stage_all_from [OF Continue]] assms(1)
        by (auto simp: statuses_def sight_ok_def)
      then show ?thesis
        using None 1 Continue
        by (auto simp: handle_def after_admission_def case_prod_beta statuses_in split: run.splits
            intro: answers_problem answers_caught)
    next
      case (Stop s t)
      have "s \<in> statuses" using stage_all_Stop [OF Stop] by (auto simp: statuses_def)
      with None 1 Stop show ?thesis
        by (simp add: handle_def finish_phase_def answers_problem statuses_def)
    next
      case (Caught b)
      with None 1 show ?thesis by (simp add: handle_def finish_phase_def answers_caught statuses_def)
    next
      case Wrong
      then show ?thesis using stage_all_defined [OF 1(3,4) assms(2)] by blast
    qed
  qed
  then show ?thesis by (simp add: answers_def)
qed


section \<open>Effects\<close>

lemma handle_effects:
  assumes "sight_ok cat diags sight" "snd (handle env sight req) \<noteq> []"
  obtains path r view st out where "canonicalRequestPath (req_target req) = Some path" "running_at_entry sight"
    "resolve (published_later sight) path = Some r" "resource_ok view r" "methodAllowed r (req_method req)"
    "staged_from env req r st" "running_at_admission sight" "admitted_call st \<noteq> [] \<longrightarrow> executor_admits sight"
    "handle env sight req = (fst (perform env sight req r st out), admitted_call st @ snd (perform env sight req r st out))
     \<or> handle env sight req = (reply_caught env req False, admitted_call st)"
proof -
  have none: "preflight env sight req = None" using assms(2) by (auto simp: handle_def split: option.splits)
  obtain path r view where 1: "canonicalRequestPath (req_target req) = Some path" "running_at_entry sight"
      "resolve (published_later sight) path = Some r" "resource_ok view r" "methodAllowed r (req_method req)"
    by (rule preflight_passed [OF assms(1) none])
  obtain st where st: "stage_all env req r = Continue st" "handle env sight req = after_admission env sight req r st"
    using assms(2) none 1 by (cases "stage_all env req r") (auto simp: handle_def)
  have adm: "running_at_admission sight" "admitted_call st \<noteq> [] \<longrightarrow> executor_admits sight"
    using assms(2) by (auto simp: st(2) after_admission_def split: if_splits)
  show ?thesis
  proof (cases "response_context (env_options env)")
    case (Ran out)
    then show ?thesis
      using adm by (intro that [OF 1 stage_all_from [OF st(1)] adm, of out])
        (auto simp: st(2) after_admission_def case_prod_beta)
  qed (use adm that [OF 1 stage_all_from [OF st(1)] adm] in \<open>auto simp: st(2) after_admission_def\<close>)
qed

definition effect_allowed :: "'c handler_env \<Rightarrow> request \<Rightarrow> 'c resource \<Rightarrow> effect \<Rightarrow> bool" where
  "effect_allowed env req r e =
     (case e of
        ReadSource src \<Rightarrow> res_kind r = Value \<and> req_method req \<in> {''GET'', ''HEAD''} \<and> res_source r = Some src
      | ReadPort p \<Rightarrow> res_kind r = Latest \<and> req_method req \<in> {''GET'', ''HEAD''} \<and> res_output r = Some p
      | Assigned src s \<Rightarrow> res_kind r = Value \<and> req_method req = ''PUT'' \<and> res_source r = Some src
          \<and> staged_from env req r (StagedValue s)
      | WrotePort bridge s \<Rightarrow> res_kind r = Samples \<and> req_method req = ''POST'' \<and> res_bridge r = Some bridge
          \<and> staged_from env req r (StagedValue s)
      | AdmittedCall p \<Rightarrow> res_kind r = OperationResource \<and> req_method req = ''POST''
          \<and> staged_from env req r (StagedCall p))"

lemma performed_effects:
  assumes "resource_ok view r" "methodAllowed r (req_method req)" "staged_from env req r st" "req_method req \<noteq> ''OPTIONS''"
  shows "list_all (effect_allowed env req r) (admitted_call st @ snd (perform env sight req r st out))
    \<and> length (admitted_call st @ snd (perform env sight req r st out)) \<le> 1"
  using allowed_methods [OF assms(1,2)] assms(3,4)
  by (cases "res_kind r"; cases st)
    (auto simp: perform_def admitted_call_def effect_allowed_def staged_from_def mutation_def
      split: option.splits bool.splits)

text \<open>
  C35: live RTT objects are touched at most once per request, only while the server is running
  both at entry and at admission, and only by the method for the resource's kind: a value is
  read by GET or HEAD and assigned by PUT, a port is written and an operation admitted by POST,
  and what is assigned, written or called was decoded from the complete, valid body before.
\<close>

theorem handle_effects_gated:
  assumes "sight_ok cat diags sight" "snd (handle env sight req) \<noteq> []"
  shows "running_at_entry sight \<and> running_at_admission sight \<and> length (snd (handle env sight req)) = 1
    \<and> (\<exists>path r. canonicalRequestPath (req_target req) = Some path \<and> resolve (published_later sight) path = Some r
        \<and> res_supported r \<and> list_all (effect_allowed env req r) (snd (handle env sight req)))"
proof -
  obtain path r view st out where 1: "canonicalRequestPath (req_target req) = Some path" "running_at_entry sight"
    "resolve (published_later sight) path = Some r" "resource_ok view r" "methodAllowed r (req_method req)"
    "staged_from env req r st" "running_at_admission sight" "admitted_call st \<noteq> [] \<longrightarrow> executor_admits sight"
    "handle env sight req = (fst (perform env sight req r st out), admitted_call st @ snd (perform env sight req r st out))
     \<or> handle env sight req = (reply_caught env req False, admitted_call st)"
    using assms by (rule handle_effects)
  have "req_method req \<noteq> ''OPTIONS''"
    using assms(2) by (auto simp: handle_def preflight_def Let_def split: option.splits if_splits)
  note eff = performed_effects [OF 1(4-6) this, of sight out]
  have "list_all (effect_allowed env req r) (snd (handle env sight req)) \<and> length (snd (handle env sight req)) \<le> 1"
    using 1(9) eff by auto
  moreover from this assms(2) have "length (snd (handle env sight req)) = 1"
    by (cases "snd (handle env sight req)") auto
  moreover have "res_supported r" using 1(6) by (simp add: staged_from_def)
  ultimately show ?thesis using 1(1-3,7) by blast
qed

text \<open>
  C38: a rejected request has no effect: when the reply is a client error or 501, nothing was
  read from, assigned to, written to or called in RTT.
\<close>

theorem rejected_without_effect:
  assumes "sight_ok cat diags sight" "fst (handle env sight req) = Replied resp"
    and "resp_status resp \<in> {400, 404, 405, 413, 415, 422, 501}"
  shows "snd (handle env sight req) = []"
proof (rule ccontr)
  assume "snd (handle env sight req) \<noteq> []"
  then obtain path r view st out where 1: "resource_ok view r" "methodAllowed r (req_method req)"
    "staged_from env req r st"
    "handle env sight req = (fst (perform env sight req r st out), admitted_call st @ snd (perform env sight req r st out))
     \<or> handle env sight req = (reply_caught env req False, admitted_call st)"
    using handle_effects [OF assms(1)] by metis
  have "req_method req \<noteq> ''OPTIONS''"
    using \<open>snd (handle env sight req) \<noteq> []\<close>
    by (auto simp: handle_def preflight_def Let_def split: option.splits if_splits)
  then have "answers {200, 204, 500, 503, 504} (fst (perform env sight req r st out))"
    using assms(1) by (intro perform_answers [OF 1(1,2) _ 1(3)]) (auto simp: sight_ok_def)
  moreover have "answers {500} (reply_caught env req False)" by (rule answers_caught) simp
  ultimately show False using 1(4) assms(2,3) by auto
qed

section \<open>The size of a reply\<close>

text \<open>Codecs keep the limits of the context.\<close>

definition codecs_keep :: "'c codec_ops \<Rightarrow> bool" where
  "codecs_keep ops \<longleftrightarrow>
     (\<forall>cd s c r c'. codec_toJson ops cd s c = Gave (r, c') \<longrightarrow> limits c' = limits c)
     \<and> (\<forall>cd p c status e v c'. codec_portValue ops cd p c = Gave (status, e, v, c') \<longrightarrow> limits c' = limits c)"

definition bounded_reply :: "nat \<Rightarrow> outcome \<Rightarrow> bool" where
  "bounded_reply n res = (case res of
     Replied resp \<Rightarrow> (case resp_content resp of Some (media, body) \<Rightarrow> media = ''application/json'' \<longrightarrow> length body \<le> n | None \<Rightarrow> True)
   | _ \<Rightarrow> True)"

lemma bounded_problem [simp]: "bounded_reply n (Replied (problem lib req resp status suffix))"
  by (auto simp: bounded_reply_def problem_def split: prod.splits res.splits option.splits)

lemma bounded_simps [simp]:
  "bounded_reply n (reply_problem env req s t)" "bounded_reply n (reply_caught env req b)"
  "bounded_reply n Broken" "bounded_reply n StillWaiting" "bounded_reply n (Replied (empty_response\<lparr>resp_status := s\<rparr>))"
  by (simp_all add: reply_caught_def reply_problem_def) (simp_all add: bounded_reply_def empty_response_def)

lemma bounded_json:
  "maxDocumentBytes (limits c) \<le> n \<Longrightarrow> bounded_reply n (reply_json env req v c)"
  by (auto simp: reply_json_def serializeJson_def append_parts_eq codecFailure_def codecFailureAt_def
      split: if_splits res.splits option.splits) (simp add: bounded_reply_def empty_response_def)

lemma bounded_finish: "(\<And>x. m = Continue x \<Longrightarrow> bounded_reply n (f x)) \<Longrightarrow> bounded_reply n (finish_phase env req f m)"
  by (cases m) (simp_all add: finish_phase_def)

lemma encode_values_limits:
  assumes "codecs_keep ops"
  shows "encode_values ops opn ss i acc c = Ran (acc', c') \<Longrightarrow> limits c' = limits c"
proof (induction ss arbitrary: i acc c)
  case (Cons s ss)
  obtain result outputs where acc: "acc = (result, outputs)" by (cases acc)
  from Cons(2) obtain cd v c1 acc1 where "codec_toJson ops cd s c = Gave (Ok v, c1)"
    "encode_values ops opn ss (i + 1) acc1 c1 = Ran (acc', c')"
    by (auto simp: acc split: if_splits)
  with Cons(1) assms show ?case unfolding codecs_keep_def by metis
qed (cases acc; simp)

lemma perform_bounded:
  assumes keep: "codecs_keep (env_ops env)" and out: "maxDocumentBytes (limits out) \<le> n"
  shows "bounded_reply n (fst (perform env sight req r st out))"
proof -
  have json: "codec_toJson (env_ops env) cd s out = Gave (res, c) \<Longrightarrow> bounded_reply n (reply_json env req v c)" for cd s res c v
    using keep out unfolding codecs_keep_def by (metis bounded_json)
  have port: "codec_portValue (env_ops env) cd p out = Gave (status, e, w, c) \<Longrightarrow> bounded_reply n (reply_json env req v c)"
    for cd p status e w c v
    using keep out unfolding codecs_keep_def by (metis bounded_json)
  have "bounded_reply n (read_value env req r src out)" for src
    unfolding read_value_def by (rule bounded_finish) (auto intro: json)
  moreover have "bounded_reply n (assign_value env req r src s)" for src s
    unfolding assign_value_def by (rule bounded_finish) (auto split: res.splits)
  moreover have "bounded_reply n (latest_value env req r p out)" for p
    unfolding latest_value_def by (rule bounded_finish) (auto intro: port)
  moreover have "bounded_reply n (write_sample env req bridge s)" for bridge s
    unfolding write_sample_def by (rule bounded_finish) (auto split: option.splits write_status.splits)
  moreover have "bounded_reply n (await_call env sight req opn p out)" for opn p
    unfolding await_call_def using encode_values_limits [OF keep] out
    by (auto intro!: bounded_finish bounded_json split: option.splits bool.splits)
  ultimately show ?thesis
    using out by (auto simp: perform_def bounded_json split: resource_kind.splits option.splits staged.splits bool.splits)
qed

lemma preflight_bounded: "preflight env sight req = Some resp \<Longrightarrow> bounded_reply n (Replied resp)"
  by (auto simp: preflight_def declared_length_def Let_def split: option.splits if_splits prod.splits list.splits)
     (simp add: bounded_reply_def empty_response_def)

lemma handle_bounded:
  assumes "codecs_keep (env_ops env)"
  shows "bounded_reply (unat (maxResponseBodyBytes (env_options env))) (fst (handle env sight req))"
proof -
  have "bounded_reply (unat (maxResponseBodyBytes (env_options env))) (fst (after_admission env sight req r st))" for r st
  proof (cases "response_context (env_options env)")
    case (Ran out)
    then have "maxDocumentBytes (limits out) = unat (maxResponseBodyBytes (env_options env))"
      by (auto simp: response_context_def make_context_def split: if_splits)
    then show ?thesis using Ran perform_bounded [OF assms] by (simp add: after_admission_def case_prod_beta)
  qed (simp_all add: after_admission_def)
  then show ?thesis
    by (auto simp: handle_def preflight_bounded split: option.splits phase.splits intro: bounded_finish)
qed

text \<open>
  C39: a JSON reply never exceeds the configured response size, whatever the resource, its values and
  the outcome of an operation.
\<close>

theorem reply_bounded:
  assumes "codecs_keep (env_ops env)" "fst (handle env sight req) = Replied resp"
    and "resp_content resp = Some (''application/json'', body)"
  shows "length body \<le> unat (maxResponseBodyBytes (env_options env))"
  using handle_bounded [OF assms(1), of sight req] assms(2,3) by (simp add: bounded_reply_def)


section \<open>A server with a component\<close>

definition small_lib :: json_lib where
  "small_lib = \<lparr>tokenize = (\<lambda>c t. Some ([], None, length t)),
     parse_document = (\<lambda>c t. Some (Inr (JObject [(''value'', JInt64 1)]))),
     walk_fits = (\<lambda>c v. True), serialize_parts = (\<lambda>c v. Some [''{}''])\<rparr>"

definition small_options :: server_options where
  "small_options = default_options\<lparr>maxRequestBodyBytes := 9, maxResponseBodyBytes := 9, maxJsonDepth := 3\<rparr>"

definition small_env :: "nat handler_env" where
  "small_env = \<lparr>env_lib = \<lparr>json_of = small_lib, status_message = (\<lambda>s. ''status'')\<rparr>,
     env_ops = \<lparr>codec_toJson = (\<lambda>cd s c. Gave (Ok (JInt64 7), c)), codec_make = (\<lambda>cd j c. Gave (Ok 11, c)),
       codec_assign = (\<lambda>cd s d. Gave (Ok ())), codec_portValue = (\<lambda>cd p c. Gave (PortValue, None, JInt64 7, c))\<rparr>,
     env_rtt = \<lparr>build_value = (\<lambda>t. Gave (Some 12)), caller_ready = (\<lambda>p args. Gave True),
       send_source = (\<lambda>p args. Gave None), is_assignable = (\<lambda>s. True), collector_ready = (\<lambda>p vals. Gave True)\<rparr>,
     env_write_port = (\<lambda>b s. Gave (Some WriteSuccess)), env_options = small_options\<rparr>"

definition small_publications :: "nat publications" where
  "small_publications =
     (case stage sample_view sample_catalog [] sample_owner of Inr pub \<Rightarrow> [(''c'', pub)] | Inl e \<Rightarrow> [])"

definition small_sight :: "nat server_sight" where
  "small_sight = \<lparr>running_at_entry = True, published_at_entry = small_publications,
     published_later = small_publications, running_at_admission = True, executor_admits = True,
     wait_deadline = 40,
     wait_turns = [\<lparr>turn_complete = False, turn_grace = False, turn_time = 30, turn_closed = Some False\<rparr>,
       \<lparr>turn_complete = True, turn_grace = False, turn_time = 40, turn_closed = Some False\<rparr>], final_status = 200\<rparr>"

definition small_request :: "string \<Rightarrow> request" where
  "small_request verb = \<lparr>req_method = verb, req_target = ''/api/v1/components/c/properties/p%20q'',
     req_header = (\<lambda>h. if h = ''Content-Type'' then [''application/json''] else []), req_body = ''{}''\<rparr>"

lemma small_sight_ok: "sight_ok sample_catalog [] small_sight"
proof -
  obtain pub where pub: "stage sample_view sample_catalog [] sample_owner = Inr pub" by (rule sample_staged)
  have "commit (component_name sample_owner) pub [] = (True, [], [(''c'', pub)])"
    by (simp add: commit_def sample_owner_def)
  then have "committed sample_catalog [] small_publications"
    using committed_more [OF committed_none pub] by (simp add: small_publications_def pub)
  moreover have "coded sample_catalog" by (simp add: coded_def sample_catalog_def)
  ultimately show ?thesis by (simp add: sight_ok_def small_sight_def)
qed

lemma small_lib_ok: "json_lib_ok (json_of (env_lib small_env))"
  by (simp add: json_lib_ok_def small_env_def small_lib_def)

abbreviation small_path :: string where
  "small_path \<equiv> ''/api/v1/components/c/properties/p%20q''"

lemma small_resource:
  obtains r b where "resolve small_publications small_path = Some r" "res_kind r = Value" "res_source r = Some 5"
    "res_supported r" "res_allow r = ''GET, HEAD, PUT, OPTIONS''" "res_binding r = Some b" "bound_codec b = Some 4"
proof -
  have "case resolve small_publications small_path of None \<Rightarrow> False
      | Some r \<Rightarrow> res_kind r = Value \<and> res_source r = Some 5 \<and> res_supported r
          \<and> res_allow r = ''GET, HEAD, PUT, OPTIONS''
          \<and> (case res_binding r of None \<Rightarrow> False | Some b \<Rightarrow> bound_codec b = Some 4)"
    by code_simp
  then show ?thesis using that by (auto split: option.splits)
qed

lemma small_path_canonical: "canonicalRequestPath small_path = Some small_path"
  by code_simp

lemma small_methods:
  "starts_with ''GET, HEAD, PUT, OPTIONS'' ''GET''" "has_substring ''GET, HEAD, PUT, OPTIONS'' ''PUT''"
  "jsonMediaType (small_request ''PUT'')"
  by code_simp+

lemma small_contexts:
  "request_context small_options = Ran \<lparr>limits = \<lparr>maxDocumentBytes = 9, maxDepth = 3, maxAllocationBytes = 72\<rparr>,
     storage = 1, depth = 0, remaining = 9\<rparr>"
  "response_context small_options = Ran \<lparr>limits = \<lparr>maxDocumentBytes = 9, maxDepth = 3, maxAllocationBytes = 72\<rparr>,
     storage = 2, depth = 0, remaining = 9\<rparr>"
  by (simp_all add: request_context_def response_context_def make_context_def small_options_def)

lemma small_put: "snd (handle small_env small_sight (small_request ''PUT'')) = [Assigned 5 11]"
proof -
  obtain r b where r: "resolve small_publications small_path = Some r" "res_kind r = Value" "res_source r = Some 5"
    "res_supported r" "res_allow r = ''GET, HEAD, PUT, OPTIONS''" "res_binding r = Some b" "bound_codec b = Some 4"
    by (rule small_resource)
  have "preflight small_env small_sight (small_request ''PUT'') = None"
    using r small_methods small_path_canonical
    by (simp add: preflight_def small_sight_def small_request_def methodAllowed_def mutation_def has_header_def
        declared_length_def Let_def)
  moreover have "run_events [] new_handler = Some new_handler" "\<not> duplicate new_handler" 
    by (simp_all add: new_handler_def)
  then have "stage_all small_env (small_request ''PUT'') r = Continue (StagedValue 11)"
    using r by (simp add: stage_all_def small_env_def small_contexts phase_of_def phase_then_def read_body_def mutation_def
        small_request_def parseJson_def small_lib_def check_body_def stage_request_def body_at_def codec_at_def
        run_bind_def converted_def attempted_def)
  ultimately show ?thesis
    using r by (simp add: handle_def small_path_canonical small_request_def small_sight_def after_admission_def
        admitted_call_def small_env_def small_contexts perform_def mutation_def)
qed

lemma small_delete:
  obtains resp where "fst (handle small_env small_sight (small_request ''DELETE'')) = Replied resp" "resp_status resp = 405"
proof -
  obtain r where r: "resolve small_publications small_path = Some r" by (rule small_resource)
  have "fst (handle small_env small_sight (small_request ''DELETE'')) = Replied (problem (env_lib small_env)
      (small_request ''DELETE'') (empty_response\<lparr>resp_allow := Some (res_allow r)\<rparr>) 405 None)"
    using r small_path_canonical
    by (simp add: handle_def preflight_def small_sight_def small_request_def methodAllowed_def Let_def)
  moreover have "case validateOutput (JObject (problem_body (env_lib small_env) (small_request ''DELETE'') 405
      ''method-not-allowed'')) problem_context of Ok _ \<Rightarrow> True | Fail _ \<Rightarrow> False" by code_simp
  moreover have "maxDocumentBytes (limits problem_context) = 4096" by (simp add: problem_context_def)
  ultimately show ?thesis using that by (simp add: suffixFor_def problem_def serializeJson_def small_env_def small_lib_def split: res.splits)
qed


lemma small_get: "\<exists>resp. fst (handle small_env small_sight (small_request ''GET'')) = Replied resp
   \<and> resp_content resp = Some (''application/json'', ''{}'')"
proof -
  obtain r b where r: "resolve small_publications small_path = Some r" "res_kind r = Value" "res_source r = Some 5"
    "res_supported r" "res_allow r = ''GET, HEAD, PUT, OPTIONS''" "res_binding r = Some b" "bound_codec b = Some 4"
    by (rule small_resource)
  have "preflight small_env small_sight (small_request ''GET'') = None"
    using r small_methods small_path_canonical
    by (simp add: preflight_def small_sight_def small_request_def methodAllowed_def mutation_def has_header_def
        declared_length_def Let_def)
  moreover have "stage_all small_env (small_request ''GET'') r = Continue NothingStaged"
    using r by (simp add: stage_all_def small_env_def small_contexts phase_of_def phase_then_def read_body_def mutation_def
        small_request_def stage_request_def)
  moreover have "case validateOutput (JObject [(''value'', JInt64 7)])
      \<lparr>limits = \<lparr>maxDocumentBytes = 9, maxDepth = 3, maxAllocationBytes = 72\<rparr>, storage = 2, depth = 0, remaining = 9\<rparr>
      of Ok _ \<Rightarrow> True | Fail _ \<Rightarrow> False" by code_simp
  ultimately show ?thesis
    using r by (simp add: handle_def small_path_canonical small_request_def small_sight_def after_admission_def
        admitted_call_def small_env_def small_contexts perform_def mutation_def read_value_def codec_at_def run_bind_def
        converted_def attempted_def phase_of_def finish_phase_def reply_json_def serializeJson_def small_lib_def
        split: res.splits)
qed


lemma handle_answers_witness:
  "case fst (handle small_env small_sight (small_request ''PUT'')) of
     Replied resp \<Rightarrow> resp_status resp \<in> statuses | _ \<Rightarrow> False"
  using handle_answers [OF small_sight_ok small_lib_ok] .

lemma handle_effects_gated_witness:
  "length (snd (handle small_env small_sight (small_request ''PUT''))) = 1"
  using handle_effects_gated [OF small_sight_ok, of small_env "small_request ''PUT''"] small_put by simp

lemma rejected_without_effect_witness:
  "snd (handle small_env small_sight (small_request ''DELETE'')) = []"
proof -
  obtain resp where "fst (handle small_env small_sight (small_request ''DELETE'')) = Replied resp" "resp_status resp = 405"
    by (rule small_delete)
  then show ?thesis using rejected_without_effect [OF small_sight_ok] by simp
qed

lemma reply_bounded_witness: "length ''{}'' \<le> unat (maxResponseBodyBytes (env_options small_env))"
proof -
  obtain resp where "fst (handle small_env small_sight (small_request ''GET'')) = Replied resp"
    "resp_content resp = Some (''application/json'', ''{}'')" using small_get by blast
  moreover have "codecs_keep (env_ops small_env)" by (auto simp: codecs_keep_def small_env_def)
  ultimately show ?thesis by (rule reply_bounded [rotated])
qed

end
