(* ===== verification/Request_Routing.thy ===== *)
theory Request_Routing
  imports Http_Properties
begin

text \<open>
  The handlers that \<open>Server::Impl::run\<close> gives to httplib around \<open>handle\<close>: before routing, for
  \<open>Expect: 100-continue\<close>, for error responses and for exceptions.

  When httplib calls which of them is httplib's business; the property below holds for each
  response by itself, so it does not depend on that.
\<close>

section \<open>The handlers\<close>

text \<open>A response of the handler before routing, with its header \<open>Connection: close\<close>.\<close>

record routed =
  routed_response :: response
  routed_close :: bool

text \<open>
  \<open>tried\<close> is the outcome of \<open>preflight\<close>, or the response as an exception left it.  \<open>None\<close> lets
  httplib read the body and call \<open>handle\<close>.
\<close>

definition pre_routing :: "'c handler_env \<Rightarrow> request \<Rightarrow> response + response option \<Rightarrow> routed option" where
  "pre_routing env req tried =
     (case tried of
        Inr None \<Rightarrow> None
      | Inr (Some resp) \<Rightarrow> Some \<lparr>routed_response = resp, routed_close = True\<rparr>
      | Inl partial \<Rightarrow>
          Some \<lparr>routed_response = problem (env_lib env) req partial 500 None, routed_close = True\<rparr>)"

definition expect_continue :: "'c handler_env \<Rightarrow> 'c server_sight \<Rightarrow> request \<Rightarrow> nat" where
  "expect_continue env sight req =
     (case preflight env sight req of None \<Rightarrow> 100 | Some resp \<Rightarrow> resp_status resp)"

definition problem_media :: "response \<Rightarrow> bool" where
  "problem_media resp \<longleftrightarrow> map_option fst (resp_content resp) = Some ''application/problem+json''"

definition error_handler :: "http_lib \<Rightarrow> request \<Rightarrow> response \<Rightarrow> response" where
  "error_handler lib req resp =
     (if \<not> problem_media resp then problem lib req resp (resp_status resp) None else resp)"

definition exception_handler :: "http_lib \<Rightarrow> request \<Rightarrow> response \<Rightarrow> response" where
  "exception_handler lib req resp = problem lib req resp 500 None"

section \<open>The settings of the listener\<close>

text \<open>
  What \<open>run\<close> hands to httplib: timeouts in milliseconds, the keep-alive timeout in whole seconds,
  limits, and the port as an \<open>int\<close>.
\<close>

record listener_settings =
  read_timeout :: u32
  write_timeout :: u32
  keep_alive_seconds :: u32
  keep_alive_requests :: u32
  payload_limit :: u32
  listen_port :: int

definition settings_of :: "server_options \<Rightarrow> listener_settings" where
  "settings_of opts =
     \<lparr>read_timeout = socketReadTimeoutMs opts, write_timeout = socketWriteTimeoutMs opts,
      keep_alive_seconds = keepAliveTimeoutMs opts div 1000, keep_alive_requests = keepAliveMaxRequests opts,
      payload_limit = maxRequestBodyBytes opts, listen_port = sint (port opts)\<rparr>"

text \<open>For accepted options the division and the conversion to \<open>int\<close> lose nothing.\<close>

lemma accepted_seconds:
  fixes szc :: "('s::len) word"
  assumes "validateOptions szc openssl opts = Inr ()"
  shows "keepAliveTimeoutMs opts mod 1000 = 0"
proof (rule ccontr)
  assume "keepAliveTimeoutMs opts mod 1000 \<noteq> 0"
  with assms show False
    unfolding validateOptions_def Let_def
    by (simp only: if_True if_False sum.distinct simp_thms split: if_split_asm option.split_asm prod.split_asm)
qed

lemma accepted_port:
  fixes szc :: "('s::len) word"
  assumes "validateOptions szc openssl opts = Inr ()"
  shows "\<not> 65535 < port opts"
proof (rule ccontr)
  assume "\<not> \<not> 65535 < port opts"
  then have "port opts = 0 \<or> 65535 < port opts" by simp
  with assms show False
    unfolding validateOptions_def Let_def
    by (simp only: if_True if_False sum.distinct simp_thms split: if_split_asm)
qed
lemma small_words:
  fixes p k :: "32 word"
  assumes ok: "k mod 1000 = 0" "\<not> 65535 < p"
  shows "unat (k div 1000) * 1000 = unat k \<and> sint p = uint p"
proof -
  have "unat k mod 1000 = 0"
    using arg_cong [OF ok(1), of unat] by (simp add: unat_mod)
  then have "unat (k div 1000) * 1000 = unat k" by (simp add: unat_div mod_eq_0_iff_dvd)
  moreover have "uint p \<le> 65535" using ok(2) by (simp add: word_less_def)
  then have "sint p = uint p"
    by (simp add: sint_uint signed_take_bit_int_eq_self order_trans [OF _ unsigned_greater_eq [of p]])
  ultimately show ?thesis ..
qed

lemma settings_exact:
  fixes szc :: "('s::len) word"
  assumes "validateOptions szc openssl opts = Inr ()"
  shows "unat (keep_alive_seconds (settings_of opts)) * 1000 = unat (keepAliveTimeoutMs opts)
    \<and> listen_port (settings_of opts) = uint (port opts)"
  using small_words [OF accepted_seconds [OF assms] accepted_port [OF assms]] by (simp add: settings_of_def)

section \<open>Error responses are problem documents\<close>

definition explained :: "outcome \<Rightarrow> bool" where
  "explained res \<longleftrightarrow>
     (case res of Replied resp \<Rightarrow> resp_status resp < 400 \<or> problem_media resp | _ \<Rightarrow> True)"

lemma problem_media_problem [simp]: "problem_media (problem lib req resp status suffix)"
  by (auto simp: problem_media_def problem_def split: prod.splits res.splits option.splits)

lemma explained_problem [simp]: "explained (Replied (problem lib req resp status suffix))"
  by (simp add: explained_def)

lemma explained_simps [simp]:
  "explained (reply_problem env req s t)" "explained (reply_caught env req b)"
  "explained Broken" "explained StillWaiting" "explained (Replied (empty_response\<lparr>resp_status := 204\<rparr>))"
  by (simp_all add: reply_caught_def reply_problem_def) (simp_all add: explained_def)

lemma explained_json [simp]: "explained (reply_json env req v c)"
  by (auto simp: reply_json_def split: prod.splits res.splits option.splits) (simp add: explained_def)

lemma explained_finish: "(\<And>x. m = Continue x \<Longrightarrow> explained (f x)) \<Longrightarrow> explained (finish_phase env req f m)"
  by (cases m) (simp_all add: finish_phase_def)

lemma explained_perform: "explained (fst (perform env sight req r st out))"
proof -
  have "explained (read_value env req r src out)" for src
    unfolding read_value_def by (rule explained_finish) auto
  moreover have "explained (assign_value env req r src s)" for src s
    unfolding assign_value_def by (rule explained_finish) (auto split: res.splits)
  moreover have "explained (latest_value env req r p out)" for p
    unfolding latest_value_def by (rule explained_finish) auto
  moreover have "explained (write_sample env req bridge s)" for bridge s
    unfolding write_sample_def by (rule explained_finish) (auto split: option.splits write_status.splits)
  moreover have "explained (await_call env sight req opn p out)" for opn p
    unfolding await_call_def by (auto intro!: explained_finish split: option.splits bool.splits)
  ultimately show ?thesis
    by (auto simp: perform_def split: resource_kind.splits option.splits staged.splits bool.splits)
qed

lemma explained_preflight: "preflight env sight req = Some resp \<Longrightarrow> explained (Replied resp)"
  by (auto simp: preflight_def declared_length_def Let_def split: option.splits if_splits prod.splits list.splits)
     (simp add: explained_def)

lemma explained_handle: "explained (fst (handle env sight req))"
proof -
  have "explained (fst (after_admission env sight req r st))" for r st
    by (auto simp: after_admission_def case_prod_beta explained_perform split: run.splits)
  then show ?thesis
    by (auto simp: handle_def explained_preflight split: option.splits phase.splits intro: explained_finish)
qed

lemma error_handler_problem:
  "problem_media (error_handler lib req resp) \<and> resp_status (error_handler lib req resp) \<in> {resp_status resp, 500}
    \<and> resp_allow (error_handler lib req resp) = resp_allow resp"
  using problem_status [of lib req resp "resp_status resp" None] by (auto simp: error_handler_def)

text \<open>
  C37: whatever goes wrong, the client gets a problem document, and the reason given first is the
  one it sees.  Every error response of \<open>handle\<close> and of the handler before routing already is a
  problem document, so the error handler passes it on unchanged, with its own suffix; every other
  error response, of httplib itself, is turned into a problem document with its status kept or
  500; a request answered before its body was read always closes the connection.
\<close>

theorem errors_are_problems:
  shows "(case fst (handle env sight req) of
       Replied resp \<Rightarrow> resp_status resp < 400 \<or> error_handler (env_lib env) req resp = resp
     | _ \<Rightarrow> True)
    \<and> (case pre_routing env req (Inr (preflight env sight req)) of
         None \<Rightarrow> expect_continue env sight req = 100
       | Some out \<Rightarrow> routed_close out \<and> expect_continue env sight req = resp_status (routed_response out)
           \<and> (resp_status (routed_response out) < 400
              \<or> error_handler (env_lib env) req (routed_response out) = routed_response out))
    \<and> (\<forall>resp. problem_media (error_handler (env_lib env) req resp)
         \<and> resp_status (error_handler (env_lib env) req resp) \<in> {resp_status resp, 500})"
  using explained_handle [of env sight req] explained_preflight [of env sight req] error_handler_problem
  by (auto simp: explained_def error_handler_def pre_routing_def expect_continue_def split: outcome.splits option.splits)

end
