(* ===== verification/Served_Values.thy ===== *)
theory Served_Values
  imports Catalog_Properties Request_Routing
begin

text \<open>
  The handler with the library's own codecs: \<open>library_ops\<close> is what \<open>handle\<close> and \<open>prepareInvocation\<close>
  call when a binding holds a codec of \<open>Codec_Object\<close>.  They keep the contract that the handler
  relies on, and a client that reads a value gets what the type document promises.
\<close>

section \<open>The codecs as the handler calls them\<close>

text \<open>\<open>value(output.storage())\<close> is the fresh value that a codec fills; \<open>v\<close> is RTT's state at the call.\<close>

definition library_toJson ::
  "('w, nat) rtt_sources \<Rightarrow> 'w \<Rightarrow> codec_object \<Rightarrow> nat \<Rightarrow> codec_context \<Rightarrow> (json res \<times> codec_context) attempt" where
  "library_toJson rtt v cd s c = Gave (staged_json (toJson rtt v cd (Some s)) c)"

definition library_portValue ::
  "('w, nat) rtt_sources \<Rightarrow> 'w \<Rightarrow> codec_object \<Rightarrow> nat \<Rightarrow> codec_context \<Rightarrow>
     (port_value_status \<times> codec_error option \<times> json \<times> codec_context) attempt" where
  "library_portValue rtt v cd p c =
     Gave (case fst (portValue rtt cd p (Some (storage c, JNull)) c v) of
       (status, e, result, c') \<Rightarrow> (status, e, snd (the result), c'))"

definition library_ops :: "('w, nat) rtt_sources \<Rightarrow> 'w \<Rightarrow> codec_object codec_ops \<Rightarrow> codec_object codec_ops" where
  "library_ops rtt v ops =
     ops\<lparr>codec_toJson := library_toJson rtt v, codec_portValue := library_portValue rtt v\<rparr>"

section \<open>They keep the handler's contract\<close>

definition others_keep :: "('w, 's) rtt_sources \<Rightarrow> bool" where
  "others_keep rtt \<longleftrightarrow> others_ok rtt \<and> (\<forall>n p result c w status e result' c' w'.
     other_portValue rtt n p result c w = ((status, e, result', c'), w') \<longrightarrow> kept c c')"

lemma reflected_port_kept:
  assumes "\<And>w src. contained (f w src)" "reflected_portValue rtt rd f p result c w = ((status, e, result', c'), w')"
  shows "kept c c'"
  using assms(2)
  by (auto simp: reflected_portValue_def split: option.splits prod.splits if_splits res.splits
      dest!: containedD [OF assms(1)])

lemma portValue_kept:
  assumes "others_keep rtt" "portValue rtt cd p result c w = ((status, e, result', c'), w')"
  shows "kept c c'"
proof (cases cd)
  case (TypedCodec t)
  with assms(2) show ?thesis
    by (auto simp: typed_portValue_def split: option.splits if_splits prod.splits res.splits
        dest: balancedD [OF balanced_encode_value])
next
  case (SequenceCodec ty len ety ecd rd)
  then have "reflected_portValue rtt rd (\<lambda>w. toJson rtt w cd) p result c w = ((status, e, result', c'), w')"
    using assms(2) by simp
  moreover have "contained (toJson rtt w cd src)" for w src
    using toJson_contained(1) [of rtt w cd] assms(1) by (simp add: others_keep_def)
  ultimately show ?thesis by (intro reflected_port_kept)
next
  case (StructureCodec ty ms rd)
  then have "reflected_portValue rtt rd (\<lambda>w. toJson rtt w cd) p result c w = ((status, e, result', c'), w')"
    using assms(2) by simp
  moreover have "contained (toJson rtt w cd src)" for w src
    using toJson_contained(1) [of rtt w cd] assms(1) by (simp add: others_keep_def)
  ultimately show ?thesis by (intro reflected_port_kept)
next
  case (OtherCodec n)
  with assms show ?thesis unfolding others_keep_def by (metis portValue.simps(5))
qed (use assms(2) in auto)

lemma library_codecs_keep:
  assumes "others_keep rtt"
  shows "codecs_keep (library_ops rtt v ops)"
proof -
  have "limits c' = limits c" if "staged_json (toJson rtt v cd (Some s)) c = (r, c')" for cd s c r c'
  proof -
    have "balanced (staged_json (toJson rtt v cd (Some s)))"
      using assms toJson_contained(1) [of rtt v cd] by (intro depth_intros) (simp add: others_keep_def)
    from balancedD [OF this that] show ?thesis by (simp add: kept_def)
  qed
  moreover have "limits c' = limits c"
    if "portValue rtt cd p (Some (storage c, JNull)) c v = ((status, e, result, c'), w')" for cd p c status e result c' w'
    using portValue_kept [OF assms that] by (simp add: kept_def)
  ultimately show ?thesis
    by (auto simp: codecs_keep_def library_ops_def library_toJson_def library_portValue_def split: prod.splits)
      (metis prod.collapse)+
qed

section \<open>Where the binding of a value comes from\<close>

lemma find_binding_named: "find_binding cat ty = Some b \<Longrightarrow> \<exists>n. find_name cat n = Some b"
  by (cases ty) (auto simp: find_binding_def find_type_def split: option.splits)

lemma staged_value_named:
  assumes "stage view cat diags owner = Inr pub" "(path, r) \<in> set (pub_routes pub)"
    and "res_kind r = Value" "res_binding r = Some b"
  shows "\<exists>n. find_name cat n = Some b"
proof -
  obtain base where "placed view cat diags base (pub_routes pub)" using assms(1) by (rule stage_placed)
  with assms(2) obtain sp where "belongs view cat diags sp path r" unfolding placed_def by blast
  then show ?thesis
    using assms(3,4)
    by cases (auto simp: value_resource_def new_resource_def collection_def operation_resource_def port_resource_def
        dest: find_binding_named)
qed

lemma published_value_named:
  assumes "committed cat diags pubs" "resolve pubs path = Some r" "res_kind r = Value" "res_binding r = Some b"
  shows "\<exists>n. find_name cat n = Some b"
proof (cases "path = root")
  case True
  with assms(2,3) show ?thesis by (auto simp: resolve_def new_resource_def)
next
  case False
  then obtain name pub where "map_of pubs name = Some pub" "map_of (pub_routes pub) path = Some r"
    using resolve_published [OF assms(1) False] assms(2) by blast
  then have pub: "(name, pub) \<in> set pubs" "(path, r) \<in> set (pub_routes pub)" by (auto dest: map_of_SomeD)
  then obtain view owner where "stage view cat diags owner = Inr pub" using committed_staged [OF assms(1)] by blast
  from staged_value_named [OF this pub(2) assms(3,4)] show ?thesis .
qed

section \<open>Reading a value\<close>

lemma replied_problem: "reply_problem env req s t = Replied resp \<Longrightarrow> resp_status resp \<in> {s, 500}"
  using problem_status [of "env_lib env" req empty_response s t] by (auto simp: reply_problem_def)

lemma replied_json:
  assumes "reply_json env req v c = Replied resp" "resp_status resp = 200"
  shows "\<exists>text. resp_content resp = Some (''application/json'', text)
    \<and> serializeJson (json_of (env_lib env)) v c (Some []) = (Ok (), Some text)"
  using assms by (auto simp: reply_json_def split: prod.splits res.splits option.splits dest!: replied_problem)

lemma replied_value:
  assumes "env_ops env = library_ops rtt v ops" "res_binding r = Some b"
    and "read_value env req r src out = Replied resp" "resp_status resp = 200"
  shows "\<exists>cd j c. bound_codec b = Some cd \<and> staged_json (toJson rtt v cd (Some src)) out = (Ok j, c)
    \<and> reply_json env req (JObject [(''value'', j)]) c = Replied resp"
proof (cases "bound_codec b")
  case None
  with assms show ?thesis
    by (simp add: read_value_def codec_at_def run_bind_def phase_of_def finish_phase_def)
next
  case (Some cd)
  obtain res c where run: "staged_json (toJson rtt v cd (Some src)) out = (res, c)" by fastforce
  show ?thesis
  proof (cases res)
    case (Ok j)
    with assms Some run show ?thesis
      by (simp add: read_value_def codec_at_def run_bind_def library_ops_def library_toJson_def converted_def
          attempted_def phase_of_def finish_phase_def)
  next
    case (Fail e)
    with assms Some run have "reply_problem env req 500 (Some (overflow_suffix e)) = Replied resp"
      by (simp add: read_value_def codec_at_def run_bind_def library_ops_def library_toJson_def converted_def
          attempted_def phase_of_def finish_phase_def not_representable_def)
    with assms(4) show ?thesis by (auto dest!: replied_problem)
  qed
qed

lemma served_by_perform:
  assumes "canonicalRequestPath (req_target req) = Some path" "resolve (published_later sight) path = Some r"
    and "fst (handle env sight req) = Replied resp" "resp_status resp = 200"
  shows "\<exists>st out. fst (perform env sight req r st out) = Replied resp"
proof -
  have pass: "preflight env sight req = None"
    using assms(3,4) by (cases "preflight env sight req") (auto simp: handle_def dest: preflight_status)
  show ?thesis
  proof (cases "stage_all env req r")
    case (Continue st)
    with assms pass have "fst (after_admission env sight req r st) = Replied resp" by (simp add: handle_def)
    with assms(4) show ?thesis
      by (auto simp: after_admission_def reply_caught_def case_prod_beta dest!: replied_problem split: if_splits run.splits)
  next
    case (Stop s t)
    with assms pass have "reply_problem env req s t = Replied resp" by (simp add: handle_def finish_phase_def)
    with assms(4) stage_all_Stop [OF Stop] show ?thesis by (auto dest!: replied_problem)
  next
    case (Caught x)
    with assms pass have "reply_caught env req x = Replied resp" by (simp add: handle_def finish_phase_def)
    with assms(4) show ?thesis by (auto simp: reply_caught_def dest!: replied_problem)
  next
    case Wrong
    with assms pass show ?thesis by (simp add: handle_def finish_phase_def)
  qed
qed

text \<open>
  C2: what a client reads is what the type document promises.  When a GET of a property or an
  attribute is answered with 200, the body is the text of an object with the one member
  \<open>value\<close>, and this value conforms to the definition that the catalog publishes for the type of
  the resource, for the canonical, the reflected and the nested types alike.
\<close>

theorem served_values_conform:
  assumes "fresh_process api pf repo lib store w" "others_ok rtt" "typed_views rtt"
    and "prepare_catalog api pf rx repo lib store addr w new_registry = Some (Inr (cat, diags), w', st')"
    and "env_ops env = library_ops rtt v ops" "canonicalRequestPath (req_target req) = Some path"
    and "resolve (published_later sight) path = Some r" "res_kind r = Value" "res_binding r = Some b"
    and "find_name cat n = Some b" "\<not> mutation req"
    and "fst (handle env sight req) = Replied resp" "resp_status resp = 200"
  shows "\<exists>j c text. resp_content resp = Some (''application/json'', text)
    \<and> serializeJson (json_of (env_lib env)) (JObject [(''value'', j)]) c (Some []) = (Ok (), Some text)
    \<and> conforms (\<lambda>m. map_option (\<lambda>b. descriptor (bound b)) (find_name cat m)) n j"
proof -
  obtain st out where "fst (perform env sight req r st out) = Replied resp"
    using served_by_perform [OF assms(6,7,12,13)] by blast
  then obtain src where "read_value env req r src out = Replied resp"
    using assms(8,11) by (auto simp: perform_def split: option.splits staged.splits)
  from replied_value [OF assms(5,9) this assms(13)] obtain cd j c where j: "bound_codec b = Some cd"
    "staged_json (toJson rtt v cd (Some src)) out = (Ok j, c)"
    "reply_json env req (JObject [(''value'', j)]) c = Replied resp" by blast
  have "contained (toJson rtt v cd (Some src))" using toJson_contained(1) [of rtt v cd] assms(2) by blast
  then obtain u resource where "toJson rtt v cd (Some src) (Some (storage out, JNull)) out = (Ok u, Some (resource, j), c)"
    using staged_json_Ok [OF j(2)] by blast
  from emitted_conforms [OF assms(1-4,10) j(1) this] replied_json [OF j(3) assms(13)] show ?thesis by blast
qed

section \<open>A server that serves a value\<close>

definition value_env :: "codec_object handler_env" where
  "value_env = \<lparr>env_lib = \<lparr>json_of = small_lib, status_message = (\<lambda>s. ''status'')\<rparr>,
     env_ops = library_ops small_views (\<lambda>s. VInt 7) \<lparr>codec_toJson = (\<lambda>cd s c. AllocThrown),
       codec_make = (\<lambda>cd j c. AllocThrown), codec_assign = (\<lambda>cd s d. AllocThrown), codec_portValue = (\<lambda>cd p c. AllocThrown)\<rparr>,
     env_rtt = env_rtt small_env, env_write_port = (\<lambda>b s. AllocThrown), env_options = small_options\<rparr>"

definition value_at :: "codec_object type_binding \<Rightarrow> codec_object resource" where
  "value_at b = new_resource\<lparr>res_kind := Value, res_source := Some 1, res_binding := Some b\<rparr>"

definition value_publications :: "codec_object type_binding \<Rightarrow> codec_object publications" where
  "value_publications b = [(''c'', \<lparr>pub_component = 1, pub_summary = [], pub_routes = [(''/x'', value_at b)],
     pub_diagnostics = [], pub_observers = []\<rparr>)]"

definition value_sight :: "codec_object type_binding \<Rightarrow> codec_object server_sight" where
  "value_sight b = \<lparr>running_at_entry = True, published_at_entry = value_publications b,
     published_later = value_publications b, running_at_admission = True, executor_admits = True, wait_deadline = 0, wait_turns = [],
     final_status = 200\<rparr>"

definition int_codec :: codec_object where
  "int_codec = TypedCodec (IntType (int_of 32 True))"

definition value_request :: request where
  "value_request = \<lparr>req_method = ''GET'', req_target = ''/x'', req_header = (\<lambda>h. []), req_body = []\<rparr>"

lemma value_path: "canonicalRequestPath (req_target value_request) = Some ''/x''"
  by code_simp

lemma value_input: "case request_context small_options of Ran c \<Rightarrow> True | _ \<Rightarrow> False"
  by code_simp

lemma value_output:
  "case response_context small_options of
     Ran out \<Rightarrow>
       (case staged_json (toJson small_views (\<lambda>s. VInt 7) int_codec (Some 1)) out of
          (Ok j, c) \<Rightarrow> j = JInt64 7 \<and>
            (case serializeJson small_lib (JObject [(''value'', JInt64 7)]) c (Some []) of
               (Ok _, Some t) \<Rightarrow> t = ''{}'' | _ \<Rightarrow> False)
        | _ \<Rightarrow> False)
   | _ \<Rightarrow> False"
  by code_simp

lemma value_resolved: "resolve (value_publications b) ''/x'' = Some (value_at b)"
  by (simp add: resolve_def root_def value_publications_def)

lemma value_at_simps [simp]:
  "res_kind (value_at b) = Value" "res_source (value_at b) = Some 1" "res_binding (value_at b) = Some b"
  "res_supported (value_at b)" "methodAllowed (value_at b) ''GET''"
  by (simp_all add: value_at_def new_resource_def methodAllowed_def starts_with_def)

lemma value_preflight: "preflight value_env (value_sight b) value_request = None"
  using value_path
  by (simp add: preflight_def value_sight_def value_request_def value_resolved has_header_def mutation_def
      declared_length_def Let_def)

lemma value_staged: "stage_all value_env value_request (value_at b) = Continue NothingStaged"
proof -
  have "\<exists>c. request_context small_options = Ran c" using value_input by (auto split: run.splits)
  then show ?thesis
    by (auto simp: stage_all_def value_env_def value_request_def phase_of_def phase_then_def read_body_def mutation_def
        stage_request_def)
qed

lemma value_read:
  assumes "bound_codec b = Some int_codec"
  shows "\<exists>out. response_context small_options = Ran out \<and> read_value value_env value_request (value_at b) 1 out =
    Replied (empty_response\<lparr>resp_status := 200, resp_content := Some (''application/json'', ''{}'')\<rparr>)"
proof -
  obtain out c where "response_context small_options = Ran out"
    "staged_json (toJson small_views (\<lambda>s. VInt 7) int_codec (Some 1)) out = (Ok (JInt64 7), c)"
    "serializeJson small_lib (JObject [(''value'', JInt64 7)]) c (Some []) = (Ok (), Some ''{}'')"
    using value_output by (auto split: run.splits prod.splits res.splits option.splits)
  with assms show ?thesis
    by (simp add: read_value_def codec_at_def run_bind_def value_env_def library_ops_def library_toJson_def
        converted_def attempted_def phase_of_def finish_phase_def reply_json_def)
qed

lemma value_served:
  assumes "bound_codec b = Some int_codec"
  shows "fst (handle value_env (value_sight b) value_request) =
    Replied (empty_response\<lparr>resp_status := 200, resp_content := Some (''application/json'', ''{}'')\<rparr>)"
proof -
  have later: "published_later (value_sight b) = value_publications b" "running_at_admission (value_sight b)"
    "env_options value_env = small_options" "\<not> mutation value_request"
    by (simp_all add: value_sight_def value_env_def mutation_def value_request_def)
  from value_read [OF assms] show ?thesis
    by (auto simp: handle_def value_preflight value_path value_resolved value_staged later after_admission_def
        admitted_call_def perform_def)
qed

lemma served_values_conform_witness:
  "\<exists>(cat :: codec_object type_catalog) j. conforms (\<lambda>m. map_option (\<lambda>b. descriptor (bound b)) (find_name cat m)) ''Int32'' j"
proof -
  obtain cat diags w' st' b where run:
    "prepare_catalog small_slots small_platform small_reflection small_repository small_printer 1 0 (\<lambda>t. None) new_registry =
      Some (Inr (cat, diags), w', st')"
    and b: "find_name cat ''Int32'' = Some b" "bound_codec b = Some int_codec"
    unfolding int_codec_def by (rule small_int32)
  have r: "resolve (published_later (value_sight b)) ''/x'' = Some (value_at b)"
    by (simp add: value_sight_def value_resolved)
  have env: "env_ops value_env = library_ops small_views (\<lambda>s. VInt 7) \<lparr>codec_toJson = (\<lambda>cd s c. AllocThrown),
       codec_make = (\<lambda>cd j c. AllocThrown), codec_assign = (\<lambda>cd s d. AllocThrown), codec_portValue = (\<lambda>cd p c. AllocThrown)\<rparr>"
    by (simp add: value_env_def)
  have "\<not> mutation value_request" by (simp add: mutation_def value_request_def)
  from served_values_conform [OF small_fresh small_views_typed(2,1) run env value_path r value_at_simps(1,3) b(1) this
      value_served [OF b(2)]]
  show ?thesis by auto
qed

end
