(* ===== verification/Spec2Isabelle.thy ===== *)
theory Spec2Isabelle
  imports Json_Text Budget Typed_Codec Url_Path Server_Options Type_Catalog Operation_Executor Publication_Map Codec_Roundtrip Network_Pool Server_Properties Served_Values
begin

text \<open>
  A verification library for the C++ library \<open>rtt_http\<close>, which publishes the components of an
  Orocos RTT deployment over HTTP with JSON documents.

  \<^bold>\<open>The program.\<close>  \<open>RTT::http::Server\<close> (\<open>src/server.cpp\<close>) is the facade.  \<open>start\<close> prepares the catalog
  of types once per process, makes the operation executor, reserves the connection list and starts
  the network thread \<open>run\<close>, which binds a listener of cpp-httplib, starts a watchdog and serves
  connections on a bounded pool of threads.  \<open>publishComponent\<close> walks an RTT component and commits
  a publication: a map from canonical paths to resources.  A request passes \<open>preflight\<close> (path,
  state, resource, method, media type, length) twice, before its body is read and in \<open>handle\<close>; then
  its body is parsed and staged into fresh RTT values, admission is decided under the mutex, and only
  then live RTT objects are touched.  Operation calls go to the executor, whose workers call them or
  send them to the component's thread, whose reaper collects what was sent, and which keeps what is
  pending across stops.  Codecs convert between RTT data sources and JSON under a context that bounds
  nesting, document bytes and allocation; they come from the table of RTT's own types, from
  reflection, or from plugins, and are registered with a type definition in a process-wide registry
  that the first start freezes.

  \<^bold>\<open>Theories and code.\<close>  Unless said otherwise the files are those of \<open>src/\<close> and \<open>include/rtt/http/\<close>.
  Definitions keep the names of the functions they translate.

  \<^item> \<open>Prelude\<close>, \<open>Ordered_Map\<close>: bytes, \<open>std::map\<close> as an ordered list, the collections \<open>byte_simps\<close>,
    \<open>codec_simps\<close> and \<open>depth_intros\<close>.
  \<^item> \<open>Utf8\<close>, \<open>Codec_Context\<close>, \<open>Budget\<close>, \<open>Json_Text\<close> (\<open>codec_context.cpp\<close>): \<open>validUtf8\<close>; limits, depth and
    byte budget with \<open>enter\<close>, \<open>leave\<close>, \<open>account\<close>; the allocation budget and its compare-and-exchange
    loop as interleaved steps; \<open>parseJson\<close>, \<open>serializeJson\<close>, \<open>validateOutput\<close>, \<open>DuplicateHandler\<close>.
    \<open>Json\<close> holds JSON values and IEEE numbers with rounding to nearest.
  \<^item> \<open>Numeric_Codec\<close>, \<open>Typed_Codec\<close> (\<open>typed_codec.hpp\<close>): \<open>JsonConversion\<close> for integers at their width,
    \<open>bool\<close>, floating point, enumerations, strings, vectors and arrays; \<open>cpp_type\<close> composes them as
    template instantiation does; \<open>TypedTypeCodec\<close>.  The locale \<open>conversion\<close> is what the containers
    rely on of their elements, \<open>type_codec\<close> what callers rely on of \<open>TypeCodec\<close> (what it shows it can
    make and assign); both are interpreted by the modelled conversions and codecs.
  \<^item> \<open>Type_Registration\<close>, \<open>Type_Catalog\<close> (\<open>type_protocol.cpp\<close>): validation of a registration, canonical
    fingerprints; the registry, its slots in RTT, the freeze with the iterative depth-first search,
    lookup in the catalog.
  \<^item> \<open>Codec_Object\<close>, \<open>Codec_Roundtrip\<close> (\<open>reflected_codec.cpp\<close>, \<open>canonical_types.cpp\<close>): codec objects and
    the dispatch of \<open>toJson\<close>, \<open>makeDataSource\<close>, \<open>assign\<close>, \<open>portValue\<close>, \<open>supportsPortValue\<close>;
    \<open>rtt_memory\<close>, RTT's values as trees of parts that data sources denote places of, the JSON of a
    value as a function of the tree (\<open>value_json\<close>), and that what was read can be written back.
  \<^item> \<open>Canonical_Types\<close> (\<open>canonical_types.cpp\<close>, \<open>type_transport_plugin.cpp\<close>): the table of RTT's own types,
    its registration, \<open>registerTransport\<close>.
  \<^item> \<open>Reflection\<close> (\<open>reflected_codec.cpp\<close>, \<open>reflected_codec.hpp\<close>): \<open>makeReflectedTypeProtocol\<close>, its typed
    overload, and the loop \<open>registerReflectedTypeProtocols\<close>.
  \<^item> \<open>Catalog_Preparation\<close> (\<open>Server::start\<close> in \<open>server.cpp\<close>): the table, reflection and the freeze in the
    order of \<open>start\<close>.  \<open>Type_Conformance\<close> says what a published definition promises about JSON;
    \<open>Catalog_Soundness\<close>, \<open>Reflection_Sound\<close>, \<open>Reflection_Fixpoint\<close> and \<open>Canonical_Sound\<close> carry the
    invariant of the registry through the two loops; \<open>Catalog_Properties\<close> draws the conclusions.
  \<^item> \<open>Url_Path\<close>, \<open>Type_Closure\<close>, \<open>Object_Model\<close>, \<open>Publication\<close> (\<open>object_model.cpp\<close>, \<open>object_model.hpp\<close>): names
    and paths, with the locale \<open>segment_code\<close> between encoding and decoding; the worklist of type
    definitions; the resources of a service; the walk, \<open>stage\<close>, \<open>commit\<close>, \<open>resolve\<close>, \<open>contains\<close>,
    \<open>diagnostics\<close>.  \<open>Publication_Shape\<close>, \<open>Publication_Routes\<close> and \<open>Publication_Map\<close> hold what a
    publication contains and where.
  \<^item> \<open>Server_Options\<close> (\<open>server_options.hpp\<close>, \<open>server.cpp\<close>): \<open>validateOptions\<close> on \<open>size_t\<close> words of any
    width from 32 bits, \<open>endpointUrl\<close>.
  \<^item> \<open>Operation_Executor\<close>, \<open>Executor_Shutdown\<close>, \<open>Invocation_Setup\<close> (\<open>operation_executor.cpp\<close>): admission,
    workers, reaper, drain and shutdown as interleaved steps; \<open>prepareInvocation\<close>.
  \<^item> \<open>Request_Syntax\<close>, \<open>Http_Handler\<close>, \<open>Request_Routing\<close> (\<open>server.cpp\<close>): media types, problems, methods;
    \<open>preflight\<close> and \<open>handle\<close> with every branch; the handlers and settings that \<open>run\<close> gives to
    httplib.  \<open>Http_Properties\<close> holds what clients and RTT can rely on; \<open>Served_Values\<close> what they get
    with the library's codecs and the prepared catalog.
  \<^item> \<open>Network_Pool\<close> (\<open>server.cpp\<close>): the pool behind the listener.
  \<^item> \<open>Server_Lifecycle\<close> (\<open>server.cpp\<close>): the server's state, one definition per critical section of
    \<open>start\<close>, \<open>stop\<close>, \<open>publishComponent\<close>, \<open>finishShutdown\<close>, \<open>run\<close> and \<open>watchGrace\<close>, and the step relation
    \<open>server_step\<close>.  \<open>Server_Invariant\<close> and \<open>Server_Progress\<close> hold its invariant and that calls end;
    \<open>Server_Properties\<close> the conclusions, and a run on which they are applied.

  \<^bold>\<open>How the parts fit.\<close>  \<open>start_model\<close> of the life cycle takes the prepared catalog as an argument, a
  message or a catalog with diagnostics, so its theorems hold for whatever \<open>prepare_catalog\<close>
  returns.  \<open>publish_stage\<close> uses \<open>stage\<close> on that catalog, and the publications of a reachable
  server are those that \<open>commit\<close> builds (\<open>committed\<close>), which is what the handler's theorems assume.
  \<open>serve_admit\<close> is the admission that \<open>handle\<close> sees as \<open>executor_admits\<close>.  The codecs that handler
  and executor call are the parameter \<open>codec_ops\<close>; \<open>Served_Values\<close> fills it with the library's own, shows
  that they keep what the handler relies on, and follows a value from RTT to the body of a reply.

  \<^bold>\<open>What the lemmas show.\<close>  Scalars: exact acceptance, no wrap-around, round trips, also through
  codecs of nested members and elements up to the assignment.  Documents: the
  scanners against independent specifications (UTF-8 encodings, first defect in document order,
  repeated keys).  Types: the freeze decides well-foundedness; preparation of a fresh process
  succeeds; reflection ends at a fixpoint; what codecs emit conforms to what is published.
  Publication: every resource is reachable under one canonical path, complete and usable.
  Requests: closed set of answers, one gated effect at most, bounded replies, errors are problem
  documents.  Threads: each operation and connection is handled once; stop and final shutdown take
  effect at any moment and can always be completed; limits hold across restarts.

  \<^bold>\<open>Parameters.\<close>  Code that is not part of the repository is an argument.  \<open>json_lib\<close> is Boost.JSON's
  tokenizer, parser and serializer; \<open>http_lib\<close> is httplib's table of status texts; \<open>type_slots\<close>,
  \<open>rtt_sources\<close>, \<open>rtt_reflection\<close>, \<open>type_repository\<close>, \<open>rtt_view\<close> and \<open>rtt_calls\<close> are what is used of RTT;
  \<open>codec_ops\<close> and \<open>OtherCodec\<close> are codecs of plugins; \<open>platform\<close>, the width of \<open>size_t\<close> and \<open>openssl\<close> are
  what the build decides.  What a theorem relies on of them is a named hypothesis: \<open>slot_contract\<close>
  (a free slot of a type takes a protocol and no other slot changes), \<open>others_ok\<close> and \<open>codecs_keep\<close>
  (a codec keeps its context; the library's own do), \<open>typed_views\<close> (a source of a C++ type holds a value of it), \<open>rtt_memory\<close>
  (parts, reads, writes and allocations of RTT's values), \<open>fits\<close> (the default value of a type has the
  parts its codec was registered with), \<open>json_lib_ok\<close> (tokenizer events are balanced), \<open>sight_ok\<close> (what
  other threads do to publications and waiting calls).  Each has an instance on which the theorem
  is applied.

  \<^bold>\<open>Loops and interleaving.\<close>  No definition uses fuel.  Loops are structural recursion or \<open>function\<close> with
  a measure: the pending types of reflection, the unvisited types of the search, the weight of the
  frames of \<open>validateOutput\<close>, the names not yet collected.  The loop that waits for an operation
  reads its turns (completion, grace, clock, connection) from a list, which ends in a completion or a
  cutoff.  Threads are inductive step
  relations at the granularity of critical sections, with reachability as the reflexive transitive
  closure; that shutdown can be completed is proved as the existence of a run from every reachable
  state.  History variables are named where they are declared, and no step tests them, except that
  an invocation is admitted once.

  \<^bold>\<open>Not modelled.\<close>  Exceptions of the allocator and of RTT inside a conversion (the handler's model
  has them as outcomes of the call), exceptions of \<open>start\<close> that are not a \<open>std::exception\<close> and the
  state they leave; \<open>PmrAdapter\<close>, the memory order of the budget's counter (one atomic variable has
  one modification order) and data races beyond the mutexes; logging; the socket options,
  the signal mask, TLS and the inside of httplib; destructors that only release or disconnect;
  \<open>createStream\<close> and the name getters of the plugin, which return constants; export macros.
\<close>

end
